(* ===== verification/Flint_Prelude.thy ===== *)
theory Flint_Prelude
  imports Main "HOL-Library.Word" "HOL-Library.Monad_Syntax" "HOL-Library.Signed_Division"
begin

text \<open>
  Shared vocabulary of the development: the C integer types, undefined behaviour as a value,
  signed 64-bit arithmetic with its overflow made explicit, byte memory, and the generic
  state-machine contracts that the components instantiate.
\<close>

unbundle bit_operations_syntax

named_theorems flint_ub \<open>how the checked C operations succeed\<close>
named_theorems flint_word \<open>moving from words to natural numbers\<close>

section \<open>C types\<close>

type_synonym u8 = "8 word"
type_synonym u16 = "16 word"
type_synonym u32 = "32 word"
type_synonym u64 = "64 word"

text \<open>An address of the machine, with the null pointer as 0.\<close>

type_synonym addr = u64

abbreviation NULL :: addr where
  "NULL \<equiv> 0"

section \<open>Undefined behaviour\<close>

text \<open>
  A C expression whose evaluation has no defined result (a null dereference, an access outside
  an object, a signed overflow) or a loop that does not end has the value \<^const>\<open>None\<close>.
\<close>

type_synonym 'a ub = "'a option"

definition ub_guard :: "bool \<Rightarrow> unit ub" where
  "ub_guard b = (if b then Some () else None)"

lemma ub_guard_simps [simp]:
  "ub_guard True = Some ()" "ub_guard False = None"
  by (simp_all add: ub_guard_def)

lemma ub_guard_Some [simp]: "ub_guard b = Some u \<longleftrightarrow> b"
  by (simp add: ub_guard_def)

lemma bind_Some_iff: "(m \<bind> f = Some y) \<longleftrightarrow> (\<exists>x. m = Some x \<and> f x = Some y)"
  by (cases m) auto

section \<open>Signed 64-bit arithmetic\<close>

text \<open>
  The firmware is built without \<^verbatim>\<open>-fwrapv\<close>, so a signed operation whose exact result does not
  fit its type is undefined.  A value of type \<^verbatim>\<open>int64_t\<close> is an \<^typ>\<open>int\<close>, and every operation
  goes through a range check.  Division truncates towards zero.
\<close>

definition i64_range :: "int \<Rightarrow> bool" where
  "i64_range x \<longleftrightarrow> - (2 ^ 63) \<le> x \<and> x < 2 ^ 63"

definition i32_range :: "int \<Rightarrow> bool" where
  "i32_range x \<longleftrightarrow> - (2 ^ 31) \<le> x \<and> x < 2 ^ 31"

definition i64 :: "int \<Rightarrow> int ub" where
  "i64 x = (if i64_range x then Some x else None)"

definition i32 :: "int \<Rightarrow> int ub" where
  "i32 x = (if i32_range x then Some x else None)"

definition add64 :: "int \<Rightarrow> int \<Rightarrow> int ub" where
  "add64 a b = i64 (a + b)"

definition sub64 :: "int \<Rightarrow> int \<Rightarrow> int ub" where
  "sub64 a b = i64 (a - b)"

definition mul64 :: "int \<Rightarrow> int \<Rightarrow> int ub" where
  "mul64 a b = i64 (a * b)"

definition div64 :: "int \<Rightarrow> int \<Rightarrow> int ub" where
  "div64 a b = (if b = 0 then None else i64 (a sdiv b))"

definition rem64 :: "int \<Rightarrow> int \<Rightarrow> int ub" where
  "rem64 a b = (if b = 0 \<or> \<not> i64_range (a sdiv b) then None else Some (a smod b))"

definition neg64 :: "int \<Rightarrow> int ub" where
  "neg64 a = i64 (- a)"

text \<open>Conversions to a narrower or unsigned type wrap (the implementation-defined choice of clang).\<close>

definition to_i8 :: "u8 \<Rightarrow> int" where
  "to_i8 w = sint w"

definition to_i16 :: "u16 \<Rightarrow> int" where
  "to_i16 w = sint w"

definition to_i32 :: "int \<Rightarrow> int" where
  "to_i32 x = signed_take_bit 31 x"

definition to_i64 :: "u64 \<Rightarrow> int" where
  "to_i64 w = sint w"

definition to_u32 :: "int \<Rightarrow> u32" where
  "to_u32 x = word_of_int x"

definition to_u64 :: "int \<Rightarrow> u64" where
  "to_u64 x = word_of_int x"

lemma i64_ok [flint_ub]: "i64_range x \<Longrightarrow> i64 x = Some x"
  by (simp add: i64_def)

lemma i64_Some_iff: "i64 x = Some y \<longleftrightarrow> y = x \<and> i64_range x"
  by (auto simp: i64_def)

lemma i32_Some_iff: "i32 x = Some y \<longleftrightarrow> y = x \<and> i32_range x"
  by (auto simp: i32_def)

lemma checked64_Some_iff [flint_ub]:
  "add64 a b = Some c \<longleftrightarrow> c = a + b \<and> i64_range (a + b)"
  "sub64 a b = Some c \<longleftrightarrow> c = a - b \<and> i64_range (a - b)"
  "mul64 a b = Some c \<longleftrightarrow> c = a * b \<and> i64_range (a * b)"
  "neg64 a = Some c \<longleftrightarrow> c = - a \<and> i64_range (- a)"
  by (auto simp: add64_def sub64_def mul64_def neg64_def i64_Some_iff)

lemma i64_range_sint [simp]: "i64_range (sint (w :: u64))"
  using sint_ge [of w] sint_lt [of w] by (simp add: i64_range_def)

lemma to_i64_range [simp]: "i64_range (to_i64 w)"
  by (simp add: to_i64_def)

text \<open>Truncating division: magnitudes only shrink, so only \<^term>\<open>- (2 ^ 63)\<close> over \<^term>\<open>- 1\<close> overflows.\<close>

lemma sdiv_abs_le: "\<bar>(a::int) sdiv b\<bar> \<le> \<bar>a\<bar>"
proof -
  have "\<bar>a\<bar> div \<bar>b\<bar> \<le> \<bar>a\<bar>"
    using zdiv_mono2 [of "\<bar>a\<bar>" 1 "\<bar>b\<bar>"] by (cases "b = 0") auto
  moreover have "0 \<le> \<bar>a\<bar> div \<bar>b\<bar>"
    by (simp add: div_int_pos_iff)
  ultimately show ?thesis
    by (auto simp: signed_divide_int_def abs_mult sgn_if)
qed

lemma sdiv_sign: "0 < b \<Longrightarrow> (0 \<le> a \<longrightarrow> 0 \<le> (a::int) sdiv b) \<and> (a \<le> 0 \<longrightarrow> a sdiv b \<le> 0)"
  by (auto simp: signed_divide_int_def sgn_if div_int_pos_iff)

lemma div64_pos [flint_ub]: "0 < b \<Longrightarrow> i64_range a \<Longrightarrow> div64 a b = Some (a sdiv b)"
  using sdiv_abs_le [of a b] sdiv_sign [of b a]
  by (auto simp: div64_def i64_def i64_range_def)

lemma rem64_pos [flint_ub]: "0 < b \<Longrightarrow> i64_range a \<Longrightarrow> rem64 a b = Some (a smod b)"
  using div64_pos [of b a] by (auto simp: rem64_def div64_def i64_def split: if_splits)

lemma smod_abs_less: "0 < b \<Longrightarrow> \<bar>(a::int) smod b\<bar> < b"
  using pos_mod_bound [of b "\<bar>a\<bar>"] pos_mod_sign [of b "\<bar>a\<bar>"]
  by (auto simp: smod_int_alt_def sgn_if abs_mult)

section \<open>State machines\<close>

text \<open>
  The states a system can reach from its initial states, and the two contracts the
  components instantiate: an invariant kept by every step, and an order in which every step
  goes up.
\<close>

inductive reach :: "('s \<Rightarrow> bool) \<Rightarrow> ('s \<Rightarrow> 's \<Rightarrow> bool) \<Rightarrow> 's \<Rightarrow> bool"
  for init :: "'s \<Rightarrow> bool" and step :: "'s \<Rightarrow> 's \<Rightarrow> bool" where
  reach_init: "init s \<Longrightarrow> reach init step s"
| reach_step: "reach init step s \<Longrightarrow> step s t \<Longrightarrow> reach init step t"

locale safe_system =
  fixes init :: "'s \<Rightarrow> bool" and step :: "'s \<Rightarrow> 's \<Rightarrow> bool" and inv :: "'s \<Rightarrow> bool"
  assumes inv_init: "init s \<Longrightarrow> inv s"
    and inv_step: "inv s \<Longrightarrow> step s t \<Longrightarrow> inv t"
begin

lemma reach_inv: "reach init step s \<Longrightarrow> inv s"
  by (induction rule: reach.induct) (auto intro: inv_init inv_step)

lemma steps_inv: "step\<^sup>*\<^sup>* s t \<Longrightarrow> inv s \<Longrightarrow> inv t"
  by (induction rule: rtranclp_induct) (auto intro: inv_step)

end

end
