(* ===== verification/Flint_Types.thy ===== *)
theory Flint_Types
  imports Flint_Prelude
begin

text \<open>
  The kernel status codes of \<^verbatim>\<open>include/flint/status.h\<close>, the kernel types of
  \<^verbatim>\<open>include/flint/types.h\<close> and the build constants of \<^verbatim>\<open>include/flint/config.h\<close>.
\<close>

datatype flint_status =
    FLINT_OK
  | FLINT_ERR_CAP_INVALID
  | FLINT_ERR_CAP_TYPE
  | FLINT_ERR_CAP_RIGHTS
  | FLINT_ERR_MSG_TOO_LONG
  | FLINT_ERR_WOULD_BLOCK
  | FLINT_ERR_NO_MEMORY
  | FLINT_ERR_RANGE
  | FLINT_ERR_STATE
  | FLINT_ERR_EXISTS
  | FLINT_ERR_EMPTY

type_synonym flint_word = u32
type_synonym flint_cptr = u32
type_synonym flint_prio = u16
type_synonym flint_msgtag = flint_word
type_synonym flint_badge = flint_word

definition FLINT_WORD_BITS :: nat where
  "FLINT_WORD_BITS = 32"

definition FLINT_CFG_PRIO_COUNT :: nat where
  "FLINT_CFG_PRIO_COUNT = 256"

definition FLINT_CFG_MR_MAX :: u32 where
  "FLINT_CFG_MR_MAX = 64"

definition FLINT_CFG_MSG_MAX_CAPS :: u32 where
  "FLINT_CFG_MSG_MAX_CAPS = 4"

definition FLINT_CFG_CNODE_SLOTS :: nat where
  "FLINT_CFG_CNODE_SLOTS = 64"

end
