(* ===== verification/Msgtag.thy ===== *)
theory Msgtag
  imports Flint_Types
begin

text \<open>
  IPC message tags (\<^verbatim>\<open>kernel/msgtag.c\<close>, \<^verbatim>\<open>include/flint/msgtag.h\<close>): four fields packed in a
  32-bit word.  The lemmas show that packing and the accessors are inverse to each other on
  every tag that packing accepts, and which arguments packing rejects with which status.
\<close>

section \<open>Layout\<close>

definition FLAGS_SHIFT :: nat where
  "FLAGS_SHIFT = 0"

definition NCAPS_SHIFT :: nat where
  "NCAPS_SHIFT = 6"

definition LENGTH_SHIFT :: nat where
  "LENGTH_SHIFT = 9"

definition LABEL_SHIFT :: nat where
  "LABEL_SHIFT = 16"

definition FLINT_MSGTAG_LABEL_MAX :: u32 where
  "FLINT_MSGTAG_LABEL_MAX = 0xFFFF"

definition FLINT_MSGTAG_LENGTH_MAX :: u32 where
  "FLINT_MSGTAG_LENGTH_MAX = 0x7F"

definition FLINT_MSGTAG_NCAPS_MAX :: u32 where
  "FLINT_MSGTAG_NCAPS_MAX = 0x07"

definition FLINT_MSGTAG_FLAGS_MAX :: u32 where
  "FLINT_MSGTAG_FLAGS_MAX = 0x3F"

section \<open>Operations\<close>

text \<open>
  The out parameter is the word it points at, or \<^const>\<open>None\<close> for a null pointer; the result
  pairs the status with the pointed-at word afterwards.
\<close>

definition flint_msgtag_pack ::
  "u16 \<Rightarrow> u8 \<Rightarrow> u8 \<Rightarrow> u8 \<Rightarrow> flint_msgtag option \<Rightarrow> flint_status \<times> flint_msgtag option" where
  "flint_msgtag_pack label len n_caps flags out_tag =
    (if out_tag = None then (FLINT_ERR_RANGE, out_tag)
     else if len > ucast FLINT_MSGTAG_LENGTH_MAX \<or> ucast len > FLINT_CFG_MR_MAX
       then (FLINT_ERR_MSG_TOO_LONG, out_tag)
     else if n_caps > ucast FLINT_MSGTAG_NCAPS_MAX \<or> ucast n_caps > FLINT_CFG_MSG_MAX_CAPS
       then (FLINT_ERR_MSG_TOO_LONG, out_tag)
     else if flags > ucast FLINT_MSGTAG_FLAGS_MAX then (FLINT_ERR_RANGE, out_tag)
     else
       (let tag = (0 :: flint_word);
            tag = tag OR push_bit FLAGS_SHIFT (ucast flags AND FLINT_MSGTAG_FLAGS_MAX);
            tag = tag OR push_bit NCAPS_SHIFT (ucast n_caps AND FLINT_MSGTAG_NCAPS_MAX);
            tag = tag OR push_bit LENGTH_SHIFT (ucast len AND FLINT_MSGTAG_LENGTH_MAX);
            tag = tag OR push_bit LABEL_SHIFT (ucast label AND FLINT_MSGTAG_LABEL_MAX)
        in (FLINT_OK, Some tag)))"

definition flint_msgtag_label :: "flint_msgtag \<Rightarrow> u16" where
  "flint_msgtag_label tag = ucast (drop_bit LABEL_SHIFT tag AND FLINT_MSGTAG_LABEL_MAX)"

definition flint_msgtag_length :: "flint_msgtag \<Rightarrow> u8" where
  "flint_msgtag_length tag = ucast (drop_bit LENGTH_SHIFT tag AND FLINT_MSGTAG_LENGTH_MAX)"

definition flint_msgtag_ncaps :: "flint_msgtag \<Rightarrow> u8" where
  "flint_msgtag_ncaps tag = ucast (drop_bit NCAPS_SHIFT tag AND FLINT_MSGTAG_NCAPS_MAX)"

definition flint_msgtag_flags :: "flint_msgtag \<Rightarrow> u8" where
  "flint_msgtag_flags tag = ucast (drop_bit FLAGS_SHIFT tag AND FLINT_MSGTAG_FLAGS_MAX)"

section \<open>Proofs\<close>

lemmas msgtag_layout =
  FLAGS_SHIFT_def NCAPS_SHIFT_def LENGTH_SHIFT_def LABEL_SHIFT_def

text \<open>Each field maximum is a mask of as many bits as the field is wide.\<close>

lemma msgtag_masks:
  "FLINT_MSGTAG_LABEL_MAX = mask 16" "FLINT_MSGTAG_LENGTH_MAX = mask 7"
  "FLINT_MSGTAG_NCAPS_MAX = mask 3" "FLINT_MSGTAG_FLAGS_MAX = mask 6"
  by (simp_all add: FLINT_MSGTAG_LABEL_MAX_def FLINT_MSGTAG_LENGTH_MAX_def
      FLINT_MSGTAG_NCAPS_MAX_def FLINT_MSGTAG_FLAGS_MAX_def mask_eq_exp_minus_1)

lemma msgtag_word_of_fields:
  "flint_msgtag_pack label len n_caps flags (Some w) = (FLINT_OK, Some tag) \<Longrightarrow>
     tag = take_bit 6 (ucast flags) OR push_bit 6 (take_bit 3 (ucast n_caps)) OR
       push_bit 9 (take_bit 7 (ucast len)) OR push_bit 16 (take_bit 16 (ucast label))"
  by (auto simp: flint_msgtag_pack_def msgtag_masks msgtag_layout take_bit_eq_mask [symmetric]
      Let_def or.assoc take_bit_word_eq_self split: if_splits)

lemma msgtag_accepts:
  "fst (flint_msgtag_pack label len n_caps flags out) = FLINT_OK \<longleftrightarrow>
     out \<noteq> None \<and> unat len \<le> 64 \<and> unat n_caps \<le> 4 \<and> unat flags \<le> 63"
  by (auto simp: flint_msgtag_pack_def Let_def FLINT_MSGTAG_LENGTH_MAX_def FLINT_CFG_MR_MAX_def
      FLINT_MSGTAG_NCAPS_MAX_def FLINT_CFG_MSG_MAX_CAPS_def FLINT_MSGTAG_FLAGS_MAX_def
      word_less_nat_alt not_less unsigned_ucast_eq take_bit_nat_eq_self)

lemma take_bit_small_u8: "unat (x :: u8) < 2 ^ n \<Longrightarrow> take_bit n x = x"
  by (simp add: word_unat_eq_iff unsigned_take_bit_eq take_bit_nat_eq_self)

text \<open>
  C20: round trip.  Whatever tag packing produces, the four accessors read back exactly the
  four values that were packed.
\<close>

theorem msgtag_pack_unpack:
  assumes "flint_msgtag_pack label len n_caps flags out = (FLINT_OK, Some tag)"
  shows "flint_msgtag_label tag = label \<and> flint_msgtag_length tag = len \<and>
    flint_msgtag_ncaps tag = n_caps \<and> flint_msgtag_flags tag = flags"
proof -
  from assms have ok: "fst (flint_msgtag_pack label len n_caps flags out) = FLINT_OK" by simp
  then obtain w where w: "out = Some w" and
    small: "unat len < 2 ^ 7" "unat n_caps < 2 ^ 3" "unat flags < 2 ^ 6"
    unfolding msgtag_accepts by auto
  note keep = take_bit_small_u8 [OF small(1)] take_bit_small_u8 [OF small(2)] take_bit_small_u8 [OF small(3)]
  have tag: "tag = take_bit 6 (ucast flags) OR push_bit 6 (take_bit 3 (ucast n_caps)) OR
       push_bit 9 (take_bit 7 (ucast len)) OR push_bit 16 (take_bit 16 (ucast label))"
    using assms unfolding w by (rule msgtag_word_of_fields)
  have "flint_msgtag_label tag = label"
    by (rule bit_word_eqI) (auto simp: tag flint_msgtag_label_def msgtag_masks msgtag_layout bit_simps)
  moreover have "flint_msgtag_length tag = take_bit 7 len"
    by (rule bit_word_eqI) (auto simp: tag flint_msgtag_length_def msgtag_masks msgtag_layout bit_simps)
  moreover have "flint_msgtag_ncaps tag = take_bit 3 n_caps"
    by (rule bit_word_eqI) (auto simp: tag flint_msgtag_ncaps_def msgtag_masks msgtag_layout bit_simps)
  moreover have "flint_msgtag_flags tag = take_bit 6 flags"
    by (rule bit_word_eqI) (auto simp: tag flint_msgtag_flags_def msgtag_masks msgtag_layout bit_simps)
  ultimately show ?thesis by (simp add: keep)
qed

theorem msgtag_pack_unpack_witness:
  "flint_msgtag_pack 0xBEEF 64 4 3 (Some 0) = (FLINT_OK, Some 0xBEEF8103) \<and>
     flint_msgtag_label 0xBEEF8103 = 0xBEEF \<and> flint_msgtag_length 0xBEEF8103 = 64 \<and>
     flint_msgtag_ncaps 0xBEEF8103 = 4 \<and> flint_msgtag_flags 0xBEEF8103 = 3"
proof -
  have h: "flint_msgtag_pack 0xBEEF 64 4 3 (Some 0) = (FLINT_OK, Some 0xBEEF8103)"
    by code_simp
  show ?thesis using h msgtag_pack_unpack [OF h] by simp
qed

lemma msgtag_bits_join:
  "take_bit 6 tag OR push_bit 6 (take_bit 3 (drop_bit 6 tag)) OR
     push_bit 9 (take_bit 7 (drop_bit 9 tag)) OR push_bit 16 (take_bit 16 (drop_bit 16 tag))
   = (tag :: flint_msgtag)"
proof (rule bit_word_eqI)
  fix n
  assume "n < LENGTH(32)"
  then consider "n < 6" | "6 \<le> n" "n < 9" | "9 \<le> n" "n < 16" | "16 \<le> n" "n < 32" by force
  then show "bit (take_bit 6 tag OR push_bit 6 (take_bit 3 (drop_bit 6 tag)) OR
     push_bit 9 (take_bit 7 (drop_bit 9 tag)) OR push_bit 16 (take_bit 16 (drop_bit 16 tag))) n
     = bit tag n"
    by cases (auto simp: bit_simps)
qed

lemma msgtag_field_words:
  "take_bit 6 (ucast (flint_msgtag_flags tag)) = take_bit 6 tag"
  "take_bit 3 (ucast (flint_msgtag_ncaps tag)) = take_bit 3 (drop_bit 6 tag)"
  "take_bit 7 (ucast (flint_msgtag_length tag)) = take_bit 7 (drop_bit 9 tag)"
  "take_bit 16 (ucast (flint_msgtag_label tag)) = take_bit 16 (drop_bit 16 tag)"
  by (rule bit_word_eqI; auto simp: flint_msgtag_label_def flint_msgtag_length_def
        flint_msgtag_ncaps_def flint_msgtag_flags_def msgtag_masks msgtag_layout bit_simps)+

text \<open>
  The other direction.  Every 32-bit word whose length and capability-count fields are within
  the configured maxima is the tag that packing its own four fields produces.
\<close>

theorem msgtag_unpack_pack:
  assumes "unat (flint_msgtag_length tag) \<le> 64" and "unat (flint_msgtag_ncaps tag) \<le> 4"
  shows "flint_msgtag_pack (flint_msgtag_label tag) (flint_msgtag_length tag)
    (flint_msgtag_ncaps tag) (flint_msgtag_flags tag) (Some w) = (FLINT_OK, Some tag)"
proof -
  have "unat (flint_msgtag_flags tag) \<le> 63"
  proof -
    have "flint_msgtag_flags tag = take_bit 6 (flint_msgtag_flags tag)"
      by (rule bit_word_eqI) (auto simp: flint_msgtag_flags_def msgtag_masks msgtag_layout bit_simps)
    then have "unat (flint_msgtag_flags tag) = take_bit 6 (unat (flint_msgtag_flags tag))"
      by (metis unsigned_take_bit_eq)
    also have "\<dots> < 2 ^ 6" by (rule take_bit_nat_less_exp)
    finally show ?thesis by simp
  qed
  with assms have "fst (flint_msgtag_pack (flint_msgtag_label tag) (flint_msgtag_length tag)
    (flint_msgtag_ncaps tag) (flint_msgtag_flags tag) (Some w)) = FLINT_OK"
    by (simp add: msgtag_accepts)
  then obtain tag' where p: "flint_msgtag_pack (flint_msgtag_label tag) (flint_msgtag_length tag)
    (flint_msgtag_ncaps tag) (flint_msgtag_flags tag) (Some w) = (FLINT_OK, Some tag')"
    by (auto simp: flint_msgtag_pack_def Let_def split: if_splits)
  have "tag' = tag"
    unfolding msgtag_word_of_fields [OF p] msgtag_field_words by (rule msgtag_bits_join)
  with p show ?thesis by simp
qed

theorem msgtag_unpack_pack_witness:
  "unat (flint_msgtag_length 0x12348103) \<le> 64 \<and> unat (flint_msgtag_ncaps 0x12348103) \<le> 4 \<and>
   flint_msgtag_pack (flint_msgtag_label 0x12348103) (flint_msgtag_length 0x12348103)
    (flint_msgtag_ncaps 0x12348103) (flint_msgtag_flags 0x12348103) (Some 0)
    = (FLINT_OK, Some 0x12348103)"
proof -
  have h: "unat (flint_msgtag_length 0x12348103) \<le> 64" "unat (flint_msgtag_ncaps 0x12348103) \<le> 4"
    by code_simp+
  show ?thesis using h msgtag_unpack_pack [OF h, of 0] by simp
qed


end
