(* ===== verification/Cap.thy ===== *)
theory Cap
  imports Flint_Types
begin

text \<open>
  Capabilities and the flat CNode (\<^verbatim>\<open>kernel/cap.c\<close>, \<^verbatim>\<open>include/flint/cap.h\<close>).  A capability space
  maps the address of a CNode to its slot array, so that the source and the destination of an
  operation may be the same CNode.  The lemmas show that no sequence of derivation operations
  creates authority, that a failing operation changes nothing, and what each operation does on
  every branch.
\<close>

section \<open>Data\<close>

datatype flint_cap_type =
    FLINT_CAP_NULL
  | FLINT_CAP_UNTYPED
  | FLINT_CAP_DOMAIN
  | FLINT_CAP_THREAD
  | FLINT_CAP_CNODE
  | FLINT_CAP_ENDPOINT
  | FLINT_CAP_NOTIFICATION
  | FLINT_CAP_REPLY
  | FLINT_CAP_SCHEDCONTEXT
  | FLINT_CAP_IRQHANDLER
  | FLINT_CAP_MEMREGION

type_synonym flint_rights = u8

definition FLINT_RIGHT_ALL :: flint_rights where
  "FLINT_RIGHT_ALL = 0xF"

definition FLINT_CAP_NO_PARENT :: flint_cptr where
  "FLINT_CAP_NO_PARENT = 0xFFFFFFFF"

record flint_cap =
  cap_type :: flint_cap_type
  cap_rights :: flint_rights
  cap_badge :: flint_badge
  cap_object :: flint_word
  cap_parent :: flint_cptr

record flint_cnode =
  slots :: "flint_cap list"

text \<open>A CNode is named by its address, a slot by its CNode and its index there.\<close>

type_synonym cnode_ref = nat
type_synonym slot_ref = "cnode_ref \<times> nat"
type_synonym cspace = "cnode_ref \<Rightarrow> flint_cnode"

definition slot :: "cspace \<Rightarrow> slot_ref \<Rightarrow> flint_cap" where
  "slot cs p = slots (cs (fst p)) ! snd p"

definition set_slot :: "slot_ref \<Rightarrow> (flint_cap \<Rightarrow> flint_cap) \<Rightarrow> cspace \<Rightarrow> cspace" where
  "set_slot p f cs =
    cs (fst p := (cs (fst p))\<lparr>slots := (slots (cs (fst p)))[snd p := f (slot cs p)]\<rparr>)"

section \<open>Operations\<close>

definition cap_clear :: "flint_cap \<Rightarrow> flint_cap" where
  "cap_clear cap = cap\<lparr>cap_type := FLINT_CAP_NULL, cap_rights := 0, cap_badge := 0, cap_object := 0,
     cap_parent := FLINT_CAP_NO_PARENT\<rparr>"

definition flint_cnode_init :: "cnode_ref \<Rightarrow> cspace \<Rightarrow> cspace" where
  "flint_cnode_init cn cs = fold (\<lambda>i. set_slot (cn, i) cap_clear) [0..<FLINT_CFG_CNODE_SLOTS] cs"

definition flint_cap_type_is_badged :: "flint_cap_type \<Rightarrow> bool" where
  "flint_cap_type_is_badged t \<longleftrightarrow> t = FLINT_CAP_ENDPOINT \<or> t = FLINT_CAP_NOTIFICATION"

text \<open>A lookup writes the slot pointer only when the index is in range.\<close>

definition flint_cnode_lookup ::
  "cnode_ref \<Rightarrow> flint_cptr \<Rightarrow> slot_ref option \<Rightarrow> flint_status \<times> slot_ref option" where
  "flint_cnode_lookup cn cptr out =
    (if cptr \<ge> of_nat FLINT_CFG_CNODE_SLOTS then (FLINT_ERR_CAP_INVALID, out)
     else (FLINT_OK, Some (cn, unat cptr)))"

definition flint_cnode_install :: "cnode_ref \<Rightarrow> flint_cptr \<Rightarrow> flint_cap \<Rightarrow> cspace \<Rightarrow> flint_status \<times> cspace" where
  "flint_cnode_install cn sl cap cs =
    (case flint_cnode_lookup cn sl None of
       (FLINT_OK, Some dst) \<Rightarrow>
         if cap_type (slot cs dst) \<noteq> FLINT_CAP_NULL then (FLINT_ERR_EXISTS, cs)
         else (FLINT_OK, set_slot dst (\<lambda>_. cap) cs)
     | (st, _) \<Rightarrow> (st, cs))"

definition derive_check ::
  "cnode_ref \<Rightarrow> flint_cptr \<Rightarrow> cnode_ref \<Rightarrow> flint_cptr \<Rightarrow> cspace \<Rightarrow>
     flint_status \<times> slot_ref option \<times> slot_ref option" where
  "derive_check dst_cn dst src_cn src cs =
    (let (st, out_src) = flint_cnode_lookup src_cn src None;
         (st, out_dst) = (if st = FLINT_OK then flint_cnode_lookup dst_cn dst None else (st, None));
         st = (if st = FLINT_OK then
                 if cap_type (slot cs (the out_src)) = FLINT_CAP_NULL then FLINT_ERR_EMPTY
                 else if cap_type (slot cs (the out_dst)) \<noteq> FLINT_CAP_NULL then FLINT_ERR_EXISTS
                 else FLINT_OK
               else st)
     in (st, out_dst, out_src))"

text \<open>
  The derivation operations write the destination field by field, reading the source again for
  each field.
\<close>

definition flint_cnode_copy ::
  "cnode_ref \<Rightarrow> flint_cptr \<Rightarrow> cnode_ref \<Rightarrow> flint_cptr \<Rightarrow> flint_rights \<Rightarrow> cspace \<Rightarrow> flint_status \<times> cspace" where
  "flint_cnode_copy dst_cn dst src_cn src rights_mask cs =
    (case derive_check dst_cn dst src_cn src cs of
       (FLINT_OK, Some pd, Some ps) \<Rightarrow>
         (let cs = set_slot pd (\<lambda>c. c\<lparr>cap_type := cap_type (slot cs ps)\<rparr>) cs;
              cs = set_slot pd (\<lambda>c. c\<lparr>cap_object := cap_object (slot cs ps)\<rparr>) cs;
              cs = set_slot pd (\<lambda>c. c\<lparr>cap_badge := cap_badge (slot cs ps)\<rparr>) cs;
              cs = set_slot pd (\<lambda>c. c\<lparr>cap_rights :=
                     cap_rights (slot cs ps) AND rights_mask AND FLINT_RIGHT_ALL\<rparr>) cs;
              cs = set_slot pd (\<lambda>c. c\<lparr>cap_parent := src\<rparr>) cs
          in (FLINT_OK, cs))
     | (st, _) \<Rightarrow> (st, cs))"

definition flint_cnode_mint ::
  "cnode_ref \<Rightarrow> flint_cptr \<Rightarrow> cnode_ref \<Rightarrow> flint_cptr \<Rightarrow> flint_rights \<Rightarrow> flint_badge \<Rightarrow> cspace \<Rightarrow>
     flint_status \<times> cspace" where
  "flint_cnode_mint dst_cn dst src_cn src rights_mask badge cs =
    (case derive_check dst_cn dst src_cn src cs of
       (FLINT_OK, Some pd, Some ps) \<Rightarrow>
         if \<not> flint_cap_type_is_badged (cap_type (slot cs ps)) then (FLINT_ERR_CAP_TYPE, cs)
         else if cap_badge (slot cs ps) \<noteq> 0 then (FLINT_ERR_STATE, cs)
         else
           (let cs = set_slot pd (\<lambda>c. c\<lparr>cap_type := cap_type (slot cs ps)\<rparr>) cs;
                cs = set_slot pd (\<lambda>c. c\<lparr>cap_object := cap_object (slot cs ps)\<rparr>) cs;
                cs = set_slot pd (\<lambda>c. c\<lparr>cap_badge := badge\<rparr>) cs;
                cs = set_slot pd (\<lambda>c. c\<lparr>cap_rights :=
                       cap_rights (slot cs ps) AND rights_mask AND FLINT_RIGHT_ALL\<rparr>) cs;
                cs = set_slot pd (\<lambda>c. c\<lparr>cap_parent := src\<rparr>) cs
            in (FLINT_OK, cs))
     | (st, _) \<Rightarrow> (st, cs))"

definition flint_cnode_move ::
  "cnode_ref \<Rightarrow> flint_cptr \<Rightarrow> cnode_ref \<Rightarrow> flint_cptr \<Rightarrow> cspace \<Rightarrow> flint_status \<times> cspace" where
  "flint_cnode_move dst_cn dst src_cn src cs =
    (case derive_check dst_cn dst src_cn src cs of
       (FLINT_OK, Some pd, Some ps) \<Rightarrow>
         (FLINT_OK, set_slot ps cap_clear (set_slot pd (\<lambda>_. slot cs ps) cs))
     | (st, _) \<Rightarrow> (st, cs))"

definition flint_cnode_delete :: "cnode_ref \<Rightarrow> flint_cptr \<Rightarrow> cspace \<Rightarrow> flint_status \<times> cspace" where
  "flint_cnode_delete cn sl cs =
    (case flint_cnode_lookup cn sl None of
       (FLINT_OK, Some p) \<Rightarrow>
         if cap_type (slot cs p) = FLINT_CAP_NULL then (FLINT_ERR_EMPTY, cs)
         else (FLINT_OK, set_slot p cap_clear cs)
     | (st, _) \<Rightarrow> (st, cs))"

section \<open>Calls and runs\<close>

text \<open>
  The calls a client can make on a running system; installing a capability is reserved to the
  boot object-graph builder.
\<close>

datatype cap_call =
    Copy cnode_ref flint_cptr cnode_ref flint_cptr flint_rights
  | Mint cnode_ref flint_cptr cnode_ref flint_cptr flint_rights flint_badge
  | Move cnode_ref flint_cptr cnode_ref flint_cptr
  | Delete cnode_ref flint_cptr

fun cap_exec :: "cap_call \<Rightarrow> cspace \<Rightarrow> flint_status \<times> cspace" where
  "cap_exec (Copy d dst s src r) cs = flint_cnode_copy d dst s src r cs"
| "cap_exec (Mint d dst s src r b) cs = flint_cnode_mint d dst s src r b cs"
| "cap_exec (Move d dst s src) cs = flint_cnode_move d dst s src cs"
| "cap_exec (Delete c sl) cs = flint_cnode_delete c sl cs"

definition cap_step :: "cspace \<Rightarrow> cspace \<Rightarrow> bool" where
  "cap_step cs cs' \<longleftrightarrow> (\<exists>c. cs' = snd (cap_exec c cs))"

primrec cap_run :: "cap_call list \<Rightarrow> cspace \<Rightarrow> cspace" where
  "cap_run [] cs = cs"
| "cap_run (c # calls) cs = cap_run calls (snd (cap_exec c cs))"

section \<open>Well-formed capability spaces\<close>

definition null_cap :: flint_cap where
  "null_cap = \<lparr>cap_type = FLINT_CAP_NULL, cap_rights = 0, cap_badge = 0, cap_object = 0,
     cap_parent = FLINT_CAP_NO_PARENT\<rparr>"

text \<open>A capability as the kernel keeps it: known rights only, a badge only on a badged type, and an empty slot cleared.\<close>

definition cap_ok :: "flint_cap \<Rightarrow> bool" where
  "cap_ok c \<longleftrightarrow> cap_rights c AND NOT FLINT_RIGHT_ALL = 0 \<and>
     (cap_badge c \<noteq> 0 \<longrightarrow> flint_cap_type_is_badged (cap_type c)) \<and>
     (cap_type c = FLINT_CAP_NULL \<longrightarrow> c = null_cap)"

definition cspace_ok :: "cspace \<Rightarrow> bool" where
  "cspace_ok cs \<longleftrightarrow> (\<forall>cn. length (slots (cs cn)) = FLINT_CFG_CNODE_SLOTS \<and> (\<forall>c \<in> set (slots (cs cn)). cap_ok c))"

text \<open>
  The capabilities a client holds, and when one carries no authority beyond another: the same
  object, no further right, and a badge that is the parent's unless the parent had none.
\<close>

definition held :: "cspace \<Rightarrow> flint_cap set" where
  "held cs = {slot cs (cn, i) | cn i. i < FLINT_CFG_CNODE_SLOTS \<and> cap_type (slot cs (cn, i)) \<noteq> FLINT_CAP_NULL}"

definition cap_le :: "flint_cap \<Rightarrow> flint_cap \<Rightarrow> bool" where
  "cap_le c p \<longleftrightarrow> cap_type c = cap_type p \<and> cap_object c = cap_object p \<and>
     cap_rights c AND NOT (cap_rights p) = 0 \<and> (cap_badge p \<noteq> 0 \<longrightarrow> cap_badge c = cap_badge p)"

section \<open>Slots\<close>

lemma cap_clear_null [simp]: "cap_clear c = null_cap"
  by (cases c) (simp add: cap_clear_def null_cap_def)

lemma null_cap_type [simp]: "cap_type null_cap = FLINT_CAP_NULL"
  by (simp add: null_cap_def)

lemma null_cap_ok [simp]: "cap_ok null_cap"
  by (simp add: cap_ok_def null_cap_def)

lemma length_set_slot [simp]: "length (slots (set_slot p f cs cn)) = length (slots (cs cn))"
  by (simp add: set_slot_def)

lemma slot_set_slot:
  "snd p < length (slots (cs (fst p))) \<Longrightarrow>
     slot (set_slot p f cs) q = (if q = p then f (slot cs p) else slot cs q)"
  by (cases p, cases q) (auto simp: set_slot_def slot_def)

lemma set_slot_twice:
  "snd p < length (slots (cs (fst p))) \<Longrightarrow> set_slot p f (set_slot p g cs) = set_slot p (f \<circ> g) cs"
  by (simp add: set_slot_def slot_def)

lemma set_slot_cong: "f (slot cs p) = g (slot cs p) \<Longrightarrow> set_slot p f cs = set_slot p g cs"
  by (simp add: set_slot_def)

lemma cspace_eqI:
  assumes "\<And>cn. length (slots (cs cn)) = length (slots (cs' cn))"
    and "\<And>cn i. i < length (slots (cs cn)) \<Longrightarrow> slot cs (cn, i) = slot cs' (cn, i)"
  shows "cs = cs'"
proof
  fix cn
  have "slots (cs cn) = slots (cs' cn)"
    using assms by (auto intro!: nth_equalityI simp: slot_def)
  then show "cs cn = cs' cn" by (cases "cs cn", cases "cs' cn") simp
qed

lemma cspace_ok_length [simp]: "cspace_ok cs \<Longrightarrow> length (slots (cs cn)) = 64"
  by (simp add: cspace_ok_def FLINT_CFG_CNODE_SLOTS_def)

lemma cspace_ok_iff:
  "cspace_ok cs \<longleftrightarrow> (\<forall>cn. length (slots (cs cn)) = 64) \<and> (\<forall>cn i. i < 64 \<longrightarrow> cap_ok (slot cs (cn, i)))"
  unfolding cspace_ok_def FLINT_CFG_CNODE_SLOTS_def slot_def all_set_conv_all_nth fst_conv snd_conv
  by (simp cong: conj_cong) blast

lemma cspace_okI:
  "(\<And>cn. length (slots (cs cn)) = 64) \<Longrightarrow> (\<And>cn i. i < 64 \<Longrightarrow> cap_ok (slot cs (cn, i))) \<Longrightarrow> cspace_ok cs"
  unfolding cspace_ok_iff by blast

lemma cspace_okD: "cspace_ok cs \<Longrightarrow> i < 64 \<Longrightarrow> cap_ok (slot cs (cn, i))"
  unfolding cspace_ok_iff by blast

lemma cspace_ok_set_slot:
  "cspace_ok cs \<Longrightarrow> snd p < 64 \<Longrightarrow> cap_ok (f (slot cs p)) \<Longrightarrow> cspace_ok (set_slot p f cs)"
  by (rule cspace_okI) (auto simp: slot_set_slot cspace_okD)

section \<open>What the operations do\<close>

lemma lookup_eq:
  "flint_cnode_lookup cn cptr out =
     (if unat cptr < 64 then (FLINT_OK, Some (cn, unat cptr)) else (FLINT_ERR_CAP_INVALID, out))"
  by (auto simp: flint_cnode_lookup_def FLINT_CFG_CNODE_SLOTS_def word_le_nat_alt not_le)

definition derive_status :: "cnode_ref \<Rightarrow> flint_cptr \<Rightarrow> cnode_ref \<Rightarrow> flint_cptr \<Rightarrow> cspace \<Rightarrow> flint_status" where
  "derive_status dst_cn dst src_cn src cs =
    (if 64 \<le> unat src \<or> 64 \<le> unat dst then FLINT_ERR_CAP_INVALID
     else if cap_type (slot cs (src_cn, unat src)) = FLINT_CAP_NULL then FLINT_ERR_EMPTY
     else if cap_type (slot cs (dst_cn, unat dst)) \<noteq> FLINT_CAP_NULL then FLINT_ERR_EXISTS
     else FLINT_OK)"

lemma derive_check_status: "fst (derive_check d dst s src cs) = derive_status d dst s src cs"
  by (simp add: derive_check_def lookup_eq derive_status_def)

lemma derive_check_ok:
  "derive_status d dst s src cs = FLINT_OK \<Longrightarrow>
     derive_check d dst s src cs = (FLINT_OK, Some (d, unat dst), Some (s, unat src))"
  by (auto simp: derive_check_def lookup_eq derive_status_def split: if_splits)

lemma derive_status_ok:
  "derive_status d dst s src cs = FLINT_OK \<longleftrightarrow> unat src < 64 \<and> unat dst < 64 \<and>
     cap_type (slot cs (s, unat src)) \<noteq> FLINT_CAP_NULL \<and> cap_type (slot cs (d, unat dst)) = FLINT_CAP_NULL"
  by (auto simp: derive_status_def)

text \<open>The capability a derivation writes.\<close>

definition derived :: "flint_cap \<Rightarrow> flint_rights \<Rightarrow> flint_badge \<Rightarrow> flint_cptr \<Rightarrow> flint_cap" where
  "derived p m b src = \<lparr>cap_type = cap_type p, cap_rights = cap_rights p AND m AND FLINT_RIGHT_ALL,
     cap_badge = b, cap_object = cap_object p, cap_parent = src\<rparr>"

lemma derive_distinct:
  "derive_status d dst s src cs = FLINT_OK \<Longrightarrow> (s, unat src) \<noteq> (d, unat dst)"
  by (auto simp: derive_status_ok)

lemma derive_writes:
  assumes "snd pd < length (slots (cs (fst pd)))"
  shows "set_slot pd (\<lambda>c. c\<lparr>cap_parent := src\<rparr>) (set_slot pd (\<lambda>c. c\<lparr>cap_rights := r\<rparr>)
     (set_slot pd (\<lambda>c. c\<lparr>cap_badge := b\<rparr>) (set_slot pd (\<lambda>c. c\<lparr>cap_object := obj\<rparr>)
     (set_slot pd (\<lambda>c. c\<lparr>cap_type := t\<rparr>) cs)))) =
   set_slot pd (\<lambda>_. \<lparr>cap_type = t, cap_rights = r, cap_badge = b, cap_object = obj, cap_parent = src\<rparr>) cs"
  using assms by (simp add: set_slot_twice) (rule set_slot_cong, simp)

lemma copy_eq:
  assumes "cspace_ok cs"
  shows "flint_cnode_copy d dst s src m cs =
    (derive_status d dst s src cs,
     if derive_status d dst s src cs = FLINT_OK
     then set_slot (d, unat dst) (\<lambda>_. derived (slot cs (s, unat src)) m (cap_badge (slot cs (s, unat src))) src) cs
     else cs)"
proof (cases "derive_status d dst s src cs = FLINT_OK")
  case True
  then have "unat dst < 64" and ne: "(s, unat src) \<noteq> (d, unat dst)"
    using derive_distinct by (auto simp: derive_status_ok)
  then have "snd (d, unat dst) < length (slots (cs (fst (d, unat dst))))" using assms by simp
  with True ne assms show ?thesis
    unfolding flint_cnode_copy_def derive_check_ok [OF True]
    by (simp add: slot_set_slot derive_writes derived_def del: prod.inject)
next
  case False
  obtain x where "derive_check d dst s src cs = (derive_status d dst s src cs, x)"
    by (metis derive_check_status prod.collapse)
  with False show ?thesis
    by (cases "derive_status d dst s src cs") (auto simp: flint_cnode_copy_def)
qed

definition mint_status :: "cnode_ref \<Rightarrow> flint_cptr \<Rightarrow> cnode_ref \<Rightarrow> flint_cptr \<Rightarrow> cspace \<Rightarrow> flint_status" where
  "mint_status d dst s src cs =
    (if derive_status d dst s src cs \<noteq> FLINT_OK then derive_status d dst s src cs
     else if \<not> flint_cap_type_is_badged (cap_type (slot cs (s, unat src))) then FLINT_ERR_CAP_TYPE
     else if cap_badge (slot cs (s, unat src)) \<noteq> 0 then FLINT_ERR_STATE else FLINT_OK)"

lemma mint_eq:
  assumes "cspace_ok cs"
  shows "flint_cnode_mint d dst s src m b cs =
    (mint_status d dst s src cs,
     if mint_status d dst s src cs = FLINT_OK
     then set_slot (d, unat dst) (\<lambda>_. derived (slot cs (s, unat src)) m b src) cs else cs)"
proof (cases "derive_status d dst s src cs = FLINT_OK")
  case True
  then have "unat dst < 64" and ne: "(s, unat src) \<noteq> (d, unat dst)"
    using derive_distinct by (auto simp: derive_status_ok)
  then have "snd (d, unat dst) < length (slots (cs (fst (d, unat dst))))" using assms by simp
  with True ne assms show ?thesis
    unfolding flint_cnode_mint_def derive_check_ok [OF True]
    by (simp add: slot_set_slot derive_writes derived_def mint_status_def
        del: prod.inject)
next
  case False
  obtain x where "derive_check d dst s src cs = (derive_status d dst s src cs, x)"
    by (metis derive_check_status prod.collapse)
  with False show ?thesis
    by (cases "derive_status d dst s src cs") (auto simp: flint_cnode_mint_def mint_status_def)
qed

lemma move_eq:
  "flint_cnode_move d dst s src cs =
    (derive_status d dst s src cs,
     if derive_status d dst s src cs = FLINT_OK
     then set_slot (s, unat src) cap_clear (set_slot (d, unat dst) (\<lambda>_. slot cs (s, unat src)) cs)
     else cs)"
proof (cases "derive_status d dst s src cs = FLINT_OK")
  case True
  then show ?thesis by (simp add: flint_cnode_move_def derive_check_ok)
next
  case False
  obtain x where "derive_check d dst s src cs = (derive_status d dst s src cs, x)"
    by (metis derive_check_status prod.collapse)
  with False show ?thesis
    by (cases "derive_status d dst s src cs") (auto simp: flint_cnode_move_def)
qed

lemma delete_eq:
  "flint_cnode_delete cn sl cs =
    (if 64 \<le> unat sl then (FLINT_ERR_CAP_INVALID, cs)
     else if cap_type (slot cs (cn, unat sl)) = FLINT_CAP_NULL then (FLINT_ERR_EMPTY, cs)
     else (FLINT_OK, set_slot (cn, unat sl) cap_clear cs))"
  by (simp add: flint_cnode_delete_def lookup_eq)

lemma install_eq:
  "flint_cnode_install cn sl cap cs =
    (if 64 \<le> unat sl then (FLINT_ERR_CAP_INVALID, cs)
     else if cap_type (slot cs (cn, unat sl)) \<noteq> FLINT_CAP_NULL then (FLINT_ERR_EXISTS, cs)
     else (FLINT_OK, set_slot (cn, unat sl) (\<lambda>_. cap) cs))"
  by (simp add: flint_cnode_install_def lookup_eq)

section \<open>The invariant\<close>

lemma derived_ok: "cap_ok p \<Longrightarrow> b = 0 \<or> flint_cap_type_is_badged (cap_type p) \<Longrightarrow>
    cap_type p \<noteq> FLINT_CAP_NULL \<Longrightarrow> cap_ok (derived p m b src)"
  by (auto simp: cap_ok_def derived_def and.assoc)

lemma cap_exec_ok: "cspace_ok cs \<Longrightarrow> cspace_ok (snd (cap_exec c cs))"
proof (cases c)
  case (Copy d dst s src r)
  assume ok: "cspace_ok cs"
  then have "cspace_ok (set_slot (d, unat dst)
      (\<lambda>_. derived (slot cs (s, unat src)) r (cap_badge (slot cs (s, unat src))) src) cs)"
    if "derive_status d dst s src cs = FLINT_OK"
    using that cspace_okD [OF ok, of "unat src" s]
    by (intro cspace_ok_set_slot derived_ok) (auto simp: derive_status_ok cap_ok_def)
  with ok Copy show ?thesis by (simp add: copy_eq)
next
  case (Mint d dst s src r b)
  assume ok: "cspace_ok cs"
  then have "cspace_ok (set_slot (d, unat dst) (\<lambda>_. derived (slot cs (s, unat src)) r b src) cs)"
    if "mint_status d dst s src cs = FLINT_OK"
    using that cspace_okD [OF ok, of "unat src" s]
    by (intro cspace_ok_set_slot derived_ok) (auto simp: mint_status_def derive_status_ok split: if_splits)
  with ok Mint show ?thesis by (simp add: mint_eq)
next
  case (Move d dst s src)
  assume ok: "cspace_ok cs"
  then show ?thesis
    using Move cspace_okD [OF ok, of "unat src" s]
    by (auto simp: move_eq derive_status_ok intro!: cspace_ok_set_slot)
next
  case (Delete cn sl)
  assume "cspace_ok cs"
  then show ?thesis
    using Delete by (auto simp: delete_eq intro!: cspace_ok_set_slot)
qed

interpretation cspace_sys: safe_system cspace_ok cap_step cspace_ok
  by unfold_locales (auto simp: cap_step_def cap_exec_ok)

lemma cap_run_steps: "cap_step\<^sup>*\<^sup>* cs (cap_run calls cs)"
proof (induction calls arbitrary: cs)
  case (Cons c calls)
  have "cap_step cs (snd (cap_exec c cs))" by (auto simp: cap_step_def)
  then show ?case using Cons [of "snd (cap_exec c cs)"] by (simp add: converse_rtranclp_into_rtranclp)
qed simp

section \<open>Authority\<close>

lemma cap_le_refl [simp]: "cap_le c c"
  by (simp add: cap_le_def)

lemma cap_le_trans: "cap_le a b \<Longrightarrow> cap_le b c \<Longrightarrow> cap_le a c"
proof -
  assume *: "cap_le a b" "cap_le b c"
  have "cap_rights a AND NOT (cap_rights c) = 0"
  proof (rule bit_word_eqI)
    fix n
    assume n: "n < LENGTH(8)"
    have "\<not> (bit (cap_rights a) n \<and> \<not> bit (cap_rights b) n)" "\<not> (bit (cap_rights b) n \<and> \<not> bit (cap_rights c) n)"
      using * n by (auto simp: cap_le_def bit_eq_iff bit_simps)
    then show "bit (cap_rights a AND NOT (cap_rights c)) n = bit 0 n"
      using n by (auto simp: bit_simps)
  qed
  with * show ?thesis by (auto simp: cap_le_def)
qed

lemma derived_le: "b = cap_badge p \<or> cap_badge p = 0 \<Longrightarrow> cap_le (derived p m b src) p"
  by (auto simp: cap_le_def derived_def intro!: bit_word_eqI simp: bit_simps)

lemma held_slot: "i < 64 \<Longrightarrow> cap_type (slot cs (cn, i)) \<noteq> FLINT_CAP_NULL \<Longrightarrow> slot cs (cn, i) \<in> held cs"
  by (auto simp: held_def FLINT_CFG_CNODE_SLOTS_def)

lemma held_set_slot:
  "cspace_ok cs \<Longrightarrow> i < 64 \<Longrightarrow> c \<in> held (set_slot (cn, i) f cs) \<Longrightarrow>
     c \<in> held cs \<or> c = f (slot cs (cn, i)) \<and> cap_type c \<noteq> FLINT_CAP_NULL"
  by (auto simp: held_def slot_set_slot FLINT_CFG_CNODE_SLOTS_def split: if_splits)

text \<open>What every call does to the capabilities held: nothing beyond an earlier one.\<close>

definition authority_le :: "cspace \<Rightarrow> cspace \<Rightarrow> bool" where
  "authority_le cs' cs \<longleftrightarrow> (\<forall>c \<in> held cs'. \<exists>p \<in> held cs. cap_le c p)"

lemma authority_le_trans: "authority_le c b \<Longrightarrow> authority_le b a \<Longrightarrow> authority_le c a"
  unfolding authority_le_def by (meson cap_le_trans)

lemma authority_le_refl [simp]: "authority_le cs cs"
  unfolding authority_le_def using cap_le_refl by blast

lemma authority_set_slot:
  assumes "cspace_ok cs" "i < 64" "j < 64"
    and "cap_type (slot cs (s, j)) \<noteq> FLINT_CAP_NULL" "cap_le (f (slot cs (cn, i))) (slot cs (s, j))"
  shows "authority_le (set_slot (cn, i) f cs) cs"
  unfolding authority_le_def using held_set_slot [OF assms(1,2)] held_slot [OF assms(3,4)] assms(5) cap_le_refl
  by blast

lemma authority_clear: "cspace_ok cs \<Longrightarrow> i < 64 \<Longrightarrow> authority_le (set_slot (cn, i) cap_clear cs) cs"
  unfolding authority_le_def using held_set_slot cap_le_refl by (metis cap_clear_null null_cap_type)

lemma cap_exec_authority: "cspace_ok cs \<Longrightarrow> authority_le (snd (cap_exec c cs)) cs"
proof (cases c)
  case (Copy d dst s src r)
  assume "cspace_ok cs"
  then show ?thesis
    using Copy by (auto simp: copy_eq derive_status_ok intro!: authority_set_slot derived_le)
next
  case (Mint d dst s src r b)
  assume "cspace_ok cs"
  then show ?thesis
    using Mint by (auto simp: mint_eq mint_status_def derive_status_ok split: if_splits
        intro!: authority_set_slot [where s = s and j = "unat src"] derived_le)
next
  case (Move d dst s src)
  assume ok: "cspace_ok cs"
  show ?thesis
  proof (cases "derive_status d dst s src cs = FLINT_OK")
    case True
    then have lt: "unat src < 64" "unat dst < 64" and ne: "cap_type (slot cs (s, unat src)) \<noteq> FLINT_CAP_NULL"
      by (auto simp: derive_status_ok)
    let ?cs = "set_slot (d, unat dst) (\<lambda>_. slot cs (s, unat src)) cs"
    have "cspace_ok ?cs" using ok lt by (auto intro!: cspace_ok_set_slot cspace_okD)
    then have "authority_le (set_slot (s, unat src) cap_clear ?cs) ?cs" using lt(1) by (rule authority_clear)
    moreover have "authority_le ?cs cs" using ok lt ne by (auto intro: authority_set_slot)
    ultimately show ?thesis using Move True by (simp add: move_eq authority_le_trans)
  qed (use Move in \<open>simp add: move_eq\<close>)
next
  case (Delete cn sl)
  assume "cspace_ok cs"
  then show ?thesis
    using Delete by (auto simp: delete_eq intro!: authority_clear [simplified])
qed

interpretation cap_authority: safe_system "\<lambda>cs. cs = cs0 \<and> cspace_ok cs" cap_step
  "\<lambda>cs. cspace_ok cs \<and> authority_le cs cs0" for cs0
  by unfold_locales (auto simp: cap_step_def cap_exec_ok intro: cap_exec_authority authority_le_trans)

section \<open>Properties\<close>

text \<open>
  C2: no amplification.  After any sequence of copy, mint, move and delete calls, with any
  arguments and whatever their statuses, every capability a slot holds is bounded by one that was
  held before the sequence: the same object type and object, no right the earlier one lacked, and
  the same badge unless the earlier one was unbadged.
\<close>

theorem cap_no_amplification:
  assumes "cspace_ok cs" and "c \<in> held (cap_run calls cs)"
  shows "\<exists>p \<in> held cs. cap_le c p"
  using cap_authority.steps_inv [OF cap_run_steps, of cs cs calls] assms
  by (auto simp: authority_le_def)

text \<open>A booted space to evaluate the calls on: one unbadged endpoint with read and write rights.\<close>

definition sample_ep :: flint_cap where
  "sample_ep = \<lparr>cap_type = FLINT_CAP_ENDPOINT, cap_rights = 3, cap_badge = 0, cap_object = 7,
     cap_parent = FLINT_CAP_NO_PARENT\<rparr>"

definition sample_cs :: cspace where
  "sample_cs = set_slot (0, 5) (\<lambda>_. sample_ep) (\<lambda>_. \<lparr>slots = replicate 64 null_cap\<rparr>)"

lemma sample_cs_ok: "cspace_ok sample_cs"
  unfolding sample_cs_def
  by (rule cspace_ok_set_slot)
    (simp_all add: cspace_ok_def FLINT_CFG_CNODE_SLOTS_def sample_ep_def cap_ok_def FLINT_RIGHT_ALL_def
      flint_cap_type_is_badged_def null_cap_def)

lemma sample_slot: "slot sample_cs q = (if q = (0, 5) then sample_ep else replicate 64 null_cap ! snd q)"
  by (simp add: sample_cs_def slot_set_slot) (simp add: slot_def)

lemma sample_status: "derive_status 0 9 0 5 sample_cs = FLINT_OK" "mint_status 0 9 0 5 sample_cs = FLINT_OK"
  by (simp_all add: derive_status_def mint_status_def sample_slot sample_ep_def flint_cap_type_is_badged_def)

theorem cap_no_amplification_witness:
  "cspace_ok sample_cs \<and> derived sample_ep 1 42 5 \<in> held (cap_run [Mint 0 9 0 5 1 42] sample_cs) \<and>
   (\<exists>p \<in> held sample_cs. cap_le (derived sample_ep 1 42 5) p)"
proof -
  have "slot (cap_run [Mint 0 9 0 5 1 42] sample_cs) (0, 9) = derived sample_ep 1 42 5"
    using sample_cs_ok by (simp add: mint_eq sample_status slot_set_slot) (simp add: sample_slot)
  then have "derived sample_ep 1 42 5 \<in> held (cap_run [Mint 0 9 0 5 1 42] sample_cs)"
    using held_slot [of 9 "cap_run [Mint 0 9 0 5 1 42] sample_cs" 0] by (simp add: derived_def sample_ep_def)
  with sample_cs_ok cap_no_amplification [OF sample_cs_ok this] show ?thesis by blast
qed

text \<open>
  C11: the invariant of capability spaces.  Every run of calls keeps every CNode at 64 slots,
  every rights set within the four defined rights, a badge only on endpoints and notifications, and
  every empty slot fully cleared.
\<close>

theorem cap_run_invariant: "cspace_ok cs \<Longrightarrow> cspace_ok (cap_run calls cs)"
  by (rule cspace_sys.steps_inv [OF cap_run_steps])

theorem cap_run_invariant_witness:
  "cspace_ok sample_cs \<and> cspace_ok (cap_run [Mint 0 9 0 5 1 42, Delete 0 5] sample_cs)"
  using sample_cs_ok cap_run_invariant [OF sample_cs_ok] by blast



lemma move_slot:
  assumes "cspace_ok cs" "derive_status d dst s src cs = FLINT_OK"
  shows "slot (snd (flint_cnode_move d dst s src cs)) q =
    (if q = (s, unat src) then null_cap else if q = (d, unat dst) then slot cs (s, unat src) else slot cs q)"
  using assms derive_distinct [OF assms(2)] by (auto simp: move_eq slot_set_slot derive_status_ok)

lemma move_length [simp]:
  "length (slots (snd (flint_cnode_move d dst s src cs) cn)) = length (slots (cs cn))"
  by (simp add: move_eq)

lemma move_back_status:
  assumes "cspace_ok cs" "derive_status d dst s src cs = FLINT_OK"
  shows "derive_status s src d dst (snd (flint_cnode_move d dst s src cs)) = FLINT_OK"
  using assms derive_distinct [OF assms(2)] by (auto simp: derive_status_ok move_slot)

text \<open>
  C17: moving is lossless.  A successful move empties the source slot, puts the very capability
  in the destination slot and touches no other slot, and moving it back restores the space exactly.
\<close>

theorem cap_move_roundtrip:
  assumes ok: "cspace_ok cs" and mv: "flint_cnode_move d dst s src cs = (FLINT_OK, cs')"
  shows "slot cs' (s, unat src) = null_cap \<and> slot cs' (d, unat dst) = slot cs (s, unat src) \<and>
    (\<forall>q. q \<noteq> (s, unat src) \<and> q \<noteq> (d, unat dst) \<longrightarrow> slot cs' q = slot cs q) \<and>
    flint_cnode_move s src d dst cs' = (FLINT_OK, cs)"
proof -
  have st: "derive_status d dst s src cs = FLINT_OK" and cs': "cs' = snd (flint_cnode_move d dst s src cs)"
    using mv by (auto simp: move_eq split: if_splits)
  have bk: "derive_status s src d dst cs' = FLINT_OK"
    unfolding cs' by (rule move_back_status [OF ok st])
  have ok': "cspace_ok cs'"
    using cap_exec_ok [OF ok, of "Move d dst s src"] by (simp add: cs')
  have null: "slot cs (d, unat dst) = null_cap"
    using cspace_okD [OF ok, of "unat dst" d] st by (auto simp: derive_status_ok cap_ok_def)
  have "snd (flint_cnode_move s src d dst cs') = cs"
  proof (rule cspace_eqI)
    fix cn i
    show "slot (snd (flint_cnode_move s src d dst cs')) (cn, i) = slot cs (cn, i)"
      using derive_distinct [OF st] null
      unfolding move_slot [OF ok' bk] unfolding cs' move_slot [OF ok st] by auto
  qed (simp add: cs')
  moreover have "fst (flint_cnode_move s src d dst cs') = FLINT_OK"
    using bk by (simp add: move_eq)
  ultimately show ?thesis
    using derive_distinct [OF st] by (auto simp: cs' move_slot [OF ok st] prod_eq_iff)
qed

lemma fold_clear:
  "length (slots (cs cn)) = 64 \<Longrightarrow> distinct is \<Longrightarrow> (\<forall>i \<in> set is. i < 64) \<Longrightarrow>
     (\<forall>q. slot (fold (\<lambda>i. set_slot (cn, i) cap_clear) is cs) q =
        (if fst q = cn \<and> snd q \<in> set is then null_cap else slot cs q)) \<and>
     (\<forall>c. length (slots (fold (\<lambda>i. set_slot (cn, i) cap_clear) is cs c)) = length (slots (cs c)))"
  by (induction "is" arbitrary: cs) (auto simp: slot_set_slot split: if_splits)

theorem cap_move_roundtrip_witness:
  "cspace_ok sample_cs \<and> fst (flint_cnode_move 0 9 0 5 sample_cs) = FLINT_OK \<and>
   slot (snd (flint_cnode_move 0 9 0 5 sample_cs)) (0, 9) = sample_ep \<and>
   flint_cnode_move 0 5 0 9 (snd (flint_cnode_move 0 9 0 5 sample_cs)) = (FLINT_OK, sample_cs)"
proof -
  have "flint_cnode_move 0 9 0 5 sample_cs = (FLINT_OK, snd (flint_cnode_move 0 9 0 5 sample_cs))"
    using sample_status by (simp add: move_eq)
  from cap_move_roundtrip [OF sample_cs_ok this] show ?thesis
    using sample_cs_ok sample_status by (simp add: sample_slot) (simp add: move_eq)
qed

text \<open>
  Initialisation.  After initialising a CNode all its 64 slots are cleared, so it holds
  no capability, every other CNode is untouched, and a well-formed space stays well-formed.
\<close>

theorem cnode_init_clears:
  assumes "cspace_ok cs"
  shows "(\<forall>i < 64. slot (flint_cnode_init cn cs) (cn, i) = null_cap) \<and>
    (\<forall>q. fst q \<noteq> cn \<longrightarrow> slot (flint_cnode_init cn cs) q = slot cs q) \<and>
    cspace_ok (flint_cnode_init cn cs)"
  using fold_clear [of cs cn "[0..<64]"] assms
  by (auto simp: flint_cnode_init_def FLINT_CFG_CNODE_SLOTS_def cspace_ok_iff)

theorem cnode_init_clears_witness:
  "cspace_ok sample_cs \<and> slot sample_cs (0, 5) = sample_ep \<and>
   slot (flint_cnode_init 0 sample_cs) (0, 5) = null_cap"
  using sample_cs_ok cnode_init_clears [OF sample_cs_ok, of 0] by (simp add: sample_slot)

end
