(* ===== verification/Prio_Bitmap.thy ===== *)
theory Prio_Bitmap
  imports Flint_Types
begin

text \<open>
  The two-level priority bitmap (\<^verbatim>\<open>kernel/prio_bitmap.c\<close>): a summary word over eight level-1
  words.  The bitmap represents a set of priorities below 256; the lemmas show that every
  operation implements the operation on that set, and that the branch-only search for the highest
  set bit is exact.
\<close>

section \<open>Data and operations\<close>

definition FLINT_PRIO_WORDS :: nat where
  "FLINT_PRIO_WORDS = FLINT_CFG_PRIO_COUNT div FLINT_WORD_BITS"

record flint_prio_bitmap =
  summary :: flint_word
  level1 :: "flint_word list"

definition word_highest_bit :: "flint_word \<Rightarrow> u8" where
  "word_highest_bit w =
    (let pos = 0;
         (pos, w) = (if w AND 0xFFFF0000 \<noteq> 0 then (pos + 16, drop_bit 16 w) else (pos, w));
         (pos, w) = (if w AND 0x0000FF00 \<noteq> 0 then (pos + 8, drop_bit 8 w) else (pos, w));
         (pos, w) = (if w AND 0x000000F0 \<noteq> 0 then (pos + 4, drop_bit 4 w) else (pos, w));
         (pos, w) = (if w AND 0x0000000C \<noteq> 0 then (pos + 2, drop_bit 2 w) else (pos, w))
     in if w AND 0x00000002 \<noteq> 0 then pos + 1 else pos)"

definition flint_prio_bitmap_init :: "flint_prio_bitmap \<Rightarrow> flint_prio_bitmap" where
  "flint_prio_bitmap_init bm =
    fold (\<lambda>i bm. bm\<lparr>level1 := (level1 bm)[i := 0]\<rparr>) [0..<FLINT_PRIO_WORDS] (bm\<lparr>summary := 0\<rparr>)"

text \<open>A priority whose level-1 word is not in the array has no defined result.\<close>

definition flint_prio_bitmap_set :: "flint_prio \<Rightarrow> flint_prio_bitmap \<Rightarrow> flint_prio_bitmap ub" where
  "flint_prio_bitmap_set prio bm =
    (let wd = unat prio div FLINT_WORD_BITS; b = unat prio mod FLINT_WORD_BITS
     in if wd < length (level1 bm) then
          Some (bm\<lparr>level1 := (level1 bm)[wd := level1 bm ! wd OR push_bit b 1],
                   summary := summary bm OR push_bit wd 1\<rparr>)
        else None)"

definition flint_prio_bitmap_clear :: "flint_prio \<Rightarrow> flint_prio_bitmap \<Rightarrow> flint_prio_bitmap ub" where
  "flint_prio_bitmap_clear prio bm =
    (let wd = unat prio div FLINT_WORD_BITS; b = unat prio mod FLINT_WORD_BITS
     in if wd < length (level1 bm) then
          (let bm = bm\<lparr>level1 := (level1 bm)[wd := level1 bm ! wd AND NOT (push_bit b 1)]\<rparr>
           in Some (if level1 bm ! wd = 0 then bm\<lparr>summary := summary bm AND NOT (push_bit wd 1)\<rparr> else bm))
        else None)"

definition flint_prio_bitmap_empty :: "flint_prio_bitmap \<Rightarrow> bool" where
  "flint_prio_bitmap_empty bm \<longleftrightarrow> summary bm = 0"

definition flint_prio_bitmap_highest :: "flint_prio_bitmap \<Rightarrow> flint_prio ub" where
  "flint_prio_bitmap_highest bm =
    (let top_word = unat (word_highest_bit (summary bm))
     in if top_word < length (level1 bm) then
          Some (of_nat (top_word * FLINT_WORD_BITS + unat (word_highest_bit (level1 bm ! top_word))))
        else None)"

section \<open>The highest set bit\<close>

text \<open>Bit \<^term>\<open>n\<close> is the highest set bit of a word.\<close>

definition top_bit :: "flint_word \<Rightarrow> nat \<Rightarrow> bool" where
  "top_bit w n \<longleftrightarrow> bit w n \<and> (\<forall>m > n. \<not> bit w m)"

lemma bit_u32_less: "bit (w :: u32) n \<Longrightarrow> n < 32"
  using bit_imp_le_length [of w n] by simp

lemma nonzero_bit: "(w :: u32) \<noteq> 0 \<Longrightarrow> \<exists>n. bit w n"
  by (auto simp: bit_eq_iff)

lemma top_bit_le: "top_bit w n \<Longrightarrow> bit w m \<Longrightarrow> m \<le> n"
  unfolding top_bit_def by (rule leI) blast

lemma low_bits: "take_bit k (w :: u32) = w \<Longrightarrow> bit w n \<Longrightarrow> n < k"
  by (metis bit_take_bit_iff)

definition search_shift :: "nat \<Rightarrow> flint_word \<Rightarrow> nat" where
  "search_shift a w = (if w AND push_bit a (mask a) \<noteq> 0 then a else 0)"

text \<open>One step of the search: the upper half of the remaining bits is kept if it is not zero.\<close>

lemma search_step:
  assumes "take_bit (a + a) w = w" and "w \<noteq> 0" and "d = search_shift a w"
  shows "take_bit a (drop_bit d w) = drop_bit d w" and "drop_bit d w \<noteq> 0"
    and "top_bit (drop_bit d w) n \<Longrightarrow> top_bit w (d + n)"
proof -
  have d: "d = (if w AND push_bit a (mask a) \<noteq> 0 then a else 0)" using assms(3) by (simp add: search_shift_def)
  note low = low_bits [OF assms(1)]
  have test: "w AND push_bit a (mask a) \<noteq> 0 \<longleftrightarrow> (\<exists>n \<ge> a. bit w n)"
  proof
    assume "w AND push_bit a (mask a) \<noteq> 0"
    then obtain n where "bit (w AND push_bit a (mask a)) n" using nonzero_bit by blast
    then show "\<exists>n \<ge> a. bit w n" by (auto simp: bit_simps)
  next
    assume "\<exists>n \<ge> a. bit w n"
    then obtain n where n: "n \<ge> a" "bit w n" by blast
    then have "bit (w AND push_bit a (mask a)) n" using low [of n] bit_u32_less [of w n] by (auto simp: bit_simps)
    then show "w AND push_bit a (mask a) \<noteq> 0" by auto
  qed
  show "take_bit a (drop_bit d w) = drop_bit d w"
  proof (rule bit_word_eqI)
    fix n
    have "d + n < a + d" if "bit w (d + n)"
    proof (cases "w AND push_bit a (mask a) = 0")
      case True
      then have "d = 0" "\<not> a \<le> d + n" using test d that by auto
      then show ?thesis by simp
    next
      case False
      then show ?thesis using low [OF that] d by simp
    qed
    then show "bit (take_bit a (drop_bit d w)) n = bit (drop_bit d w) n" by (auto simp: bit_simps)
  qed
  show "drop_bit d w \<noteq> 0"
  proof (cases "\<exists>n \<ge> a. bit w n")
    case True
    then obtain n where "a \<le> n" "bit w n" by blast
    then have "bit (drop_bit a w) (n - a)" by (simp add: bit_simps)
    then show ?thesis using True test d by auto
  next
    case False
    then show ?thesis using assms(2) d test by auto
  qed
  show "top_bit w (d + n)" if top: "top_bit (drop_bit d w) n"
    unfolding top_bit_def
  proof (intro conjI allI impI)
    show "bit w (d + n)" using top by (simp add: top_bit_def bit_drop_bit_eq)
    fix m
    assume "m > d + n"
    then have "m - d > n" "d + (m - d) = m" by auto
    with top show "\<not> bit w m" by (metis top_bit_def bit_drop_bit_eq comp_apply)
  qed
qed

lemma search_last:
  assumes "take_bit 2 w = w" and "w \<noteq> 0"
  shows "top_bit w (if w AND 2 \<noteq> 0 then 1 else 0)"
proof -
  have 2: "w AND 2 \<noteq> 0 \<longleftrightarrow> bit w 1"
    using and_exp_eq_0_iff_not_bit [of w 1] by simp
  have lt: "n = 0 \<or> n = 1" if "bit w n" for n using low_bits [OF assms(1) that] by auto
  obtain n where "bit w n" using nonzero_bit [OF assms(2)] by blast
  then show ?thesis using lt 2 unfolding top_bit_def by (cases "bit w 1") force+
qed

lemma search_masks:
  "(0xFFFF0000 :: u32) = push_bit 16 (mask 16)" "(0xFF00 :: u32) = push_bit 8 (mask 8)"
  "(0xF0 :: u32) = push_bit 4 (mask 4)" "(0xC :: u32) = push_bit 2 (mask 2)"
  by (simp_all add: mask_eq_exp_minus_1 push_bit_eq_mult)

lemma search_pair:
  "of_nat a = k \<Longrightarrow> (if w AND push_bit a (mask a) \<noteq> 0 then (pos + k, drop_bit a w) else (pos, w)) =
     (pos + of_nat (search_shift a w), drop_bit (search_shift a w) w)"
  by (auto simp: search_shift_def)

lemma word_highest_bit_top:
  assumes "w \<noteq> 0"
  shows "top_bit w (unat (word_highest_bit w))" and "unat (word_highest_bit w) < 32"
proof -
  define d1 where "d1 = search_shift 16 w"
  define w1 where "w1 = drop_bit d1 w"
  define d2 where "d2 = search_shift 8 w1"
  define w2 where "w2 = drop_bit d2 w1"
  define d3 where "d3 = search_shift 4 w2"
  define w3 where "w3 = drop_bit d3 w2"
  define d4 where "d4 = search_shift 2 w3"
  define w4 where "w4 = drop_bit d4 w3"
  define d5 where "d5 = (if w4 AND 2 \<noteq> 0 then 1 else 0 :: nat)"
  have "take_bit (16 + 16) w = w" by (simp add: take_bit_word_eq_self)
  note s1 = search_step [OF this assms d1_def, folded w1_def]
  note s2 = search_step [of 8, simplified, OF s1(1,2) d2_def, folded w2_def]
  note s3 = search_step [of 4, simplified, OF s2(1,2) d3_def, folded w3_def]
  note s4 = search_step [of 2, simplified, OF s3(1,2) d4_def, folded w4_def]
  have "top_bit w4 d5" unfolding d5_def by (rule search_last [OF s4(1,2)])
  then have top: "top_bit w (d1 + (d2 + (d3 + (d4 + d5))))" by (intro s1(3) s2(3) s3(3) s4(3))
  have "word_highest_bit w = of_nat d1 + of_nat d2 + of_nat d3 + of_nat d4 + of_nat d5"
    unfolding word_highest_bit_def search_masks Let_def
    by (simp only: search_pair [of 16 16, simplified] search_pair [of 8 8, simplified]
        search_pair [of 4 4, simplified] search_pair [of 2 2, simplified] prod.case
        d1_def [symmetric] w1_def [symmetric] d2_def [symmetric] w2_def [symmetric]
        d3_def [symmetric] w3_def [symmetric] d4_def [symmetric] w4_def [symmetric])
      (simp add: d5_def add.assoc)
  then have eq: "word_highest_bit w = of_nat (d1 + (d2 + (d3 + (d4 + d5))))" by (simp add: add.assoc)
  have lt: "d1 + (d2 + (d3 + (d4 + d5))) < 32"
    by (simp add: d1_def d2_def d3_def d4_def d5_def search_shift_def)
  then have "unat (word_highest_bit w) = d1 + (d2 + (d3 + (d4 + d5)))"
    unfolding eq by (simp add: unat_of_nat del: of_nat_add)
  with top lt show "top_bit w (unat (word_highest_bit w))" "unat (word_highest_bit w) < 32"
    by (simp_all only:)
qed

section \<open>The represented set\<close>

definition bitmap_ok :: "flint_prio_bitmap \<Rightarrow> bool" where
  "bitmap_ok bm \<longleftrightarrow> length (level1 bm) = 8 \<and> (\<forall>w. bit (summary bm) w \<longleftrightarrow> w < 8 \<and> level1 bm ! w \<noteq> 0)"

definition prios :: "flint_prio_bitmap \<Rightarrow> nat set" where
  "prios bm = {p. p < 256 \<and> bit (level1 bm ! (p div 32)) (p mod 32)}"

lemma prio_index: "p < 256 \<Longrightarrow> p div 32 < (8::nat)"
  by simp

lemma prios_nonempty: "bitmap_ok bm \<Longrightarrow> prios bm = {} \<longleftrightarrow> summary bm = 0"
proof
  assume ok: "bitmap_ok bm" and e: "prios bm = {}"
  show "summary bm = 0"
  proof (rule ccontr)
    assume "summary bm \<noteq> 0"
    then obtain w where w: "w < 8" "level1 bm ! w \<noteq> 0" using nonzero_bit ok unfolding bitmap_ok_def by blast
    then obtain b where b: "bit (level1 bm ! w) b" using nonzero_bit by blast
    then have "w * 32 + b \<in> prios bm" using w bit_u32_less [OF b] by (simp add: prios_def)
    with e show False by blast
  qed
next
  assume ok: "bitmap_ok bm" and z: "summary bm = 0"
  then have "level1 bm ! w = 0" if "w < 8" for w using that by (auto simp: bitmap_ok_def)
  then show "prios bm = {}" by (auto simp: prios_def)
qed

lemma prio_pair: "(p div 32 = q div 32 \<and> p mod 32 = q mod 32) \<longleftrightarrow> p = (q :: nat)"
  by (metis div_mult_mod_eq)

lemma bit_single: "b < 32 \<Longrightarrow> bit (push_bit b 1 :: u32) m \<longleftrightarrow> m = b"
  by (auto simp: bit_simps)

lemma bit_update_or:
  "w < length l \<Longrightarrow> b < 32 \<Longrightarrow>
     bit ((l[w := l ! w OR push_bit b 1]) ! v) m \<longleftrightarrow> bit (l ! v :: u32) m \<or> v = w \<and> m = b"
  by (auto simp only: nth_list_update bit_or_iff bit_single split: if_splits)

lemma bit_update_and_not:
  "w < length l \<Longrightarrow> b < 32 \<Longrightarrow>
     bit ((l[w := l ! w AND NOT (push_bit b 1)]) ! v) m \<longleftrightarrow> bit (l ! v :: u32) m \<and> \<not> (v = w \<and> m = b)"
  using bit_u32_less [of "l ! v" m]
  by (auto simp only: nth_list_update bit_and_iff bit_not_iff bit_single possible_bit_def split: if_splits) simp_all

lemma bitmap_set_ok:
  assumes ok: "bitmap_ok bm" and p: "unat prio < 256"
  shows "\<exists>bm'. flint_prio_bitmap_set prio bm = Some bm' \<and> bitmap_ok bm' \<and> prios bm' = insert (unat prio) (prios bm)"
proof -
  let ?w = "unat prio div 32" and ?b = "unat prio mod 32"
  let ?bm = "bm\<lparr>level1 := (level1 bm)[?w := level1 bm ! ?w OR push_bit ?b 1], summary := summary bm OR push_bit ?w 1\<rparr>"
  have w: "?w < 8" using p by simp
  have len: "length (level1 bm) = 8" using ok by (simp add: bitmap_ok_def)
  have nz: "level1 bm ! ?w OR push_bit ?b 1 \<noteq> 0"
    by (metis bit_single bit_or_iff mod_less_divisor zero_less_numeral bit_0_eq bot_apply bot_bool_def)
  have "flint_prio_bitmap_set prio bm = Some ?bm"
    using w len unfolding flint_prio_bitmap_set_def Let_def FLINT_WORD_BITS_def by simp
  moreover have "bitmap_ok ?bm"
    using ok w nz len by (auto simp: bitmap_ok_def bit_or_iff bit_single nth_list_update
        simp del: push_bit_of_1 split: if_splits)
  moreover have "prios ?bm = insert (unat prio) (prios bm)"
    using p by (auto simp: prios_def bit_update_or w len prio_pair simp del: push_bit_of_1)
  ultimately show ?thesis by blast
qed

lemma bitmap_clear_ok:
  assumes ok: "bitmap_ok bm" and p: "unat prio < 256"
  shows "\<exists>bm'. flint_prio_bitmap_clear prio bm = Some bm' \<and> bitmap_ok bm' \<and> prios bm' = prios bm - {unat prio}"
proof -
  let ?w = "unat prio div 32" and ?b = "unat prio mod 32"
  let ?l = "(level1 bm)[?w := level1 bm ! ?w AND NOT (push_bit ?b 1)]"
  define bm' where "bm' = (if ?l ! ?w = 0 then bm\<lparr>level1 := ?l, summary := summary bm AND NOT (push_bit ?w 1)\<rparr> else bm\<lparr>level1 := ?l\<rparr>)"
  have w: "?w < 8" using p by simp
  have len: "length (level1 bm) = 8" using ok by (simp add: bitmap_ok_def)
  have "flint_prio_bitmap_clear prio bm = Some bm'"
    using w len unfolding flint_prio_bitmap_clear_def Let_def FLINT_WORD_BITS_def bm'_def by simp
  moreover have l: "level1 bm' = ?l" by (simp add: bm'_def)
  moreover have "bit (summary bm') v \<longleftrightarrow> v < 8 \<and> ?l ! v \<noteq> 0" for v
  proof (cases "v = ?w")
    case True
    then have "bit (summary bm') v \<longleftrightarrow> bit (summary bm) v \<and> ?l ! ?w \<noteq> 0"
      using w by (auto simp: bm'_def bit_and_iff bit_not_iff bit_single simp del: push_bit_of_1)
    moreover have "?l ! ?w \<noteq> 0 \<Longrightarrow> level1 bm ! ?w \<noteq> 0" using w len by auto
    ultimately show ?thesis using ok True w unfolding bitmap_ok_def by blast
  next
    case False
    then have "bit (summary bm') v \<longleftrightarrow> bit (summary bm) v"
      using w bit_u32_less [of "summary bm" v]
      by (auto simp: bm'_def bit_and_iff bit_not_iff bit_single possible_bit_def simp del: push_bit_of_1)
    moreover have "?l ! v = level1 bm ! v" using False by simp
    ultimately show ?thesis using ok unfolding bitmap_ok_def by simp
  qed
  then have "bitmap_ok bm'" using len l by (simp add: bitmap_ok_def)
  moreover have "prios bm' = prios bm - {unat prio}"
    using p by (auto simp: prios_def l bit_update_and_not w len prio_pair simp del: push_bit_of_1)
  ultimately show ?thesis by blast
qed

lemma bitmap_highest_max:
  assumes ok: "bitmap_ok bm" and ne: "summary bm \<noteq> 0"
  shows "flint_prio_bitmap_highest bm = Some (of_nat (Max (prios bm))) \<and> Max (prios bm) < 256"
proof -
  define w where "w = unat (word_highest_bit (summary bm))"
  have tw: "top_bit (summary bm) w" unfolding w_def by (rule word_highest_bit_top [OF ne])
  then have w: "w < 8" "level1 bm ! w \<noteq> 0" using ok by (auto simp: top_bit_def bitmap_ok_def)
  define b where "b = unat (word_highest_bit (level1 bm ! w))"
  have tb: "top_bit (level1 bm ! w) b" "b < 32" unfolding b_def by (rule word_highest_bit_top [OF w(2)])+
  have top: "p \<le> w * 32 + b" if "p \<in> prios bm" for p
  proof -
    have p: "bit (level1 bm ! (p div 32)) (p mod 32)" "p div 32 < 8" using that by (auto simp: prios_def)
    then have "level1 bm ! (p div 32) \<noteq> 0" by auto
    then have "bit (summary bm) (p div 32)" using p ok by (auto simp: bitmap_ok_def)
    then have le: "p div 32 \<le> w" by (rule top_bit_le [OF tw])
    show ?thesis
    proof (cases "p div 32 = w")
      case True
      then have "p mod 32 \<le> b" using p top_bit_le [OF tb(1)] by simp
      then show ?thesis using True div_mult_mod_eq [of p 32] by simp
    next
      case False
      with le have "p div 32 + 1 \<le> w" by simp
      then have "(p div 32 + 1) * 32 \<le> w * 32" by simp
      then show ?thesis using div_mult_mod_eq [of p 32] mod_less_divisor [of 32 p] by simp
    qed
  qed
  have "w * 32 + b \<in> prios bm" using w tb by (auto simp: prios_def top_bit_def)
  then have "Max (prios bm) = w * 32 + b" by (intro Max_eqI top) (auto simp: prios_def)
  then show ?thesis
    using w tb ok by (simp add: flint_prio_bitmap_highest_def bitmap_ok_def FLINT_WORD_BITS_def Let_def w_def b_def)
qed

lemma fold_zero: "set is \<subseteq> {..<length xs} \<Longrightarrow>
    fold (\<lambda>i bm. bm\<lparr>level1 := (level1 bm)[i := 0]\<rparr>) is (bm\<lparr>level1 := xs\<rparr>) =
    bm\<lparr>level1 := map (\<lambda>i. if i \<in> set is then 0 else xs ! i) [0..<length xs]\<rparr>"
proof (induction "is" arbitrary: xs)
  case (Cons i "is")
  have "fold (\<lambda>i bm. bm\<lparr>level1 := (level1 bm)[i := 0]\<rparr>) is (bm\<lparr>level1 := xs[i := 0]\<rparr>) =
    bm\<lparr>level1 := map (\<lambda>j. if j \<in> set is then 0 else xs[i := 0] ! j) [0..<length xs]\<rparr>"
    using Cons.prems Cons.IH [of "xs[i := 0]"] by simp
  moreover have "map (\<lambda>j. if j \<in> set is then 0 else xs[i := 0] ! j) [0..<length xs] =
    map (\<lambda>j. if j \<in> set (i # is) then 0 else xs ! j) [0..<length xs]"
    by (rule map_cong) (auto simp: nth_list_update)
  ultimately show ?case by simp
qed (simp add: map_nth)

lemma bitmap_init_eq:
  assumes "length (level1 bm) = 8"
  shows "flint_prio_bitmap_init bm = bm\<lparr>summary := 0, level1 := replicate 8 0\<rparr>"
proof -
  have "map (\<lambda>i. if i \<in> set [0..<8] then 0 else level1 bm ! i) [0..<8] = replicate 8 (0 :: u32)"
    by code_simp
  moreover have "(bm\<lparr>summary := 0\<rparr>)\<lparr>level1 := level1 bm\<rparr> = bm\<lparr>summary := 0\<rparr>" by simp
  ultimately show ?thesis
    using fold_zero [of "[0..<8]" "level1 bm" "bm\<lparr>summary := 0\<rparr>"] assms
    by (simp add: flint_prio_bitmap_init_def FLINT_PRIO_WORDS_def FLINT_CFG_PRIO_COUNT_def FLINT_WORD_BITS_def
        atLeast0LessThan)
qed

section \<open>Properties\<close>

text \<open>
  C19: the bitmap implements a set of priorities.  On a well-formed bitmap, for a priority below
  256, setting and clearing are defined, keep the summary word exact and implement insertion and
  removal; emptiness of the summary is emptiness of the set; and initialising eight words of any
  content gives the empty set.
\<close>

theorem prio_bitmap_refines_set:
  assumes "bitmap_ok bm" and "unat prio < 256"
  shows "(\<exists>bm'. flint_prio_bitmap_set prio bm = Some bm' \<and> bitmap_ok bm' \<and>
            prios bm' = insert (unat prio) (prios bm)) \<and>
    (\<exists>bm'. flint_prio_bitmap_clear prio bm = Some bm' \<and> bitmap_ok bm' \<and> prios bm' = prios bm - {unat prio}) \<and>
    (flint_prio_bitmap_empty bm \<longleftrightarrow> prios bm = {}) \<and>
    bitmap_ok (flint_prio_bitmap_init bm) \<and> prios (flint_prio_bitmap_init bm) = {}"
  using bitmap_set_ok [OF assms] bitmap_clear_ok [OF assms] prios_nonempty [OF assms(1)] assms(1)
    bitmap_init_eq [of bm]
  by (auto simp: flint_prio_bitmap_empty_def bitmap_ok_def prios_def)

definition sample_bitmap :: flint_prio_bitmap where
  "sample_bitmap = \<lparr>summary = 0, level1 = replicate 8 0\<rparr>"

lemma sample_bitmap_ok: "bitmap_ok sample_bitmap"
  by (auto simp: bitmap_ok_def sample_bitmap_def)

theorem prio_bitmap_refines_set_witness:
  "bitmap_ok sample_bitmap \<and> unat (200 :: flint_prio) < 256 \<and>
   (\<exists>bm'. flint_prio_bitmap_set 200 sample_bitmap = Some bm' \<and> bitmap_ok bm' \<and> 200 \<in> prios bm')"
  using sample_bitmap_ok prio_bitmap_refines_set [OF sample_bitmap_ok, of 200] by auto

text \<open>
  C18: selection is exact.  On a non-empty well-formed bitmap the two-level, branch-only search
  is defined and returns the greatest priority of the set.
\<close>

theorem prio_bitmap_highest_is_max:
  assumes "bitmap_ok bm" and "\<not> flint_prio_bitmap_empty bm"
  shows "\<exists>p. flint_prio_bitmap_highest bm = Some p \<and> unat p \<in> prios bm \<and> (\<forall>q \<in> prios bm. q \<le> unat p)"
proof -
  have fin: "finite (prios bm)" by (simp add: prios_def)
  have ne: "summary bm \<noteq> 0" using assms(2) by (simp add: flint_prio_bitmap_empty_def)
  then have "prios bm \<noteq> {}" using prios_nonempty [OF assms(1)] by simp
  moreover have "flint_prio_bitmap_highest bm = Some (of_nat (Max (prios bm)))" "Max (prios bm) < 256"
    using bitmap_highest_max [OF assms(1) ne] by auto
  moreover from this have "unat (of_nat (Max (prios bm)) :: flint_prio) = Max (prios bm)"
    by (simp add: unat_of_nat)
  ultimately show ?thesis using Max_in [OF fin] Max_ge [OF fin] by simp
qed

theorem prio_bitmap_highest_is_max_witness:
  "\<exists>bm. flint_prio_bitmap_set 200 sample_bitmap = Some bm \<and> bitmap_ok bm \<and> \<not> flint_prio_bitmap_empty bm \<and>
     flint_prio_bitmap_highest bm = Some 200 \<and> (\<forall>q \<in> prios bm. q \<le> 200)"
proof -
  obtain bm where bm: "flint_prio_bitmap_set 200 sample_bitmap = Some bm" "bitmap_ok bm"
    using bitmap_set_ok [OF sample_bitmap_ok, of 200] by auto
  have "case flint_prio_bitmap_set 200 sample_bitmap of None \<Rightarrow> False
    | Some bm \<Rightarrow> \<not> flint_prio_bitmap_empty bm \<and> flint_prio_bitmap_highest bm = Some 200"
    by code_simp
  with bm have h: "\<not> flint_prio_bitmap_empty bm" "flint_prio_bitmap_highest bm = Some 200" by simp_all
  with bm prio_bitmap_highest_is_max [OF bm(2) h(1)] show ?thesis by auto
qed

end
