(* ===== verification/List_Mgmt.thy ===== *)
theory List_Mgmt
  imports Flint_Prelude
begin

text \<open>
  The ordered doubly-linked lists of \<^verbatim>\<open>kernel/list.c\<close> and the accessor macros of
  \<^verbatim>\<open>include/FlintRTOS/list.h\<close>.  The store has one function per structure field, from the nodes (the
  items and the end markers of the lists) to the field's value, so that the pointer updates are
  the ones of the code.  The lemmas show that the circular doubly-linked structure represents a
  finite sequence of items with a cursor, and that every operation implements the operation on
  sequences, for this list and with every other list untouched.
\<close>

section \<open>The store\<close>

text \<open>A \<^verbatim>\<open>ListItem_t *\<close> points at an item or, after the cast in the code, at a list's end marker.\<close>

datatype ('i, 'l) node = Item 'i | End 'l

record ('i, 'l, 'o) list_store =
  xItemValue :: "('i, 'l) node \<Rightarrow> u32"
  pxNext :: "('i, 'l) node \<Rightarrow> ('i, 'l) node option"
  pxPrevious :: "('i, 'l) node \<Rightarrow> ('i, 'l) node option"
  pvOwner :: "'i \<Rightarrow> 'o option"
  pxContainer :: "'i \<Rightarrow> 'l option"
  uxNumberOfItems :: "'l \<Rightarrow> u64"
  pxIndex :: "'l \<Rightarrow> ('i, 'l) node option"

abbreviation set_next ::
  "('i, 'l) node \<Rightarrow> ('i, 'l) node option \<Rightarrow> ('i, 'l, 'o) list_store \<Rightarrow> ('i, 'l, 'o) list_store" where
  "set_next n v s \<equiv> s\<lparr>pxNext := (pxNext s)(n := v)\<rparr>"

abbreviation set_prev ::
  "('i, 'l) node \<Rightarrow> ('i, 'l) node option \<Rightarrow> ('i, 'l, 'o) list_store \<Rightarrow> ('i, 'l, 'o) list_store" where
  "set_prev n v s \<equiv> s\<lparr>pxPrevious := (pxPrevious s)(n := v)\<rparr>"

definition portMAX_DELAY :: u32 where
  "portMAX_DELAY = 0xFFFFFFFF"

section \<open>Operations\<close>

definition vListInitialise :: "'l \<Rightarrow> ('i, 'l, 'o) list_store \<Rightarrow> ('i, 'l, 'o) list_store" where
  "vListInitialise l s = s\<lparr>
     pxIndex := (pxIndex s)(l := Some (End l)),
     xItemValue := (xItemValue s)(End l := portMAX_DELAY),
     pxNext := (pxNext s)(End l := Some (End l)),
     pxPrevious := (pxPrevious s)(End l := Some (End l)),
     uxNumberOfItems := (uxNumberOfItems s)(l := 0)\<rparr>"

definition vListInitialiseItem :: "'i \<Rightarrow> ('i, 'l, 'o) list_store \<Rightarrow> ('i, 'l, 'o) list_store" where
  "vListInitialiseItem i s = s\<lparr>
     pxContainer := (pxContainer s)(i := None),
     pvOwner := (pvOwner s)(i := None),
     pxNext := (pxNext s)(Item i := None),
     pxPrevious := (pxPrevious s)(Item i := None),
     xItemValue := (xItemValue s)(Item i := 0)\<rparr>"

definition vListInsertEnd :: "'l \<Rightarrow> 'i \<Rightarrow> ('i, 'l, 'o) list_store \<Rightarrow> ('i, 'l, 'o) list_store ub" where
  "vListInsertEnd l i s = do {
     idx \<leftarrow> pxIndex s l;
     let s = set_next (Item i) (Some idx) s;
     let s = set_prev (Item i) (pxPrevious s idx) s;
     prev \<leftarrow> pxPrevious s idx;
     let s = set_next prev (Some (Item i)) s;
     let s = set_prev idx (Some (Item i)) s;
     let s = s\<lparr>pxContainer := (pxContainer s)(i := Some l)\<rparr>;
     Some (s\<lparr>uxNumberOfItems := (uxNumberOfItems s)(l := uxNumberOfItems s l + 1)\<rparr>)
   }"

text \<open>The walk to the insertion position, a loop that only ends because the end marker sorts last.\<close>

partial_function (option) insert_walk ::
  "('i, 'l, 'o) list_store \<Rightarrow> u32 \<Rightarrow> ('i, 'l) node \<Rightarrow> ('i, 'l) node option" where
  "insert_walk s v it =
     (case pxNext s it of
        None \<Rightarrow> None
      | Some n \<Rightarrow> if xItemValue s n \<le> v then insert_walk s v n else Some it)"

definition vListInsert :: "'l \<Rightarrow> 'i \<Rightarrow> ('i, 'l, 'o) list_store \<Rightarrow> ('i, 'l, 'o) list_store ub" where
  "vListInsert l i s = do {
     let v = xItemValue s (Item i);
     it \<leftarrow> (if v = portMAX_DELAY then pxPrevious s (End l) else insert_walk s v (End l));
     let s = set_next (Item i) (pxNext s it) s;
     nx \<leftarrow> pxNext s (Item i);
     let s = set_prev nx (Some (Item i)) s;
     let s = set_prev (Item i) (Some it) s;
     let s = set_next it (Some (Item i)) s;
     let s = s\<lparr>pxContainer := (pxContainer s)(i := Some l)\<rparr>;
     Some (s\<lparr>uxNumberOfItems := (uxNumberOfItems s)(l := uxNumberOfItems s l + 1)\<rparr>)
   }"

definition uxListRemove :: "'i \<Rightarrow> ('i, 'l, 'o) list_store \<Rightarrow> (u64 \<times> ('i, 'l, 'o) list_store) ub" where
  "uxListRemove i s = do {
     l \<leftarrow> pxContainer s i;
     nx \<leftarrow> pxNext s (Item i);
     let s = set_prev nx (pxPrevious s (Item i)) s;
     pv \<leftarrow> pxPrevious s (Item i);
     let s = set_next pv (pxNext s (Item i)) s;
     let s = (if pxIndex s l = Some (Item i)
              then s\<lparr>pxIndex := (pxIndex s)(l := pxPrevious s (Item i))\<rparr> else s);
     let s = s\<lparr>pxContainer := (pxContainer s)(i := None)\<rparr>;
     let s = s\<lparr>uxNumberOfItems := (uxNumberOfItems s)(l := uxNumberOfItems s l - 1)\<rparr>;
     Some (uxNumberOfItems s l, s)
   }"

section \<open>Accessor macros\<close>

definition listSET_LIST_ITEM_OWNER :: "'i \<Rightarrow> 'o \<Rightarrow> ('i, 'l, 'o) list_store \<Rightarrow> ('i, 'l, 'o) list_store" where
  "listSET_LIST_ITEM_OWNER i ow s = s\<lparr>pvOwner := (pvOwner s)(i := Some ow)\<rparr>"

definition listSET_LIST_ITEM_VALUE :: "'i \<Rightarrow> u32 \<Rightarrow> ('i, 'l, 'o) list_store \<Rightarrow> ('i, 'l, 'o) list_store" where
  "listSET_LIST_ITEM_VALUE i v s = s\<lparr>xItemValue := (xItemValue s)(Item i := v)\<rparr>"

definition listGET_LIST_ITEM_VALUE :: "'i \<Rightarrow> ('i, 'l, 'o) list_store \<Rightarrow> u32" where
  "listGET_LIST_ITEM_VALUE i s = xItemValue s (Item i)"

definition listGET_HEAD_ENTRY :: "'l \<Rightarrow> ('i, 'l, 'o) list_store \<Rightarrow> ('i, 'l) node option" where
  "listGET_HEAD_ENTRY l s = pxNext s (End l)"

definition listGET_ITEM_VALUE_OF_HEAD_ENTRY :: "'l \<Rightarrow> ('i, 'l, 'o) list_store \<Rightarrow> u32 ub" where
  "listGET_ITEM_VALUE_OF_HEAD_ENTRY l s = map_option (xItemValue s) (pxNext s (End l))"

definition listGET_NEXT :: "('i, 'l) node \<Rightarrow> ('i, 'l, 'o) list_store \<Rightarrow> ('i, 'l) node option" where
  "listGET_NEXT n s = pxNext s n"

definition listLIST_IS_EMPTY :: "'l \<Rightarrow> ('i, 'l, 'o) list_store \<Rightarrow> bool" where
  "listLIST_IS_EMPTY l s \<longleftrightarrow> uxNumberOfItems s l = 0"

definition listCURRENT_LIST_LENGTH :: "'l \<Rightarrow> ('i, 'l, 'o) list_store \<Rightarrow> u64" where
  "listCURRENT_LIST_LENGTH l s = uxNumberOfItems s l"

definition listGET_LIST_ITEM_CONTAINER :: "'i \<Rightarrow> ('i, 'l, 'o) list_store \<Rightarrow> 'l option" where
  "listGET_LIST_ITEM_CONTAINER i s = pxContainer s i"

definition listIS_CONTAINED_WITHIN :: "'l \<Rightarrow> 'i \<Rightarrow> ('i, 'l, 'o) list_store \<Rightarrow> bool" where
  "listIS_CONTAINED_WITHIN l i s \<longleftrightarrow> pxContainer s i = Some l"

text \<open>
  The owner of a node: an end marker is a mini item without that field, so reading it is
  undefined, as is reading through a null pointer.
\<close>

fun node_owner :: "('i, 'l, 'o) list_store \<Rightarrow> ('i, 'l) node \<Rightarrow> 'o option ub" where
  "node_owner s (Item i) = Some (pvOwner s i)"
| "node_owner s (End l) = None"

definition listGET_OWNER_OF_NEXT_ENTRY ::
  "'l \<Rightarrow> ('i, 'l, 'o) list_store \<Rightarrow> ('o option \<times> ('i, 'l, 'o) list_store) ub" where
  "listGET_OWNER_OF_NEXT_ENTRY l s = do {
     idx \<leftarrow> pxIndex s l;
     let s = s\<lparr>pxIndex := (pxIndex s)(l := pxNext s idx)\<rparr>;
     let s = (if pxIndex s l = Some (End l)
              then s\<lparr>pxIndex := (pxIndex s)(l := pxNext s (End l))\<rparr> else s);
     idx \<leftarrow> pxIndex s l;
     ow \<leftarrow> node_owner s idx;
     Some (ow, s)
   }"

section \<open>Linked nodes\<close>

text \<open>Consecutive nodes of a sequence point at each other.\<close>

fun linked :: "('i, 'l, 'o) list_store \<Rightarrow> ('i, 'l) node list \<Rightarrow> bool" where
  "linked s (a # b # ns) \<longleftrightarrow> pxNext s a = Some b \<and> pxPrevious s b = Some a \<and> linked s (b # ns)"
| "linked s _ \<longleftrightarrow> True"

text \<open>A list is a ring through its end marker.\<close>

definition ring :: "('i, 'l, 'o) list_store \<Rightarrow> 'l \<Rightarrow> 'i list \<Rightarrow> bool" where
  "ring s l xs \<longleftrightarrow> linked s (End l # map Item xs @ [End l])"

lemma linked_append:
  "linked s (us @ a # b # vs) \<longleftrightarrow>
     linked s (us @ [a]) \<and> pxNext s a = Some b \<and> pxPrevious s b = Some a \<and> linked s (b # vs)"
proof (induction us)
  case (Cons u us)
  then show ?case by (cases us) auto
qed simp

lemma linked_frame:
  assumes "linked s ns" and "\<And>n. n \<in> set (butlast ns) \<Longrightarrow> pxNext s' n = pxNext s n"
    and "\<And>n. n \<in> set (tl ns) \<Longrightarrow> pxPrevious s' n = pxPrevious s n"
  shows "linked s' ns"
  using assms by (induction s ns rule: linked.induct) auto

lemma linked_insert:
  assumes "linked s (us @ a # b # vs)"
    and "a \<notin> set us" "a \<notin> set (butlast (b # vs))" "b \<notin> set vs" "b \<notin> set (tl (us @ [a]))"
    and "x \<notin> set (us @ a # b # vs)"
    and "pxNext s' = (pxNext s)(a := Some x, x := Some b)"
    and "pxPrevious s' = (pxPrevious s)(x := Some a, b := Some x)"
  shows "linked s' (us @ a # x # b # vs)"
proof -
  have "linked s (us @ [a])" "linked s (b # vs)" using assms(1) by (simp_all add: linked_append)
  moreover have "x \<notin> set (tl (us @ [a]))" using assms(6) by (cases us) auto
  moreover have "x \<notin> set (butlast (b # vs))" using assms(6) by (auto dest!: in_set_butlastD)
  ultimately have "linked s' (us @ [a])" "linked s' (b # vs)"
    using assms by (auto elim!: linked_frame)
  moreover have "x \<noteq> a" "x \<noteq> b" using assms(6) by auto
  ultimately show ?thesis using assms(7,8) by (simp add: linked_append)
qed

lemma linked_remove:
  assumes "linked s (us @ a # x # b # vs)"
    and "a \<notin> set us" "a \<notin> set (butlast (b # vs))" "b \<notin> set vs" "b \<notin> set (tl (us @ [a]))"
    and "pxNext s' = (pxNext s)(a := Some b)" and "pxPrevious s' = (pxPrevious s)(b := Some a)"
  shows "linked s' (us @ a # b # vs)"
proof -
  have "linked s (us @ [a])" "linked s (b # vs)" using assms(1) by (simp_all add: linked_append)
  then have "linked s' (us @ [a])" "linked s' (b # vs)"
    using assms by (auto elim!: linked_frame)
  then show ?thesis using assms(6,7) by (simp add: linked_append)
qed

section \<open>Rings\<close>

text \<open>The nodes around a position of a list.\<close>

definition before :: "'l \<Rightarrow> 'i list \<Rightarrow> ('i, 'l) node" where
  "before l ys = (if ys = [] then End l else Item (last ys))"

definition after :: "'l \<Rightarrow> 'i list \<Rightarrow> ('i, 'l) node" where
  "after l zs = (if zs = [] then End l else Item (hd zs))"

lemma before_snoc [simp]: "before l (ys @ [i]) = Item i" "before l [] = End l"
  by (simp_all add: before_def)

lemma after_Cons [simp]: "after l (i # zs) = Item i" "after l [] = End l"
  by (simp_all add: after_def)

lemma ring_nodes:
  "End l # map Item (ys @ zs) @ [End l] =
     butlast (End l # map Item ys) @ before l ys # after l zs # tl (map Item zs @ [End l])"
proof -
  have "End l # map Item ys = butlast (End l # map Item ys) @ [before l ys]"
    by (cases ys rule: rev_cases) (auto simp: butlast_append)
  moreover have "map Item zs @ [End l] = after l zs # tl (map Item zs @ [End l])"
    by (cases zs) auto
  ultimately show ?thesis
    by (metis append.assoc append_Cons append_Nil map_append)
qed

lemma ring_nodes_apart:
  assumes "distinct (ys @ zs)"
  shows "before l ys \<notin> set (butlast (End l # map Item ys))"
    and "before l ys \<notin> set (butlast (after l zs # tl (map Item zs @ [End l])))"
    and "after l zs \<notin> set (tl (map Item zs @ [End l]))"
    and "after l zs \<notin> set (tl (butlast (End l # map Item ys) @ [before l ys]))"
proof -
  have d: "distinct (End l # map Item ys)" "distinct (map Item zs @ [End l])"
    using assms by (auto simp: distinct_map inj_on_def)
  have e: "butlast (End l # map Item ys) @ [before l ys] = End l # map Item ys"
    by (cases ys rule: rev_cases) (auto simp: butlast_append)
  have f: "after l zs # tl (map Item zs @ [End l]) = map Item zs @ [End l]"
    by (cases zs) auto
  show "before l ys \<notin> set (butlast (End l # map Item ys))"
  proof -
    have "distinct (butlast (End l # map Item ys) @ [before l ys])" using d(1) by (simp only: e)
    then show ?thesis by simp
  qed
  show "after l zs \<notin> set (tl (map Item zs @ [End l]))"
  proof -
    have "distinct (after l zs # tl (map Item zs @ [End l]))" using d(2) by (simp only: f)
    then show ?thesis by simp
  qed
  show "before l ys \<notin> set (butlast (after l zs # tl (map Item zs @ [End l])))"
    using assms unfolding f by (cases ys rule: rev_cases) (auto simp: before_def)
  show "after l zs \<notin> set (tl (butlast (End l # map Item ys) @ [before l ys]))"
    using assms unfolding e by (cases zs) auto
qed

lemma ring_links:
  "ring s l (ys @ zs) \<Longrightarrow> pxNext s (before l ys) = Some (after l zs) \<and> pxPrevious s (after l zs) = Some (before l ys)"
  unfolding ring_def ring_nodes linked_append by simp

lemma ring_insert:
  assumes "ring s l (ys @ zs)" "distinct (ys @ zs)" "i \<notin> set (ys @ zs)"
    and "pxNext s' = (pxNext s)(before l ys := Some (Item i), Item i := Some (after l zs))"
    and "pxPrevious s' = (pxPrevious s)(Item i := Some (before l ys), after l zs := Some (Item i))"
  shows "ring s' l (ys @ i # zs)"
proof -
  let ?us = "butlast (End l # map Item ys)" and ?vs = "tl (map Item zs @ [End l])"
  have "linked s' (?us @ before l ys # Item i # after l zs # ?vs)"
  proof (rule linked_insert [where s = s])
    show "linked s (?us @ before l ys # after l zs # ?vs)"
      using assms(1) unfolding ring_def ring_nodes .
    show "Item i \<notin> set (?us @ before l ys # after l zs # ?vs)"
      unfolding ring_nodes [symmetric] using assms(3) by auto
  qed (use assms ring_nodes_apart [OF assms(2), of l] in simp_all)
  also have "?us @ before l ys # Item i # after l zs # ?vs = End l # map Item (ys @ i # zs) @ [End l]"
    using ring_nodes [of l ys zs] by (cases ys rule: rev_cases; cases zs) (auto simp: butlast_append before_def)
  finally show ?thesis unfolding ring_def .
qed

lemma ring_remove:
  assumes "ring s l (ys @ i # zs)" "distinct (ys @ zs)"
    and "pxNext s' = (pxNext s)(before l ys := Some (after l zs))"
    and "pxPrevious s' = (pxPrevious s)(after l zs := Some (before l ys))"
  shows "ring s' l (ys @ zs)"
proof -
  let ?us = "butlast (End l # map Item ys)" and ?vs = "tl (map Item zs @ [End l])"
  have "End l # map Item (ys @ i # zs) @ [End l] = ?us @ before l ys # Item i # after l zs # ?vs"
    by (cases ys rule: rev_cases; cases zs) (auto simp: butlast_append before_def)
  then have "linked s (?us @ before l ys # Item i # after l zs # ?vs)"
    using assms(1) unfolding ring_def by metis
  then have "linked s' (?us @ before l ys # after l zs # ?vs)"
    by (rule linked_remove) (use assms ring_nodes_apart [OF assms(2), of l] in simp_all)
  then show ?thesis unfolding ring_def ring_nodes .
qed

lemma ring_frame:
  assumes "ring s l xs" and "pxNext s' (End l) = pxNext s (End l)" "pxPrevious s' (End l) = pxPrevious s (End l)"
    and "\<And>i. i \<in> set xs \<Longrightarrow> pxNext s' (Item i) = pxNext s (Item i) \<and> pxPrevious s' (Item i) = pxPrevious s (Item i)"
  shows "ring s' l xs"
  using assms(1) unfolding ring_def
  by (rule linked_frame) (use assms in \<open>auto simp: butlast_append dest!: in_set_butlastD split: if_splits\<close>)

section \<open>The sequence a list represents\<close>

primrec chain :: "('i, 'l, 'o) list_store \<Rightarrow> nat \<Rightarrow> ('i, 'l) node \<Rightarrow> 'i list" where
  "chain s 0 n = []"
| "chain s (Suc k) n = (case pxNext s n of Some (Item i) \<Rightarrow> i # chain s k (Item i) | _ \<Rightarrow> [])"

definition items :: "('i, 'l, 'o) list_store \<Rightarrow> 'l \<Rightarrow> 'i list" where
  "items s l = chain s (unat (uxNumberOfItems s l)) (End l)"

definition list_ok :: "('i, 'l, 'o) list_store \<Rightarrow> 'l \<Rightarrow> 'i list \<Rightarrow> bool" where
  "list_ok s l xs \<longleftrightarrow> ring s l xs \<and> distinct xs \<and> unat (uxNumberOfItems s l) = length xs \<and>
     (\<forall>i. pxContainer s i = Some l \<longleftrightarrow> i \<in> set xs) \<and> xItemValue s (End l) = portMAX_DELAY \<and>
     (pxIndex s l = Some (End l) \<or> (\<exists>c \<in> set xs. pxIndex s l = Some (Item c)))"

text \<open>A store in which the lists \<^term>\<open>L\<close> have been initialised.\<close>

definition store_ok :: "('i, 'l, 'o) list_store \<Rightarrow> 'l set \<Rightarrow> bool" where
  "store_ok s L \<longleftrightarrow> (\<forall>l \<in> L. list_ok s l (items s l))"

lemma unat_u64_less: "unat (w :: u64) < 2 ^ 64"
  using unsigned_less [where 'b = 64 and 'a = nat, of w] by simp

lemma chain_linked: "linked s (n # map Item xs) \<Longrightarrow> chain s (length xs) n = xs"
  by (induction xs arbitrary: n) auto

lemma linked_prefix: "linked s (ns @ ms) \<Longrightarrow> linked s ns"
proof (cases ns rule: rev_cases)
  case (snoc us a)
  assume "linked s (ns @ ms)"
  then show ?thesis using snoc by (cases ms) (auto simp: linked_append)
qed simp

lemma list_ok_items: "list_ok s l xs \<Longrightarrow> items s l = xs"
  using linked_prefix [of s "End l # map Item xs" "[End l]"]
  by (simp add: list_ok_def items_def ring_def chain_linked)

lemma store_okI: "(\<And>l. l \<in> L \<Longrightarrow> \<exists>xs. list_ok s l xs) \<Longrightarrow> store_ok s L"
  unfolding store_ok_def using list_ok_items by metis

lemma store_okD: "store_ok s L \<Longrightarrow> l \<in> L \<Longrightarrow> list_ok s l (items s l)"
  by (simp add: store_ok_def)

lemma store_ok_container: "store_ok s L \<Longrightarrow> l \<in> L \<Longrightarrow> pxContainer s i = Some l \<longleftrightarrow> i \<in> set (items s l)"
  by (simp add: store_ok_def list_ok_def)

lemma list_okI:
  assumes "ring s l xs" "distinct xs" "unat (uxNumberOfItems s l) = length xs"
    "\<And>i. pxContainer s i = Some l \<longleftrightarrow> i \<in> set xs" "xItemValue s (End l) = portMAX_DELAY"
    "pxIndex s l = Some (End l) \<or> (\<exists>c \<in> set xs. pxIndex s l = Some (Item c))"
  shows "list_ok s l xs"
  using assms unfolding list_ok_def by blast

lemma list_okD:
  assumes "list_ok s l xs"
  shows "ring s l xs" "distinct xs" "unat (uxNumberOfItems s l) = length xs"
    "pxContainer s i = Some l \<longleftrightarrow> i \<in> set xs" "xItemValue s (End l) = portMAX_DELAY"
    "pxIndex s l = Some (End l) \<or> (\<exists>c \<in> set xs. pxIndex s l = Some (Item c))"
  using assms unfolding list_ok_def by blast+

lemma list_ok_distinct: "list_ok s l xs \<Longrightarrow> distinct xs"
  by (simp add: list_ok_def)

lemma list_ok_length: "list_ok s l xs \<Longrightarrow> length xs < 2 ^ 64"
  unfolding list_ok_def using unat_u64_less [of "uxNumberOfItems s l"] by simp

lemma list_ok_empty: "list_ok s l xs \<Longrightarrow> listLIST_IS_EMPTY l s \<longleftrightarrow> xs = []"
  unfolding list_ok_def listLIST_IS_EMPTY_def by (metis length_0_conv unat_eq_zero)

lemma list_ok_frame:
  assumes "list_ok s l xs"
    and "pxNext s' (End l) = pxNext s (End l)" "pxPrevious s' (End l) = pxPrevious s (End l)"
    and "\<And>i. i \<in> set xs \<Longrightarrow> pxNext s' (Item i) = pxNext s (Item i) \<and> pxPrevious s' (Item i) = pxPrevious s (Item i)"
    and "\<And>i. pxContainer s' i = Some l \<longleftrightarrow> pxContainer s i = Some l"
    and "uxNumberOfItems s' l = uxNumberOfItems s l" "pxIndex s' l = pxIndex s l"
    and "xItemValue s' (End l) = xItemValue s (End l)"
  shows "list_ok s' l xs"
  using assms ring_frame [of s l xs s'] by (auto simp: list_ok_def)

lemma list_ok_apart: "list_ok s l xs \<Longrightarrow> list_ok s l' ys \<Longrightarrow> l \<noteq> l' \<Longrightarrow> set xs \<inter> set ys = {}"
  unfolding list_ok_def by (metis disjoint_iff option.inject)

text \<open>The nodes around a position of one list are not nodes of another.\<close>

lemma around_apart:
  assumes "set xs \<inter> set ys = {}" "l \<noteq> l'" "set us \<subseteq> set xs" "j \<in> set ys"
  shows "before l us \<noteq> Item j" "before l us \<noteq> End l'" "after l us \<noteq> Item j" "after l us \<noteq> End l'"
  using assms last_in_set [of us] hd_in_set [of us] by (fastforce simp: before_def after_def split: if_splits)+

section \<open>The cursor and the order of turns\<close>

fun put :: "('i, 'l) node option \<Rightarrow> 'i \<Rightarrow> 'i list \<Rightarrow> 'i list" where
  "put (Some (Item c)) i xs = takeWhile (\<lambda>x. x \<noteq> c) xs @ i # dropWhile (\<lambda>x. x \<noteq> c) xs"
| "put _ i xs = xs @ [i]"

fun rot :: "('i, 'l) node option \<Rightarrow> 'i list \<Rightarrow> 'i list" where
  "rot (Some (Item c)) xs = tl (dropWhile (\<lambda>x. x \<noteq> c) xs) @ takeWhile (\<lambda>x. x \<noteq> c) xs @ [c]"
| "rot _ xs = xs"

text \<open>The order in which repeated calls of the round-robin macro visit the items.\<close>

definition turns :: "('i, 'l, 'o) list_store \<Rightarrow> 'l \<Rightarrow> 'i list" where
  "turns s l = rot (pxIndex s l) (items s l)"

lemma takeWhile_split: "c \<notin> set ys \<Longrightarrow> takeWhile (\<lambda>x. x \<noteq> c) (ys @ c # zs) = ys"
  by (induction ys) auto

lemma dropWhile_split: "c \<notin> set ys \<Longrightarrow> dropWhile (\<lambda>x. x \<noteq> c) (ys @ c # zs) = c # zs"
  by (induction ys) auto

lemma put_split: "c \<notin> set ys \<Longrightarrow> put (Some (Item c)) i (ys @ c # zs) = ys @ i # c # zs"
  by (simp add: takeWhile_split dropWhile_split)

lemma rot_split: "c \<notin> set ys \<Longrightarrow> rot (Some (Item c)) (ys @ c # zs) = zs @ ys @ [c]"
  by (simp add: takeWhile_split dropWhile_split)

declare put.simps(1) [simp del] rot.simps(1) [simp del]

lemma set_put [simp]: "set (put n i xs) = insert i (set xs)"
proof -
  have "set (takeWhile P xs) \<union> set (dropWhile P xs) = set xs" for P
    by (metis set_append takeWhile_dropWhile_id)
  then show ?thesis by (cases "(n, i, xs)" rule: put.cases) (auto simp: put.simps(1))
qed

lemma rot_set:
  assumes "n = Some (End l) \<or> (\<exists>c \<in> set xs. n = Some (Item c))"
  shows "set (rot n xs) = set xs" and "distinct xs \<Longrightarrow> distinct (rot n xs)" and "length (rot n xs) = length xs"
proof -
  have "set (rot n xs) = set xs \<and> (distinct xs \<longrightarrow> distinct (rot n xs)) \<and> length (rot n xs) = length xs"
    using assms
  proof (elim disjE bexE)
    fix c
    assume c: "c \<in> set xs" "n = Some (Item c)"
    then obtain ys zs where "xs = ys @ c # zs" "c \<notin> set ys" by (meson split_list_first)
    with c show ?thesis by (auto simp: rot_split)
  qed simp
  then show "set (rot n xs) = set xs" and "distinct xs \<Longrightarrow> distinct (rot n xs)"
    and "length (rot n xs) = length xs" by auto
qed

section \<open>Initialisation\<close>

lemma list_ok_initialise: "(\<And>i. pxContainer s i \<noteq> Some l) \<Longrightarrow> list_ok (vListInitialise l s) l []"
  by (simp add: list_ok_def vListInitialise_def ring_def)

lemma list_ok_initialise_other: "list_ok s l' xs \<Longrightarrow> l \<noteq> l' \<Longrightarrow> list_ok (vListInitialise l s) l' xs"
  by (erule list_ok_frame) (auto simp: vListInitialise_def)

lemma store_ok_initialise:
  assumes "store_ok s L" "\<And>i. pxContainer s i \<noteq> Some l"
  shows "store_ok (vListInitialise l s) (insert l L)" and "items (vListInitialise l s) l = []"
    and "l' \<in> L \<Longrightarrow> l' \<noteq> l \<Longrightarrow> items (vListInitialise l s) l' = items s l'"
proof -
  have "list_ok (vListInitialise l s) l []" by (rule list_ok_initialise [OF assms(2)])
  moreover have *: "list_ok (vListInitialise l s) l' (items s l')" if "l' \<in> L" "l' \<noteq> l" for l'
    using list_ok_initialise_other [OF store_okD [OF assms(1) that(1)]] that(2) by simp
  ultimately show "store_ok (vListInitialise l s) (insert l L)" "items (vListInitialise l s) l = []"
    by (auto intro!: store_okI list_ok_items)
  show "l' \<in> L \<Longrightarrow> l' \<noteq> l \<Longrightarrow> items (vListInitialise l s) l' = items s l'"
    using * list_ok_items by metis
qed

text \<open>Initialising an item, or setting a field that no list structure depends on, keeps every list.\<close>

lemma list_ok_initialise_item:
  "list_ok s l xs \<Longrightarrow> i \<notin> set xs \<Longrightarrow> list_ok (vListInitialiseItem i s) l xs"
  by (frule list_ok_frame [where s' = "vListInitialiseItem i s"])
    (auto simp: vListInitialiseItem_def list_ok_def)

lemma list_ok_set_value: "list_ok s l xs \<Longrightarrow> list_ok (listSET_LIST_ITEM_VALUE i v s) l xs"
  by (erule list_ok_frame) (auto simp: listSET_LIST_ITEM_VALUE_def)

lemma list_ok_set_owner: "list_ok s l xs \<Longrightarrow> list_ok (listSET_LIST_ITEM_OWNER i v s) l xs"
  by (erule list_ok_frame) (auto simp: listSET_LIST_ITEM_OWNER_def)

section \<open>Insertion\<close>

text \<open>The store after linking an item between two neighbours, however the code ordered the writes.\<close>

definition linked_in :: "'l \<Rightarrow> 'i \<Rightarrow> 'i list \<Rightarrow> 'i list \<Rightarrow> ('i, 'l, 'o) list_store \<Rightarrow> ('i, 'l, 'o) list_store" where
  "linked_in l i ys zs s = s\<lparr>
     pxNext := (pxNext s)(before l ys := Some (Item i), Item i := Some (after l zs)),
     pxPrevious := (pxPrevious s)(Item i := Some (before l ys), after l zs := Some (Item i)),
     pxContainer := (pxContainer s)(i := Some l),
     uxNumberOfItems := (uxNumberOfItems s)(l := uxNumberOfItems s l + 1)\<rparr>"

lemma unat_Suc: "unat (n :: u64) + 1 < 2 ^ 64 \<Longrightarrow> unat (n + 1) = Suc (unat n)"
  by (subst unat_add_lem [THEN iffD1]) simp_all

lemma list_ok_linked_in:
  assumes ok: "list_ok s l (ys @ zs)" and i: "pxContainer s i = None" and len: "length (ys @ zs) + 1 < 2 ^ 64"
  shows "list_ok (linked_in l i ys zs s) l (ys @ i # zs)"
proof -
  have "i \<notin> set (ys @ zs)" using list_okD(4) [OF ok, of i] i by simp
  moreover have "ring (linked_in l i ys zs s) l (ys @ i # zs)"
    by (rule ring_insert [OF list_okD(1,2) [OF ok] calculation]) (simp_all add: linked_in_def)
  moreover have "unat (uxNumberOfItems (linked_in l i ys zs s) l) = length (ys @ i # zs)"
    using list_okD(3) [OF ok] len unat_Suc [of "uxNumberOfItems s l"] by (simp add: linked_in_def)
  moreover have "pxContainer (linked_in l i ys zs s) j = Some l \<longleftrightarrow> j \<in> set (ys @ i # zs)" for j
    using list_okD(4) [OF ok, of j] by (simp add: linked_in_def)
  ultimately show ?thesis
    using list_okD(2,5,6) [OF ok] by (intro list_okI) (auto simp: linked_in_def)
qed

lemma list_ok_linked_in_other:
  assumes ok: "list_ok s l (ys @ zs)" and ok': "list_ok s l' xs" and i: "pxContainer s i = None" and ne: "l \<noteq> l'"
  shows "list_ok (linked_in l i ys zs s) l' xs"
proof -
  note apart = list_ok_apart [OF ok ok' ne]
  have "i \<notin> set xs" using ok' i by (force simp: list_ok_def)
  moreover have "Item j \<noteq> before l ys \<and> Item j \<noteq> after l zs" if "j \<in> set xs" for j
    using around_apart(1) [OF apart ne _ that, of ys] around_apart(3) [OF apart ne _ that, of zs] by auto
  moreover have "before l ys \<noteq> End l' \<and> after l zs \<noteq> End l'" using ne by (auto simp: before_def after_def)
  ultimately show ?thesis
    using ne i by (intro list_ok_frame [OF ok']) (auto simp: linked_in_def)
qed

lemma around_fresh:
  "i \<notin> set (ys @ zs) \<Longrightarrow> before l ys \<noteq> Item i \<and> after l zs \<noteq> Item i"
  using last_in_set [of ys] hd_in_set [of zs] by (auto simp: before_def after_def split: if_splits)

lemma vListInsertEnd_linked_in:
  assumes ok: "list_ok s l (ys @ zs)" and i: "i \<notin> set (ys @ zs)" and idx: "pxIndex s l = Some (after l zs)"
  shows "vListInsertEnd l i s = Some (linked_in l i ys zs s)"
proof -
  have "pxPrevious s (after l zs) = Some (before l ys)" using ok ring_links [of s l ys zs] by (simp add: list_ok_def)
  then show ?thesis
    using around_fresh [OF i, of l] idx
    by (auto simp: vListInsertEnd_def linked_in_def fun_upd_twist)
qed

lemma portMAX_DELAY_max: "w \<le> portMAX_DELAY" "portMAX_DELAY \<le> w \<longleftrightarrow> w = portMAX_DELAY"
proof -
  have "portMAX_DELAY = - 1" by (simp add: portMAX_DELAY_def)
  then show "w \<le> portMAX_DELAY" "portMAX_DELAY \<le> w \<longleftrightarrow> w = portMAX_DELAY"
    using word_order.extremum_unique [of w] word_order.extremum [of w] by (simp_all only:)
qed

lemma insert_walk_stops:
  assumes "ring s l (us @ ws @ zs)" and "\<forall>w \<in> set ws. xItemValue s (Item w) \<le> v"
    and "\<not> xItemValue s (after l zs) \<le> v"
  shows "insert_walk s v (before l us) = Some (before l (us @ ws))"
  using assms(1,2)
proof (induction ws arbitrary: us)
  case Nil
  then show ?case
    using ring_links [of s l us zs] assms(3) by (subst insert_walk.simps) simp
next
  case (Cons w ws)
  have "insert_walk s v (before l (us @ [w])) = Some (before l ((us @ [w]) @ ws))"
    using Cons.prems by (intro Cons.IH) simp_all
  then show ?case
    using ring_links [of s l us "w # ws @ zs"] Cons.prems by (subst insert_walk.simps) simp
qed

lemma vListInsert_linked_in:
  assumes ok: "list_ok s l xs" and i: "i \<notin> set xs"
    and ys: "ys = takeWhile (\<lambda>x. xItemValue s (Item x) \<le> xItemValue s (Item i)) xs"
    and zs: "zs = dropWhile (\<lambda>x. xItemValue s (Item x) \<le> xItemValue s (Item i)) xs"
  shows "vListInsert l i s = Some (linked_in l i ys zs s)"
proof -
  let ?v = "xItemValue s (Item i)"
  let ?P = "\<lambda>x. xItemValue s (Item x) \<le> ?v"
  have xs: "xs = ys @ zs" by (simp add: ys zs)
  have ring: "ring s l (ys @ zs)" using ok by (simp add: list_ok_def xs)
  have it: "(if ?v = portMAX_DELAY then pxPrevious s (End l) else insert_walk s ?v (End l)) = Some (before l ys)"
  proof (cases "?v = portMAX_DELAY")
    case True
    then have "?P x" for x by (simp add: portMAX_DELAY_max)
    then have "zs = []" by (simp add: zs)
    then show ?thesis using True ring_links [OF ring] by simp
  next
    case False
    have "\<not> xItemValue s (after l zs) \<le> ?v"
    proof (cases zs)
      case Nil
      have "xItemValue s (End l) = portMAX_DELAY" using ok by (simp add: list_ok_def)
      then show ?thesis using Nil False by (simp add: portMAX_DELAY_max)
    next
      case (Cons z zs')
      then have "\<not> ?P z" using hd_dropWhile [of ?P xs] by (simp add: zs)
      then show ?thesis using Cons by simp
    qed
    then have "insert_walk s ?v (before l []) = Some (before l ([] @ ys))"
      using ring by (intro insert_walk_stops [where zs = zs]) (auto simp: ys dest: set_takeWhileD)
    then show ?thesis using False by simp
  qed
  have "pxNext s (before l ys) = Some (after l zs)" using ring_links [OF ring] by simp
  moreover have "before l ys \<noteq> Item i \<and> after l zs \<noteq> Item i" using around_fresh [of i ys zs l] i xs by simp
  ultimately show ?thesis
    unfolding vListInsert_def Let_def it by (auto simp: linked_in_def fun_upd_twist)
qed

section \<open>Removal\<close>

definition linked_out :: "'l \<Rightarrow> 'i \<Rightarrow> 'i list \<Rightarrow> 'i list \<Rightarrow> ('i, 'l, 'o) list_store \<Rightarrow> ('i, 'l, 'o) list_store" where
  "linked_out l i ys zs s = s\<lparr>
     pxNext := (pxNext s)(before l ys := Some (after l zs)),
     pxPrevious := (pxPrevious s)(after l zs := Some (before l ys)),
     pxIndex := (if pxIndex s l = Some (Item i) then (pxIndex s)(l := Some (before l ys)) else pxIndex s),
     pxContainer := (pxContainer s)(i := None),
     uxNumberOfItems := (uxNumberOfItems s)(l := uxNumberOfItems s l - 1)\<rparr>"

lemma uxListRemove_linked_out:
  assumes ok: "list_ok s l (ys @ i # zs)"
  shows "uxListRemove i s = Some (uxNumberOfItems s l - 1, linked_out l i ys zs s)"
proof -
  have i: "i \<notin> set (ys @ zs)" "pxContainer s i = Some l" using ok by (auto simp: list_ok_def)
  have "ring s l (ys @ i # zs)" using ok by (simp add: list_ok_def)
  then have "pxNext s (Item i) = Some (after l zs)" "pxPrevious s (Item i) = Some (before l ys)"
    using ring_links [of s l "ys @ [i]" zs] ring_links [of s l ys "i # zs"] by simp_all
  with i(2) around_fresh [OF i(1), of l] show ?thesis
    by (cases "pxIndex s l = Some (Item i)") (simp_all add: uxListRemove_def linked_out_def)
qed

lemma unat_pred: "0 < unat (n :: u64) \<Longrightarrow> unat (n - 1) = unat n - 1"
  by (simp add: unat_sub word_le_nat_alt)

lemma list_ok_linked_out:
  assumes ok: "list_ok s l (ys @ i # zs)"
  shows "list_ok (linked_out l i ys zs s) l (ys @ zs)"
proof -
  let ?s = "linked_out l i ys zs s"
  note r = list_okD(1) [OF ok] and d = list_okD(2) [OF ok] and n = list_okD(3) [OF ok]
    and c = list_okD(4) [OF ok] and v = list_okD(5) [OF ok] and x = list_okD(6) [OF ok]
  have "ring ?s l (ys @ zs)"
    using r by (rule ring_remove) (use d in \<open>simp_all add: linked_out_def\<close>)
  moreover have "before l ys = End l \<or> (\<exists>c \<in> set (ys @ zs). before l ys = Item c)"
    using last_in_set [of ys] by (auto simp: before_def)
  then have "pxIndex ?s l = Some (End l) \<or> (\<exists>c \<in> set (ys @ zs). pxIndex ?s l = Some (Item c))"
    using x by (cases "pxIndex s l = Some (Item i)") (auto simp: linked_out_def)
  moreover have "unat (uxNumberOfItems ?s l) = length (ys @ zs)"
    using n unat_pred [of "uxNumberOfItems s l"] by (simp add: linked_out_def)
  moreover have "pxContainer ?s j = Some l \<longleftrightarrow> j \<in> set (ys @ zs)" for j
    using c [of j] d by (auto simp: linked_out_def)
  moreover have "distinct (ys @ zs)" "xItemValue ?s (End l) = portMAX_DELAY"
    using d v by (simp_all add: linked_out_def)
  ultimately show ?thesis by (intro list_okI)
qed

lemma list_ok_linked_out_other:
  assumes ok: "list_ok s l (ys @ i # zs)" and ok': "list_ok s l' xs" and ne: "l \<noteq> l'"
  shows "list_ok (linked_out l i ys zs s) l' xs"
proof -
  note apart = list_ok_apart [OF ok ok' ne]
  have "i \<notin> set xs" "pxContainer s i = Some l" using apart ok by (auto simp: list_ok_def)
  moreover have "Item j \<noteq> before l ys \<and> Item j \<noteq> after l zs" if "j \<in> set xs" for j
  proof -
    have "set ys \<subseteq> set (ys @ i # zs)" "set zs \<subseteq> set (ys @ i # zs)" by auto
    then show ?thesis using around_apart(1,3) [OF apart ne _ that] by metis
  qed
  moreover have "before l ys \<noteq> End l' \<and> after l zs \<noteq> End l'" using ne by (auto simp: before_def after_def)
  ultimately show ?thesis
    using ne by (intro list_ok_frame [OF ok']) (auto simp: linked_out_def)
qed

section \<open>The round-robin cursor\<close>

lemma next_entry:
  assumes ok: "list_ok s l xs" and ne: "xs \<noteq> []"
  shows "listGET_OWNER_OF_NEXT_ENTRY l s =
    Some (pvOwner s (hd (rot (pxIndex s l) xs)),
      s\<lparr>pxIndex := (pxIndex s)(l := Some (Item (hd (rot (pxIndex s l) xs))))\<rparr>)"
proof (cases "pxIndex s l = Some (End l)")
  case True
  then show ?thesis
    using ring_links [of s l "[]" xs] ok ne
    by (auto simp: listGET_OWNER_OF_NEXT_ENTRY_def list_ok_def after_def Let_def)
next
  case False
  then obtain c where c: "c \<in> set xs" "pxIndex s l = Some (Item c)" using ok by (auto simp: list_ok_def)
  then obtain ys zs where xs: "xs = ys @ c # zs" "c \<notin> set ys" by (meson split_list_first)
  have ring: "ring s l ((ys @ [c]) @ zs)" "ring s l ([] @ ys @ c # zs)" using ok xs by (simp_all add: list_ok_def)
  have nx: "pxNext s (Item c) = Some (after l zs)" "pxNext s (End l) = Some (after l (ys @ c # zs))"
    using ring_links [OF ring(1)] ring_links [OF ring(2)] by simp_all
  have r: "rot (pxIndex s l) xs = zs @ ys @ [c]" using c xs by (simp add: rot_split)
  show ?thesis
    unfolding r using nx c(2)
    by (cases zs; cases ys) (simp_all add: listGET_OWNER_OF_NEXT_ENTRY_def after_def Let_def)
qed

section \<open>The operations on well-formed stores\<close>

text \<open>What an insertion leaves alone besides the links.\<close>

definition same_payload :: "('i, 'l, 'o) list_store \<Rightarrow> ('i, 'l, 'o) list_store \<Rightarrow> bool" where
  "same_payload s s' \<longleftrightarrow> xItemValue s' = xItemValue s \<and> pvOwner s' = pvOwner s"

lemma linked_in_store:
  assumes ok: "store_ok s L" "l \<in> L" and i: "pxContainer s i = None"
    and len: "length (items s l) + 1 < 2 ^ 64" and xs: "items s l = ys @ zs"
  shows "store_ok (linked_in l i ys zs s) L"
    and "l' \<in> L \<Longrightarrow> items (linked_in l i ys zs s) l' = (if l' = l then ys @ i # zs else items s l')"
proof -
  have l: "list_ok s l (ys @ zs)" using store_okD [OF ok] by (simp add: xs)
  have 1: "list_ok (linked_in l i ys zs s) l (ys @ i # zs)"
    using list_ok_linked_in [OF l i] len xs by simp
  have 2: "list_ok (linked_in l i ys zs s) l' (items s l')" if "l' \<in> L" "l' \<noteq> l" for l'
    using list_ok_linked_in_other [OF l store_okD [OF ok(1) that(1)] i] that(2) by simp
  show "store_ok (linked_in l i ys zs s) L" using 1 2 by (intro store_okI) blast
  show "l' \<in> L \<Longrightarrow> items (linked_in l i ys zs s) l' = (if l' = l then ys @ i # zs else items s l')"
    using list_ok_items [OF 1] list_ok_items [OF 2] by simp
qed

lemma linked_out_store:
  assumes ok: "store_ok s L" "l \<in> L" and xs: "items s l = ys @ i # zs"
  shows "store_ok (linked_out l i ys zs s) L"
    and "l' \<in> L \<Longrightarrow> items (linked_out l i ys zs s) l' = (if l' = l then ys @ zs else items s l')"
proof -
  have l: "list_ok s l (ys @ i # zs)" using store_okD [OF ok] by (simp add: xs)
  have 1: "list_ok (linked_out l i ys zs s) l (ys @ zs)"
    using list_ok_linked_out [OF l] .
  have 2: "list_ok (linked_out l i ys zs s) l' (items s l')" if "l' \<in> L" "l' \<noteq> l" for l'
    using list_ok_linked_out_other [OF l store_okD [OF ok(1) that(1)]] that(2) by simp
  show "store_ok (linked_out l i ys zs s) L" using 1 2 by (intro store_okI) blast
  show "l' \<in> L \<Longrightarrow> items (linked_out l i ys zs s) l' = (if l' = l then ys @ zs else items s l')"
    using list_ok_items [OF 1] list_ok_items [OF 2] by simp
qed

lemma insert_end_ok:
  assumes ok: "store_ok s L" "l \<in> L" and i: "pxContainer s i = None" and len: "length (items s l) + 1 < 2 ^ 64"
  obtains s' where "vListInsertEnd l i s = Some s'" "store_ok s' L" "same_payload s s'" "pxIndex s' = pxIndex s"
    "pxContainer s' = (pxContainer s)(i := Some l)"
    "\<And>l'. l' \<in> L \<Longrightarrow> items s' l' = (if l' = l then put (pxIndex s l) i (items s l) else items s l')"
proof -
  have l: "list_ok s l (items s l)" by (rule store_okD [OF ok])
  obtain ys zs where xs: "items s l = ys @ zs" and idx: "pxIndex s l = Some (after l zs)"
    and put: "put (pxIndex s l) i (items s l) = ys @ i # zs"
  proof (cases "pxIndex s l = Some (End l)")
    case True
    then show ?thesis using that [of "items s l" "[]"] by simp
  next
    case False
    then obtain c where c: "c \<in> set (items s l)" "pxIndex s l = Some (Item c)" using l by (auto simp: list_ok_def)
    then obtain ys zs where "items s l = ys @ c # zs" "c \<notin> set ys" by (meson split_list_first)
    then show ?thesis using that [of ys "c # zs"] c by (simp add: put_split)
  qed
  have "i \<notin> set (ys @ zs)" using store_ok_container [OF ok, of i] i xs by simp
  then have "vListInsertEnd l i s = Some (linked_in l i ys zs s)"
    using vListInsertEnd_linked_in l xs idx by metis
  with that [of "linked_in l i ys zs s"] linked_in_store [OF ok i len xs] put show ?thesis
    by (simp add: same_payload_def linked_in_def)
qed

lemma insert_ok:
  assumes ok: "store_ok s L" "l \<in> L" and i: "pxContainer s i = None" and len: "length (items s l) + 1 < 2 ^ 64"
  obtains s' where "vListInsert l i s = Some s'" "store_ok s' L" "same_payload s s'" "pxIndex s' = pxIndex s"
    "pxContainer s' = (pxContainer s)(i := Some l)"
    "\<And>l'. l' \<in> L \<Longrightarrow> items s' l' = (if l' = l
       then takeWhile (\<lambda>x. xItemValue s (Item x) \<le> xItemValue s (Item i)) (items s l) @ i #
            dropWhile (\<lambda>x. xItemValue s (Item x) \<le> xItemValue s (Item i)) (items s l)
       else items s l')"
proof -
  let ?P = "\<lambda>x. xItemValue s (Item x) \<le> xItemValue s (Item i)"
  let ?s = "linked_in l i (takeWhile ?P (items s l)) (dropWhile ?P (items s l)) s"
  have "i \<notin> set (items s l)" using store_ok_container [OF ok, of i] i by simp
  then have "vListInsert l i s = Some ?s"
    using vListInsert_linked_in [OF store_okD [OF ok]] by blast
  with that [of ?s] linked_in_store [OF ok i len, of "takeWhile ?P (items s l)" "dropWhile ?P (items s l)"]
  show ?thesis by (simp add: same_payload_def linked_in_def)
qed

lemma remove_ok:
  assumes ok: "store_ok s L" "l \<in> L" and i: "pxContainer s i = Some l"
  obtains s' where "uxListRemove i s = Some (of_nat (length (items s' l)), s')" "store_ok s' L" "same_payload s s'"
    "\<And>k. k \<noteq> l \<Longrightarrow> pxIndex s' k = pxIndex s k" "pxContainer s' = (pxContainer s)(i := None)"
    "\<And>l'. l' \<in> L \<Longrightarrow> items s' l' = (if l' = l then remove1 i (items s l) else items s l')"
    "turns s' l = remove1 i (turns s l)"
proof -
  have l: "list_ok s l (items s l)" by (rule store_okD [OF ok])
  have "i \<in> set (items s l)" using store_ok_container [OF ok, of i] i by simp
  then obtain ys zs where xs: "items s l = ys @ i # zs" and ni: "i \<notin> set ys" by (meson split_list_first)
  have d: "distinct (ys @ i # zs)" using list_ok_distinct [OF l] by (simp add: xs)
  let ?s = "linked_out l i ys zs s"
  note st = linked_out_store [OF ok xs]
  have it: "items ?s l = ys @ zs" using st(2) [OF ok(2)] by simp
  have rem: "remove1 i (ys @ i # zs) = ys @ zs" using ni by (simp add: remove1_append)
  have "unat (uxNumberOfItems s l - 1) = length (items ?s l)"
    using store_okD [OF st(1) ok(2)] by (simp add: list_ok_def linked_out_def)
  moreover have "of_nat (unat (uxNumberOfItems s l - 1)) = uxNumberOfItems s l - 1" by simp
  ultimately have n: "uxNumberOfItems s l - 1 = of_nat (length (items ?s l))" by (simp only:)
  have "turns ?s l = remove1 i (turns s l)"
    using l unfolding turns_def it xs list_ok_def
  proof (elim conjE disjE bexE)
    assume "pxIndex s l = Some (End l)"
    then show "rot (pxIndex ?s l) (ys @ zs) = remove1 i (rot (pxIndex s l) (ys @ i # zs))"
      by (simp add: linked_out_def rem)
  next
    fix c
    assume c: "pxIndex s l = Some (Item c)" "c \<in> set (ys @ i # zs)"
    consider "c = i" | us vs where "ys = us @ c # vs" "c \<notin> set us" | us vs where "zs = us @ c # vs" "c \<notin> set us"
      using c(2) split_list_first [of c ys] split_list_first [of c zs] by fastforce
    then show "rot (pxIndex ?s l) (ys @ zs) = remove1 i (rot (pxIndex s l) (ys @ i # zs))"
    proof cases
      case 1
      have "rot (pxIndex ?s l) (ys @ zs) = zs @ ys"
        using c 1 d by (cases ys rule: rev_cases) (auto simp: linked_out_def rot_split)
      then show ?thesis using c 1 d by (simp add: rot_split remove1_append)
    next
      case 2
      have "rot (pxIndex s l) (us @ c # (vs @ zs)) = (vs @ zs) @ us @ [c]"
        "rot (pxIndex s l) (us @ c # (vs @ i # zs)) = (vs @ i # zs) @ us @ [c]"
        unfolding c(1) using 2 by (intro rot_split; auto)+
      then show ?thesis using 2 c d by (auto simp: linked_out_def remove1_append)
    next
      case 3
      have "rot (pxIndex s l) ((ys @ us) @ c # vs) = vs @ (ys @ us) @ [c]"
        "rot (pxIndex s l) ((ys @ i # us) @ c # vs) = vs @ (ys @ i # us) @ [c]"
        unfolding c(1) using 3 d by (intro rot_split; auto)+
      then show ?thesis using 3 c d by (auto simp: linked_out_def remove1_append)
    qed
  qed
  moreover have "uxListRemove i s = Some (of_nat (length (items ?s l)), ?s)"
    using uxListRemove_linked_out [of s l ys i zs] l n by (simp only: xs)
  moreover have "items ?s l' = (if l' = l then remove1 i (items s l) else items s l')" if "l' \<in> L" for l'
    using st(2) [OF that] rem by (simp only: xs)
  moreover have "same_payload s ?s" "pxContainer ?s = (pxContainer s)(i := None)"
    "\<And>k. k \<noteq> l \<Longrightarrow> pxIndex ?s k = pxIndex s k"
    by (simp_all add: same_payload_def linked_out_def)
  ultimately show ?thesis using that [of ?s] st(1) by blast
qed

lemma append_Cons_unique:
  "ys @ x # zs = ys' @ x # zs' \<Longrightarrow> x \<notin> set ys \<Longrightarrow> x \<notin> set ys' \<Longrightarrow> ys = ys' \<and> zs = zs'"
proof (induction ys arbitrary: ys')
  case Nil
  then show ?case by (cases ys') auto
next
  case (Cons y ys)
  then show ?case by (cases ys') auto
qed

text \<open>Moving the cursor to the first item in the order of turns makes that item the last one.\<close>

lemma rot_next:
  assumes idx: "n = Some (End l) \<or> (\<exists>c \<in> set xs. n = Some (Item c))" and d: "distinct xs"
    and h: "rot n xs = h # ts"
  shows "rot (Some (Item h)) xs = ts @ [h]"
proof -
  have "h \<in> set xs" using rot_set(1) [OF idx] h by (metis list.set_intros(1))
  then obtain ys zs where xs: "xs = ys @ h # zs" "h \<notin> set ys" by (meson split_list_first)
  have "rot (Some (Item h)) xs = zs @ ys @ [h]" unfolding xs(1) by (rule rot_split [OF xs(2)])
  moreover have "ts = zs @ ys"
    using idx
  proof (elim disjE bexE)
    assume "n = Some (End l)"
    then show ?thesis using h xs by (cases ys) auto
  next
    fix c
    assume c: "n = Some (Item c)" "c \<in> set xs"
    then obtain us vs where us: "xs = us @ c # vs" "c \<notin> set us" by (meson split_list_first)
    have t: "h # ts = vs @ us @ [c]" unfolding h [symmetric] c(1) us(1) by (rule rot_split [OF us(2)])
    show ?thesis
    proof (cases vs)
      case (Cons v vs')
      then have "v = h" using t by simp
      then have "ys @ h # zs = (us @ [c]) @ h # vs'" using xs us Cons by simp_all
      moreover have "h \<notin> set (us @ [c])" using d \<open>v = h\<close> unfolding us(1) Cons by auto
      ultimately have "ys = us @ [c] \<and> zs = vs'" using xs(2) by (intro append_Cons_unique)
      then show ?thesis using t Cons by simp
    next
      case Nil
      then have "h # ts = xs" using t us by simp
      then show ?thesis using xs by (cases ys) auto
    qed
  qed
  ultimately show ?thesis by simp
qed

lemma items_set_index [simp]: "items (s\<lparr>pxIndex := f\<rparr>) l = items s l"
proof -
  have "chain (s\<lparr>pxIndex := f\<rparr>) k n = chain s k n" for k n
    by (induction k arbitrary: n) (auto split: option.splits node.splits)
  then show ?thesis by (simp add: items_def)
qed

lemma store_ok_set_index:
  assumes ok: "store_ok s L" "l \<in> L" and h: "h \<in> set (items s l)"
  shows "store_ok (s\<lparr>pxIndex := (pxIndex s)(l := Some (Item h))\<rparr>) L"
proof -
  let ?s = "s\<lparr>pxIndex := (pxIndex s)(l := Some (Item h))\<rparr>"
  have "list_ok ?s l' (items s l')" if "l' \<in> L" for l'
  proof (cases "l' = l")
    case True
    have l: "list_ok s l (items s l)" by (rule store_okD [OF ok])
    have "ring ?s l (items s l)" by (rule ring_frame [OF list_okD(1) [OF l]]) simp_all
    then show ?thesis
      unfolding True by (rule list_okI) (use list_okD [OF l] h in simp_all)
  next
    case False
    then show ?thesis by (intro list_ok_frame [OF store_okD [OF ok(1) that]]) simp_all
  qed
  then show ?thesis by (auto intro: store_okI)
qed

lemma next_entry_ok:
  assumes ok: "store_ok s L" "l \<in> L" and t: "turns s l = h # ts"
  obtains s' where "listGET_OWNER_OF_NEXT_ENTRY l s = Some (pvOwner s h, s')"
    "s' = s\<lparr>pxIndex := (pxIndex s)(l := Some (Item h))\<rparr>" "store_ok s' L" "turns s' l = ts @ [h]" "h \<in> set (items s l)"
proof -
  have l: "list_ok s l (items s l)" by (rule store_okD [OF ok])
  let ?s = "s\<lparr>pxIndex := (pxIndex s)(l := Some (Item h))\<rparr>"
  have idx: "pxIndex s l = Some (End l) \<or> (\<exists>c \<in> set (items s l). pxIndex s l = Some (Item c))"
    using l by (simp add: list_ok_def)
  have t': "rot (pxIndex s l) (items s l) = h # ts" using t by (simp add: turns_def)
  have h: "h \<in> set (items s l)" using rot_set(1) [OF idx] t' by (metis list.set_intros(1))
  then have "items s l \<noteq> []" by auto
  then have "listGET_OWNER_OF_NEXT_ENTRY l s = Some (pvOwner s h, ?s)"
    using next_entry [OF l] t' by simp
  moreover have "turns ?s l = ts @ [h]"
    using rot_next [OF idx list_ok_distinct [OF l] t'] by (simp add: turns_def)
  ultimately show ?thesis using that store_ok_set_index [OF ok h] h by blast
qed

section \<open>Properties\<close>

text \<open>Successive calls of the round-robin macro, with the owners they return.\<close>

primrec visit :: "nat \<Rightarrow> 'l \<Rightarrow> ('i, 'l, 'o) list_store \<Rightarrow> ('o option list \<times> ('i, 'l, 'o) list_store) ub" where
  "visit 0 l s = Some ([], s)"
| "visit (Suc n) l s = do {
     (ow, s) \<leftarrow> listGET_OWNER_OF_NEXT_ENTRY l s;
     (ows, s) \<leftarrow> visit n l s;
     Some (ow # ows, s)
   }"

lemma visit_turns:
  assumes "store_ok s L" "l \<in> L" "turns s l = us @ vs"
  shows "\<exists>s'. visit (length us) l s = Some (map (pvOwner s) us, s') \<and> store_ok s' L \<and> turns s' l = vs @ us \<and>
    items s' = items s"
  using assms
proof (induction us arbitrary: s vs)
  case Nil
  then show ?case by simp
next
  case (Cons u us)
  obtain s1 where s1: "listGET_OWNER_OF_NEXT_ENTRY l s = Some (pvOwner s u, s1)"
    "s1 = s\<lparr>pxIndex := (pxIndex s)(l := Some (Item u))\<rparr>" "store_ok s1 L" "turns s1 l = (us @ vs) @ [u]"
    using next_entry_ok [OF Cons.prems(1,2), of u "us @ vs"] Cons.prems(3) by auto
  moreover have "pvOwner s1 = pvOwner s" "items s1 = items s" using s1(2) by auto
  ultimately show ?case
    using Cons.IH [OF s1(3) Cons.prems(2), of "vs @ [u]"] by auto
qed

text \<open>
  C10: round-robin fairness.  On a well-formed list, as many successive calls of the next-entry macro as
  the list has items return the owner of every item exactly once, in the order of turns, never
  read the owner of the end marker, and leave the order of turns and the list as they were.
\<close>

theorem list_round_robin:
  assumes "store_ok s L" "l \<in> L"
  shows "\<exists>s'. visit (length (items s l)) l s = Some (map (pvOwner s) (turns s l), s') \<and>
    store_ok s' L \<and> turns s' l = turns s l \<and> items s' = items s \<and>
    distinct (turns s l) \<and> set (turns s l) = set (items s l)"
proof -
  have l: "list_ok s l (items s l)" by (rule store_okD [OF assms])
  note rs = rot_set [OF list_okD(6) [OF l]]
  show ?thesis
    using visit_turns [OF assms, of "turns s l" "[]"] rs(1,3) rs(2) [OF list_okD(2) [OF l]]
    by (auto simp: turns_def)
qed

text \<open>A store with one initialised list, and one with two items in it.\<close>

definition sample_store :: "(nat, nat, nat) list_store" where
  "sample_store = vListInitialise 0 \<lparr>xItemValue = (\<lambda>n. case n of Item i \<Rightarrow> of_nat i | End l \<Rightarrow> 0),
     pxNext = (\<lambda>_. None), pxPrevious = (\<lambda>_. None), pvOwner = (\<lambda>i. Some (10 * i)), pxContainer = (\<lambda>_. None),
     uxNumberOfItems = (\<lambda>_. 0), pxIndex = (\<lambda>_. None)\<rparr>"

lemma sample_store_ok:
  "store_ok sample_store {0}" "items sample_store 0 = []" "pxContainer sample_store i = None"
  "xItemValue sample_store (Item i) = of_nat i" "pxIndex sample_store 0 = Some (End 0)" "pvOwner sample_store i = Some (10 * i)"
proof -
  let ?b = "\<lparr>xItemValue = (\<lambda>n. case n of Item i \<Rightarrow> of_nat i | End l \<Rightarrow> 0),
     pxNext = (\<lambda>_. None), pxPrevious = (\<lambda>_. None), pvOwner = (\<lambda>i. Some (10 * i)), pxContainer = (\<lambda>_. None),
     uxNumberOfItems = (\<lambda>_. 0), pxIndex = (\<lambda>_. None)\<rparr> :: (nat, nat, nat) list_store"
  have "store_ok ?b {}" by (simp add: store_ok_def)
  then show "store_ok sample_store {0}" "items sample_store 0 = []"
    unfolding sample_store_def using store_ok_initialise(1,2) [of ?b "{}" 0] by simp_all
qed (simp_all add: sample_store_def vListInitialise_def)

lemma sample_two:
  obtains s where "vListInsertEnd 0 7 sample_store \<bind> vListInsertEnd 0 8 = Some s" "store_ok s {0}" "items s 0 = [7, 8]"
    "pxIndex s 0 = Some (End 0)" "xItemValue s = xItemValue sample_store" "pvOwner s = pvOwner sample_store"
    "pxContainer s = (pxContainer sample_store)(7 := Some 0, 8 := Some 0)"
proof -
  obtain s1 where s1: "vListInsertEnd 0 7 sample_store = Some s1" "store_ok s1 {0}" "same_payload sample_store s1"
    "pxIndex s1 = pxIndex sample_store" "pxContainer s1 = (pxContainer sample_store)(7 := Some 0)" "items s1 0 = [7]"
    by (rule insert_end_ok [OF sample_store_ok(1), of 0 7]) (auto simp: sample_store_ok)
  obtain s2 where s2: "vListInsertEnd 0 8 s1 = Some s2" "store_ok s2 {0}" "same_payload s1 s2"
    "pxIndex s2 = pxIndex s1" "pxContainer s2 = (pxContainer s1)(8 := Some 0)" "items s2 0 = [7, 8]"
    by (rule insert_end_ok [OF s1(2), of 0 8]) (auto simp: sample_store_ok s1)
  show thesis
    by (rule that [of s2]) (use s1 s2 in \<open>simp_all add: same_payload_def sample_store_ok\<close>)
qed

theorem list_round_robin_witness:
  "\<exists>s s'. vListInsertEnd 0 7 sample_store \<bind> vListInsertEnd 0 8 = Some s \<and> store_ok s {0} \<and> (0 :: nat) \<in> {0} \<and>
     visit 2 0 s = Some ([Some 70, Some 80], s')"
proof -
  obtain s where s: "vListInsertEnd 0 7 sample_store \<bind> vListInsertEnd 0 8 = Some s" "store_ok s {0}" "items s 0 = [7, 8]"
    "pxIndex s 0 = Some (End 0)" "pvOwner s = pvOwner sample_store" by (rule sample_two)
  then have "turns s 0 = [7, 8]" by (simp add: turns_def)
  moreover obtain s' where "visit (length (items s 0)) 0 s = Some (map (pvOwner s) (turns s 0), s')"
    using list_round_robin [OF s(2), of 0] by blast
  ultimately have "visit 2 0 s = Some ([Some 70, Some 80], s')"
    using s by (simp add: sample_store_ok numeral_2_eq_2 del: visit.simps)
  with s show ?thesis by blast
qed

text \<open>
  Insertion at the end.  On a well-formed store, inserting an item that is in no list is
  defined, adds it just before the cursor so that it takes its turn after every item that is
  already waiting, and changes no other list, no item value and no owner.
\<close>

theorem list_insert_end_spec:
  assumes "store_ok s L" "l \<in> L" "pxContainer s i = None" "length (items s l) + 1 < 2 ^ 64"
  shows "\<exists>s'. vListInsertEnd l i s = Some s' \<and> store_ok s' L \<and> pxContainer s' i = Some l \<and>
    items s' l = put (pxIndex s l) i (items s l) \<and>
    (turns s' l = turns s l @ [i] \<or> (\<exists>ts c. turns s l = ts @ [c] \<and> pxIndex s l = Some (Item c) \<and> turns s' l = ts @ [i, c])) \<and>
    (\<forall>l' \<in> L. l' \<noteq> l \<longrightarrow> items s' l' = items s l' \<and> turns s' l' = turns s l') \<and>
    xItemValue s' = xItemValue s \<and> pvOwner s' = pvOwner s"
proof -
  obtain s' where s': "vListInsertEnd l i s = Some s'" "store_ok s' L" "same_payload s s'" "pxIndex s' = pxIndex s"
    "pxContainer s' = (pxContainer s)(i := Some l)"
    "\<And>l'. l' \<in> L \<Longrightarrow> items s' l' = (if l' = l then put (pxIndex s l) i (items s l) else items s l')"
    using insert_end_ok [OF assms] by blast
  have l: "list_ok s l (items s l)" by (rule store_okD [OF assms(1,2)])
  have "turns s' l = turns s l @ [i] \<or> (\<exists>ts c. turns s l = ts @ [c] \<and> pxIndex s l = Some (Item c) \<and> turns s' l = ts @ [i, c])"
    using list_okD(6) [OF l]
  proof (elim disjE bexE)
    assume "pxIndex s l = Some (End l)"
    then show ?thesis using s'(4,6) assms(2) by (simp add: turns_def)
  next
    fix c
    assume c: "pxIndex s l = Some (Item c)" "c \<in> set (items s l)"
    then obtain ys zs where xs: "items s l = ys @ c # zs" "c \<notin> set ys" by (meson split_list_first)
    have "c \<noteq> i" using store_ok_container [OF assms(1,2), of i] assms(3) c by auto
    then have "turns s l = zs @ ys @ [c]" "turns s' l = zs @ (ys @ [i]) @ [c]"
      using c xs s'(4,6) assms(2) rot_split [of c "ys @ [i]" zs] by (auto simp: turns_def put_split rot_split)
    then show ?thesis using c by simp
  qed
  then show ?thesis using s' assms(2) by (auto simp: same_payload_def turns_def)
qed

theorem list_insert_end_spec_witness:
  "\<exists>s'. store_ok sample_store {0} \<and> pxContainer sample_store 7 = None \<and> length (items sample_store 0) + 1 < 2 ^ 64 \<and>
     vListInsertEnd 0 7 sample_store = Some s' \<and> items s' 0 = [7]"
proof -
  have len: "length (items sample_store 0) + 1 < 2 ^ 64" by (simp add: sample_store_ok)
  show ?thesis
    using list_insert_end_spec [OF sample_store_ok(1) _ sample_store_ok(3) [of 7] len] sample_store_ok len by auto
qed

lemma sorted_insert_position:
  fixes f :: "'a \<Rightarrow> 'b :: linorder"
  assumes "f i = v"
  shows "sorted (map f xs) \<Longrightarrow> sorted (map f (takeWhile (\<lambda>x. f x \<le> v) xs @ i # dropWhile (\<lambda>x. f x \<le> v) xs))"
proof (induction xs)
  case (Cons y ys)
  then show ?case
    using assms by (cases "f y \<le> v") (auto simp: not_le dest: set_takeWhileD set_dropWhileD intro: order_trans less_imp_le)
qed simp

text \<open>
  C24: ordered insertion.  On a well-formed store the walk to the insertion point terminates
  for every item value, including the maximal one that the code treats apart; the item is placed
  after all the leading items with a value no greater than its own, so that a sorted list stays
  sorted with equal values first come first; no other list, item value or owner changes.
\<close>

theorem list_insert_ordered:
  assumes "store_ok s L" "l \<in> L" "pxContainer s i = None" "length (items s l) + 1 < 2 ^ 64"
  shows "\<exists>s'. vListInsert l i s = Some s' \<and> store_ok s' L \<and> pxContainer s' i = Some l \<and>
    items s' l = takeWhile (\<lambda>x. xItemValue s (Item x) \<le> xItemValue s (Item i)) (items s l) @ i #
                 dropWhile (\<lambda>x. xItemValue s (Item x) \<le> xItemValue s (Item i)) (items s l) \<and>
    (sorted (map (xItemValue s \<circ> Item) (items s l)) \<longrightarrow> sorted (map (xItemValue s' \<circ> Item) (items s' l))) \<and>
    (\<forall>l' \<in> L. l' \<noteq> l \<longrightarrow> items s' l' = items s l') \<and> xItemValue s' = xItemValue s \<and> pvOwner s' = pvOwner s"
proof -
  obtain s' where s': "vListInsert l i s = Some s'" "store_ok s' L" "same_payload s s'"
    "pxContainer s' = (pxContainer s)(i := Some l)"
    "\<And>l'. l' \<in> L \<Longrightarrow> items s' l' = (if l' = l
       then takeWhile (\<lambda>x. xItemValue s (Item x) \<le> xItemValue s (Item i)) (items s l) @ i #
            dropWhile (\<lambda>x. xItemValue s (Item x) \<le> xItemValue s (Item i)) (items s l)
       else items s l')"
    using insert_ok [OF assms] by blast
  have v: "xItemValue s' = xItemValue s" "pvOwner s' = pvOwner s" using s'(3) by (simp_all add: same_payload_def)
  show ?thesis
    by (rule exI [of _ s'], unfold v)
      (use s' assms(2) sorted_insert_position [of "xItemValue s \<circ> Item" i _ "items s l", OF refl] in \<open>simp add: comp_def\<close>)
qed

theorem list_insert_ordered_witness:
  "\<exists>s s'. vListInsertEnd 0 7 sample_store \<bind> vListInsertEnd 0 9 = Some s \<and> store_ok s {0} \<and> pxContainer s 8 = None \<and>
     length (items s 0) + 1 < 2 ^ 64 \<and> vListInsert 0 8 s = Some s' \<and> items s' 0 = [7, 8, 9]"
proof -
  obtain s1 where s1: "vListInsertEnd 0 7 sample_store = Some s1" "store_ok s1 {0}" "same_payload sample_store s1"
    "pxIndex s1 = pxIndex sample_store" "pxContainer s1 = (pxContainer sample_store)(7 := Some 0)" "items s1 0 = [7]"
    by (rule insert_end_ok [OF sample_store_ok(1), of 0 7]) (auto simp: sample_store_ok)
  obtain s where s: "vListInsertEnd 0 9 s1 = Some s" "store_ok s {0}" "same_payload s1 s"
    "pxContainer s = (pxContainer s1)(9 := Some 0)" "items s 0 = [7, 9]"
    by (rule insert_end_ok [OF s1(2), of 0 9]) (auto simp: sample_store_ok s1)
  have h: "pxContainer s 8 = None" "length (items s 0) + 1 < 2 ^ 64" using s s1 by (simp_all add: sample_store_ok)
  show ?thesis
    using list_insert_ordered [OF s(2) _ h] s1 s h by (auto simp: same_payload_def sample_store_ok)
qed

text \<open>
  C25: removal.  Removing an item from the list that holds it is defined, takes exactly that
  item out of the list and out of the order of turns (also when the cursor was on it), returns
  the number of items left, detaches the item, and changes no other list, value or owner.
\<close>

theorem list_remove_spec:
  assumes "store_ok s L" "l \<in> L" "pxContainer s i = Some l"
  shows "\<exists>s'. uxListRemove i s = Some (of_nat (length (items s' l)), s') \<and> store_ok s' L \<and> pxContainer s' i = None \<and>
    items s' l = remove1 i (items s l) \<and> turns s' l = remove1 i (turns s l) \<and>
    (\<forall>l' \<in> L. l' \<noteq> l \<longrightarrow> items s' l' = items s l' \<and> turns s' l' = turns s l') \<and>
    xItemValue s' = xItemValue s \<and> pvOwner s' = pvOwner s"
proof -
  obtain s' where s': "uxListRemove i s = Some (of_nat (length (items s' l)), s')" "store_ok s' L" "same_payload s s'"
    "\<And>k. k \<noteq> l \<Longrightarrow> pxIndex s' k = pxIndex s k" "pxContainer s' = (pxContainer s)(i := None)"
    "\<And>l'. l' \<in> L \<Longrightarrow> items s' l' = (if l' = l then remove1 i (items s l) else items s l')"
    "turns s' l = remove1 i (turns s l)"
    using remove_ok [OF assms] by blast
  then show ?thesis using assms(2) by (intro exI [of _ s']) (auto simp: same_payload_def turns_def)
qed

theorem list_remove_spec_witness:
  "\<exists>s s'. vListInsertEnd 0 7 sample_store \<bind> vListInsertEnd 0 8 = Some s \<and> store_ok s {0} \<and> pxContainer s 7 = Some 0 \<and>
     uxListRemove 7 s = Some (1, s') \<and> items s' 0 = [8]"
proof -
  obtain s where s: "vListInsertEnd 0 7 sample_store \<bind> vListInsertEnd 0 8 = Some s" "store_ok s {0}" "items s 0 = [7, 8]"
    "pxContainer s = (pxContainer sample_store)(7 := Some 0, 8 := Some 0)" by (rule sample_two)
  have h: "pxContainer s 7 = Some 0" by (simp add: s)
  show ?thesis using list_remove_spec [OF s(2) _ h] s h by auto
qed

end
