(* ===== verification/Heap_Api.thy ===== *)
theory Heap_Api
  imports Flint_Prelude
begin

text \<open>
  The contract of the kernel heap interface of \<^verbatim>\<open>include/FlintRTOS/portable.h\<close>, which the allocators of
  \<^verbatim>\<open>portable/MemMang\<close> implement: what a client may assume of \<^verbatim>\<open>pvPortMalloc\<close> and \<^verbatim>\<open>vPortFree\<close>, and the facts that
  follow for every history of calls.
\<close>

section \<open>Regions\<close>

text \<open>A region is an address and a length; two regions are disjoint when one ends before the other.\<close>

definition disj :: "nat \<times> nat \<Rightarrow> nat \<times> nat \<Rightarrow> bool" where
  "disj c d \<longleftrightarrow> fst c + snd c \<le> fst d \<or> fst d + snd d \<le> fst c"

lemma disj_ne: "disj c d \<Longrightarrow> 0 < snd c \<Longrightarrow> 0 < snd d \<Longrightarrow> fst c \<noteq> fst d"
  by (auto simp: disj_def)

lemma disj_sym: "disj c d \<Longrightarrow> disj d c"
  by (auto simp: disj_def)

lemma disj_shrink: "disj (p, m) (q, k) \<Longrightarrow> n \<le> m \<Longrightarrow> l \<le> k \<Longrightarrow> disj (p, n) (q, l)"
  by (auto simp: disj_def)

section \<open>Histories\<close>

text \<open>
  The states a client can bring a heap into, with the regions it has asked for and not yet given
  back: a request that returns null adds none, and only a region in use is given back.
\<close>

inductive heap_history ::
  "(nat \<Rightarrow> 's \<Rightarrow> (nat \<times> 's) ub) \<Rightarrow> (nat \<Rightarrow> 's \<Rightarrow> 's ub) \<Rightarrow> (nat \<Rightarrow> bool) \<Rightarrow> 's \<Rightarrow> 's \<Rightarrow> (nat \<times> nat) set \<Rightarrow> bool"
  for malloc :: "nat \<Rightarrow> 's \<Rightarrow> (nat \<times> 's) ub" and free :: "nat \<Rightarrow> 's \<Rightarrow> 's ub" and request_ok :: "nat \<Rightarrow> bool" and s0 :: 's
where
  heap_start: "heap_history malloc free request_ok s0 s0 {}"
| heap_malloc: "heap_history malloc free request_ok s0 s L \<Longrightarrow> request_ok n \<Longrightarrow> malloc n s = Some (p, s') \<Longrightarrow>
    heap_history malloc free request_ok s0 s' (if p = 0 then L else insert (p, n) L)"
| heap_free: "heap_history malloc free request_ok s0 s L \<Longrightarrow> (p, n) \<in> L \<Longrightarrow> free p s = Some s' \<Longrightarrow>
    heap_history malloc free request_ok s0 s' (L - {(p, n)})"

section \<open>The contract\<close>

locale heap_api =
  fixes malloc :: "nat \<Rightarrow> 's \<Rightarrow> (nat \<times> 's) ub" and free :: "nat \<Rightarrow> 's \<Rightarrow> 's ub"
    and request_ok :: "nat \<Rightarrow> bool" and rep :: "'s \<Rightarrow> (nat \<times> nat) set \<Rightarrow> bool"
  assumes malloc_law: "rep s A \<Longrightarrow> request_ok n \<Longrightarrow> \<exists>p s'. malloc n s = Some (p, s') \<and>
      (p = 0 \<and> rep s' A \<or> p \<noteq> 0 \<and> (\<exists>m \<ge> n. (p, m) \<notin> A \<and> rep s' (insert (p, m) A)))"
    and free_law: "rep s A \<Longrightarrow> (p, m) \<in> A \<Longrightarrow>
      \<exists>s' A'. free p s = Some s' \<and> rep s' A' \<and> A - {(p, m)} \<subseteq> A' \<and> A' \<subseteq> A"
    and rep_regions: "rep s A \<Longrightarrow> c \<in> A \<Longrightarrow> fst c \<noteq> 0 \<and> 0 < snd c"
    and rep_disj: "rep s A \<Longrightarrow> c \<in> A \<Longrightarrow> d \<in> A \<Longrightarrow> c \<noteq> d \<Longrightarrow> disj c d"
    and request_pos: "request_ok n \<Longrightarrow> 0 < n"
begin

lemma rep_unique: "rep s A \<Longrightarrow> (p, m) \<in> A \<Longrightarrow> (p, k) \<in> A \<Longrightarrow> m = k"
  using rep_disj [of s A "(p, m)" "(p, k)"] rep_regions [of s A] disj_ne [of "(p, m)" "(p, k)"] by force

lemma history_rep:
  assumes "heap_history malloc free request_ok s0 s L" "rep s0 {}"
  shows "\<exists>A. rep s A \<and> (\<forall>p n. (p, n) \<in> L \<longrightarrow> 0 < n \<and> (\<exists>m \<ge> n. (p, m) \<in> A)) \<and>
    (\<forall>p n k. (p, n) \<in> L \<longrightarrow> (p, k) \<in> L \<longrightarrow> n = k)"
  using assms
proof (induction rule: heap_history.induct)
  case heap_start
  then show ?case by blast
next
  case (heap_malloc s L n p s')
  then obtain A where A: "rep s A" "\<And>p n. (p, n) \<in> L \<Longrightarrow> 0 < n \<and> (\<exists>m \<ge> n. (p, m) \<in> A)"
    "\<And>p n k. (p, n) \<in> L \<Longrightarrow> (p, k) \<in> L \<Longrightarrow> n = k" by blast
  show ?case
  proof (cases "p = 0")
    case True
    then have "rep s' A" using malloc_law [OF A(1) heap_malloc.hyps(2)] heap_malloc.hyps(3) by auto
    then show ?thesis using A True by (intro exI [of _ A]) auto
  next
    case False
    then obtain m where m: "n \<le> m" "(p, m) \<notin> A" "rep s' (insert (p, m) A)"
      using malloc_law [OF A(1) heap_malloc.hyps(2)] heap_malloc.hyps(3) by auto
    have new: "(p, k) \<notin> L" for k
    proof
      assume "(p, k) \<in> L"
      then obtain j where "(p, j) \<in> A" using A(2) by blast
      then have "j = m" using rep_unique [OF m(3), of p j m] by simp
      then show False using m(2) \<open>(p, j) \<in> A\<close> by simp
    qed
    show ?thesis
    proof (intro exI [of _ "insert (p, m) A"] conjI allI impI)
      show "rep s' (insert (p, m) A)" by (rule m(3))
      fix q k
      assume "(q, k) \<in> (if p = 0 then L else insert (p, n) L)"
      then have "(q, k) = (p, n) \<or> (q, k) \<in> L" using False by auto
      then show "0 < k" "\<exists>m' \<ge> k. (q, m') \<in> insert (p, m) A"
        using A(2) m(1) request_pos [OF heap_malloc.hyps(2)] by blast+
      fix j
      assume "(q, j) \<in> (if p = 0 then L else insert (p, n) L)"
      then show "k = j" using \<open>(q, k) = (p, n) \<or> (q, k) \<in> L\<close> A(3) new False by auto
    qed
  qed
next
  case (heap_free s L p n s')
  then obtain A where A: "rep s A" "\<And>p n. (p, n) \<in> L \<Longrightarrow> 0 < n \<and> (\<exists>m \<ge> n. (p, m) \<in> A)"
    "\<And>p n k. (p, n) \<in> L \<Longrightarrow> (p, k) \<in> L \<Longrightarrow> n = k" by blast
  obtain m where m: "(p, m) \<in> A" using A(2) heap_free.hyps(2) by blast
  then obtain A' where A': "rep s' A'" "A - {(p, m)} \<subseteq> A'" "A' \<subseteq> A"
    using free_law [OF A(1) m] heap_free.hyps(3) by auto
  have "\<exists>j \<ge> k. (q, j) \<in> A'" if qk: "(q, k) \<in> L - {(p, n)}" for q k
  proof -
    obtain j where j: "k \<le> j" "(q, j) \<in> A" using A(2) qk by blast
    have "q \<noteq> p" using A(3) heap_free.hyps(2) qk by blast
    then show ?thesis using A'(2) j by blast
  qed
  then show ?case using A'(1) A(2,3) by (intro exI [of _ A']) blast
qed

text \<open>The regions in use never overlap.\<close>

lemma history_disjoint:
  assumes "heap_history malloc free request_ok s0 s L" "rep s0 {}" "c \<in> L" "d \<in> L" "c \<noteq> d"
  shows "disj c d"
proof -
  obtain A where A: "rep s A" "\<And>p n. (p, n) \<in> L \<Longrightarrow> 0 < n \<and> (\<exists>m \<ge> n. (p, m) \<in> A)"
    "\<And>p n k. (p, n) \<in> L \<Longrightarrow> (p, k) \<in> L \<Longrightarrow> n = k" using history_rep [OF assms(1,2)] by blast
  obtain p n q k where cd: "c = (p, n)" "d = (q, k)" by (cases c, cases d)
  obtain m j where mj: "n \<le> m" "(p, m) \<in> A" "k \<le> j" "(q, j) \<in> A" using A(2) assms(3,4) cd by metis
  have "p \<noteq> q" using A(3) assms(3-5) cd by blast
  then have "disj (p, m) (q, j)" using rep_disj [OF A(1) mj(2,4)] by simp
  then show ?thesis using disj_shrink mj(1,3) cd by blast
qed

text \<open>No call of a history meets undefined behaviour or fails to return.\<close>

lemma history_defined:
  assumes "heap_history malloc free request_ok s0 s L" "rep s0 {}"
  shows "request_ok n \<Longrightarrow> \<exists>r. malloc n s = Some r" and "(p, n) \<in> L \<Longrightarrow> \<exists>s'. free p s = Some s'"
proof -
  obtain A where A: "rep s A" "\<And>p n. (p, n) \<in> L \<Longrightarrow> 0 < n \<and> (\<exists>m \<ge> n. (p, m) \<in> A)"
    using history_rep [OF assms] by blast
  show "request_ok n \<Longrightarrow> \<exists>r. malloc n s = Some r" using malloc_law [OF A(1)] by blast
  show "(p, n) \<in> L \<Longrightarrow> \<exists>s'. free p s = Some s'" using free_law [OF A(1)] A(2) by blast
qed

end

end
