(* ===== verification/Heap_4.thy ===== *)
theory Heap_4
  imports Heap_Api
begin

text \<open>
  The default kernel heap (\<^verbatim>\<open>portable/MemMang/heap_4.c\<close>): a first-fit allocator over one static pool
  with an address-ordered free list whose physically adjacent blocks are merged.  Addresses and
  sizes are natural numbers below \<^term>\<open>(2::nat) ^ 64\<close> with the wrap-around of \<^verbatim>\<open>size_t\<close> written out.  The
  block headers are two functions from addresses, one per field.  The lemmas show that the two
  loops end, that the free list is the reference insertion with merging, and that live
  allocations are disjoint, aligned, inside the pool and untouched by the other calls.
\<close>

section \<open>Size arithmetic\<close>

definition sz_add :: "nat \<Rightarrow> nat \<Rightarrow> nat" where
  "sz_add a b = (a + b) mod 2 ^ 64"

definition sz_sub :: "nat \<Rightarrow> nat \<Rightarrow> nat" where
  "sz_sub a b = (a + 2 ^ 64 - b) mod 2 ^ 64"

definition sz_not :: "nat \<Rightarrow> nat" where
  "sz_not a = 2 ^ 64 - 1 - a"

section \<open>Constants and state\<close>

definition portBYTE_ALIGNMENT :: nat where
  "portBYTE_ALIGNMENT = 16"

definition heapALIGN_MASK :: nat where
  "heapALIGN_MASK = portBYTE_ALIGNMENT - 1"

definition heapALLOC_BIT :: nat where
  "heapALLOC_BIT = 2 ^ (8 * 8 - 1)"

definition configTOTAL_HEAP_SIZE :: nat where
  "configTOTAL_HEAP_SIZE = 1024 * 1024"

definition sizeof_BlockLink :: nat where
  "sizeof_BlockLink = 16"

definition xHeapStructSize :: nat where
  "xHeapStructSize = (sizeof_BlockLink + heapALIGN_MASK) AND sz_not heapALIGN_MASK"

text \<open>Where the linker placed the two static objects.\<close>

record heap_layout =
  ucHeap :: nat
  xStart :: nat

record heap4 =
  pxNextFreeBlock :: "nat \<Rightarrow> nat"
  xBlockSize :: "nat \<Rightarrow> nat"
  pxEnd :: nat
  xFreeBytesRemaining :: nat
  xMinimumEverFreeBytes :: nat

abbreviation set_nextfree :: "nat \<Rightarrow> nat \<Rightarrow> heap4 \<Rightarrow> heap4" where
  "set_nextfree a v h \<equiv> h\<lparr>pxNextFreeBlock := (pxNextFreeBlock h)(a := v)\<rparr>"

abbreviation set_size :: "nat \<Rightarrow> nat \<Rightarrow> heap4 \<Rightarrow> heap4" where
  "set_size a v h \<equiv> h\<lparr>xBlockSize := (xBlockSize h)(a := v)\<rparr>"

section \<open>Operations\<close>

definition prvBlockIsAllocated :: "nat \<Rightarrow> heap4 \<Rightarrow> bool" where
  "prvBlockIsAllocated b h \<longleftrightarrow> xBlockSize h b AND heapALLOC_BIT \<noteq> 0"

text \<open>The search for the insertion point; following a null link is undefined.\<close>

partial_function (option) insert_point :: "heap4 \<Rightarrow> nat \<Rightarrow> nat \<Rightarrow> nat option" where
  "insert_point h blk it =
     (if it = 0 then None
      else if pxNextFreeBlock h it < blk then insert_point h blk (pxNextFreeBlock h it)
      else Some it)"

text \<open>The second half of an insertion: merge with the following block if contiguous, and link.\<close>

definition merge_next :: "nat \<Rightarrow> nat \<Rightarrow> heap4 \<Rightarrow> heap4" where
  "merge_next it blk h =
    (let nx = pxNextFreeBlock h it
     in if sz_add blk (xBlockSize h blk) = nx
        then if nx \<noteq> pxEnd h
          then let h = set_size blk (sz_add (xBlockSize h blk) (xBlockSize h nx)) h
               in set_nextfree blk (pxNextFreeBlock h (pxNextFreeBlock h it)) h
          else set_nextfree blk (pxEnd h) h
        else set_nextfree blk nx h)"

definition prvInsertBlockIntoFreeList :: "heap_layout \<Rightarrow> nat \<Rightarrow> heap4 \<Rightarrow> heap4 ub" where
  "prvInsertBlockIntoFreeList lay blk h = do {
     it \<leftarrow> insert_point h blk (xStart lay);
     let (h, blk) =
       (if sz_add it (xBlockSize h it) = blk
        then (set_size it (sz_add (xBlockSize h it) (xBlockSize h blk)) h, it) else (h, blk));
     let h = merge_next it blk h;
     Some (if it \<noteq> blk then set_nextfree it blk h else h)
   }"

definition vPortInitialiseBlocks :: "heap_layout \<Rightarrow> heap4 \<Rightarrow> heap4" where
  "vPortInitialiseBlocks lay h =
    (let uxAddress = ucHeap lay;
         xTotalHeapSize = configTOTAL_HEAP_SIZE;
         (uxAddress, xTotalHeapSize) =
           (if uxAddress AND heapALIGN_MASK \<noteq> 0
            then (let a = sz_add uxAddress heapALIGN_MASK AND sz_not heapALIGN_MASK
                  in (a, sz_sub xTotalHeapSize (sz_sub a (ucHeap lay))))
            else (uxAddress, xTotalHeapSize));
         pucAlignedHeap = uxAddress;
         h = set_nextfree (xStart lay) pucAlignedHeap h;
         h = set_size (xStart lay) 0 h;
         uxAddress = sz_add pucAlignedHeap xTotalHeapSize;
         uxAddress = sz_sub uxAddress xHeapStructSize;
         uxAddress = uxAddress AND sz_not heapALIGN_MASK;
         h = h\<lparr>pxEnd := uxAddress\<rparr>;
         h = set_size (pxEnd h) 0 h;
         h = set_nextfree (pxEnd h) 0 h;
         pxFirstFreeBlock = pucAlignedHeap;
         h = set_size pxFirstFreeBlock (sz_sub uxAddress pxFirstFreeBlock) h;
         h = set_nextfree pxFirstFreeBlock (pxEnd h) h;
         h = h\<lparr>xFreeBytesRemaining := xBlockSize h pxFirstFreeBlock\<rparr>
     in h\<lparr>xMinimumEverFreeBytes := xFreeBytesRemaining h\<rparr>)"

text \<open>The first-fit walk returns the found block and the one before it.\<close>

partial_function (option) first_fit :: "heap4 \<Rightarrow> nat \<Rightarrow> nat \<Rightarrow> nat \<Rightarrow> (nat \<times> nat) option" where
  "first_fit h want prev blk =
     (if blk = 0 then None
      else if xBlockSize h blk < want \<and> pxNextFreeBlock h blk \<noteq> 0
        then first_fit h want blk (pxNextFreeBlock h blk)
      else Some (prev, blk))"

text \<open>The size a request is rounded up to, header included.\<close>

definition block_request :: "nat \<Rightarrow> nat" where
  "block_request xWantedSize =
    (let w = sz_add xWantedSize xHeapStructSize
     in if w AND heapALIGN_MASK \<noteq> 0 then sz_add w (portBYTE_ALIGNMENT - (w AND heapALIGN_MASK)) else w)"

text \<open>The last steps of an allocation: the counters and the header of the block taken.\<close>

definition seal :: "nat \<Rightarrow> heap4 \<Rightarrow> heap4" where
  "seal blk h =
    (let h = h\<lparr>xFreeBytesRemaining := sz_sub (xFreeBytesRemaining h) (xBlockSize h blk)\<rparr>;
         h = (if xFreeBytesRemaining h < xMinimumEverFreeBytes h
              then h\<lparr>xMinimumEverFreeBytes := xFreeBytesRemaining h\<rparr> else h);
         h = set_size blk (xBlockSize h blk OR heapALLOC_BIT) h
     in set_nextfree blk 0 h)"

definition take_block :: "heap_layout \<Rightarrow> nat \<Rightarrow> nat \<Rightarrow> nat \<Rightarrow> heap4 \<Rightarrow> (nat \<times> heap4) ub" where
  "take_block lay want prev blk h = do {
     let pvReturn = sz_add (pxNextFreeBlock h prev) xHeapStructSize;
     let h = set_nextfree prev (pxNextFreeBlock h blk) h;
     h \<leftarrow> (if sz_sub (xBlockSize h blk) want > (xHeapStructSize * 2) mod 2 ^ 64
          then let new = sz_add blk want;
                   h = set_size new (sz_sub (xBlockSize h blk) want) h;
                   h = set_size blk want h
               in prvInsertBlockIntoFreeList lay new h
          else Some h);
     Some (pvReturn, seal blk h)
   }"

definition pvPortMalloc :: "heap_layout \<Rightarrow> nat \<Rightarrow> heap4 \<Rightarrow> (nat \<times> heap4) ub" where
  "pvPortMalloc lay xWantedSize h = do {
     let h = (if pxEnd h = 0 then vPortInitialiseBlocks lay h else h);
     if xWantedSize = 0 \<or> xWantedSize AND heapALLOC_BIT \<noteq> 0 then Some (0, h)
     else do {
       let want = block_request xWantedSize;
       if want > xFreeBytesRemaining h then Some (0, h)
       else do {
         (prev, blk) \<leftarrow> first_fit h want (xStart lay) (pxNextFreeBlock h (xStart lay));
         if blk \<noteq> pxEnd h then take_block lay want prev blk h else Some (0, h)
       }
     }
   }"

definition vPortFree :: "heap_layout \<Rightarrow> nat \<Rightarrow> heap4 \<Rightarrow> heap4 ub" where
  "vPortFree lay pv h =
    (if pv = 0 then Some h
     else
       (let link = sz_sub pv xHeapStructSize
        in if \<not> prvBlockIsAllocated link h then Some h
           else
             (let h = set_size link (xBlockSize h link AND sz_not heapALLOC_BIT) h;
                  h = set_nextfree link 0 h;
                  h = h\<lparr>xFreeBytesRemaining := sz_add (xFreeBytesRemaining h) (xBlockSize h link)\<rparr>
              in prvInsertBlockIntoFreeList lay link h)))"

definition xPortGetFreeHeapSize :: "heap_layout \<Rightarrow> heap4 \<Rightarrow> nat \<times> heap4" where
  "xPortGetFreeHeapSize lay h =
    (let h = (if pxEnd h = 0 then vPortInitialiseBlocks lay h else h) in (xFreeBytesRemaining h, h))"

definition xPortGetMinimumEverFreeHeapSize :: "heap_layout \<Rightarrow> heap4 \<Rightarrow> nat \<times> heap4" where
  "xPortGetMinimumEverFreeHeapSize lay h =
    (let h = (if pxEnd h = 0 then vPortInitialiseBlocks lay h else h) in (xMinimumEverFreeBytes h, h))"

section \<open>Bit masks as arithmetic\<close>

lemma align_mask_mod: "x AND heapALIGN_MASK = x mod 16"
proof -
  have "heapALIGN_MASK = mask 4" by (simp add: heapALIGN_MASK_def portBYTE_ALIGNMENT_def mask_eq_exp_minus_1)
  then show ?thesis using take_bit_eq_mask [of 4 x] by (simp add: take_bit_eq_mod)
qed

lemma align_down_mod: "x < 2 ^ 64 \<Longrightarrow> x AND sz_not heapALIGN_MASK = x div 16 * 16"
proof -
  assume x: "x < 2 ^ 64"
  have "sz_not heapALIGN_MASK = push_bit 4 (mask 60)"
    by (simp add: sz_not_def heapALIGN_MASK_def portBYTE_ALIGNMENT_def mask_eq_exp_minus_1 push_bit_eq_mult)
  moreover have "x AND push_bit 4 (mask 60) = push_bit 4 (take_bit 60 (drop_bit 4 x))"
    by (rule bit_eqI) (auto simp: bit_simps)
  moreover have "take_bit 60 (drop_bit 4 x) = x div 16"
    using x by (simp add: take_bit_eq_mod drop_bit_eq_div)
  ultimately show ?thesis by (simp add: push_bit_eq_mult)
qed

lemma alloc_bit: "heapALLOC_BIT = 2 ^ 63"
  by (simp add: heapALLOC_BIT_def)

lemma alloc_bit_test: "x < 2 ^ 64 \<Longrightarrow> x AND heapALLOC_BIT \<noteq> 0 \<longleftrightarrow> 2 ^ 63 \<le> x"
proof -
  assume x: "x < 2 ^ 64"
  have "x AND 2 ^ 63 \<noteq> 0 \<longleftrightarrow> odd (x div 2 ^ 63)"
    using and_exp_eq_0_iff_not_bit [of x 63] by (simp add: bit_iff_odd)
  moreover have "x div 2 ^ 63 < 2" using x by (simp add: less_mult_imp_div_less)
  then have "odd (x div 2 ^ 63) \<longleftrightarrow> x div 2 ^ 63 = 1" by (cases "x div 2 ^ 63") auto
  moreover have "x div 2 ^ 63 = 1 \<longleftrightarrow> 2 ^ 63 \<le> x"
    using \<open>x div 2 ^ 63 < 2\<close> div_le_mono [of "2 ^ 63" x "2 ^ 63"] by (cases "2 ^ 63 \<le> x") auto
  ultimately show ?thesis by (simp add: alloc_bit)
qed

lemma alloc_bit_set: "x < 2 ^ 63 \<Longrightarrow> x OR heapALLOC_BIT = x + 2 ^ 63"
proof -
  assume x: "x < 2 ^ 63"
  have "x AND 2 ^ 63 = 0" using alloc_bit_test [of x] x by (simp add: alloc_bit)
  then show ?thesis unfolding alloc_bit by (rule disjunctive_add_eq_or [symmetric])
qed

lemma alloc_bit_clear: "x < 2 ^ 64 \<Longrightarrow> x AND sz_not heapALLOC_BIT = x mod 2 ^ 63"
proof -
  have "sz_not heapALLOC_BIT = mask 63" by (simp add: sz_not_def alloc_bit mask_eq_exp_minus_1)
  then show ?thesis using take_bit_eq_mask [of 63 x] by (simp add: take_bit_eq_mod)
qed

lemma struct_size: "xHeapStructSize = 16"
proof -
  have "xHeapStructSize = (16 + 15) div 16 * 16"
    unfolding xHeapStructSize_def
    by (subst align_down_mod) (simp_all add: sizeof_BlockLink_def heapALIGN_MASK_def portBYTE_ALIGNMENT_def)
  then show ?thesis by simp
qed

lemma sz_add_small: "a + b < 2 ^ 64 \<Longrightarrow> sz_add a b = a + b"
  by (simp add: sz_add_def)

lemma sz_sub_small: "b \<le> a \<Longrightarrow> a < 2 ^ 64 \<Longrightarrow> sz_sub a b = a - b"
proof -
  assume *: "b \<le> a" "a < 2 ^ 64"
  then have "a + 2 ^ 64 - b = (a - b) + 2 ^ 64" by simp
  then show ?thesis unfolding sz_sub_def using * by (simp only: mod_add_self2) simp
qed

section \<open>The free list\<close>

text \<open>A free list is a sequence of address and size, linked from a head to an end address.\<close>

fun flist :: "heap4 \<Rightarrow> nat \<Rightarrow> (nat \<times> nat) list \<Rightarrow> nat \<Rightarrow> bool" where
  "flist h x [] e \<longleftrightarrow> pxNextFreeBlock h x = e"
| "flist h x ((a, s) # fs) e \<longleftrightarrow> pxNextFreeBlock h x = a \<and> xBlockSize h a = s \<and> flist h a fs e"

definition first_of :: "(nat \<times> nat) list \<Rightarrow> nat \<Rightarrow> nat" where
  "first_of fs e = (case fs of [] \<Rightarrow> e | (a, s) # _ \<Rightarrow> a)"

definition last_of :: "nat \<Rightarrow> (nat \<times> nat) list \<Rightarrow> nat" where
  "last_of x fs = (if fs = [] then x else fst (last fs))"

lemma first_of_simps [simp]: "first_of [] e = e" "first_of ((a, s) # fs) e = a"
  by (simp_all add: first_of_def)

lemma last_of_simps [simp]: "last_of x [] = x" "last_of x (fs @ [(a, s)]) = a" "last_of x ((a, s) # fs) = last_of a fs"
  by (simp_all add: last_of_def)

lemma flist_append: "flist h x (ls @ rs) e \<longleftrightarrow> flist h x ls (first_of rs e) \<and> flist h (last_of x ls) rs e"
  by (induction h x ls e rule: flist.induct) (cases rs; auto)+

lemma flist_frame:
  assumes "flist h x fs e" "pxNextFreeBlock h' x = pxNextFreeBlock h x"
    and "\<And>a. a \<in> fst ` set fs \<Longrightarrow> pxNextFreeBlock h' a = pxNextFreeBlock h a \<and> xBlockSize h' a = xBlockSize h a"
  shows "flist h' x fs e"
  using assms by (induction h x fs e rule: flist.induct) auto

lemma flist_next_last: "flist h x fs e \<Longrightarrow> pxNextFreeBlock h (last_of x fs) = e"
  by (induction h x fs e rule: flist.induct) auto

text \<open>Moving the end of a list: only the last link changes.\<close>

lemma flist_retarget:
  assumes "flist h x fs e" "distinct (x # map fst fs)" "pxNextFreeBlock h' (last_of x fs) = e'"
    and "\<And>a. a \<in> set (x # map fst fs) \<Longrightarrow> a \<noteq> last_of x fs \<Longrightarrow> pxNextFreeBlock h' a = pxNextFreeBlock h a"
    and "\<And>a. a \<in> set (map fst fs) \<Longrightarrow> xBlockSize h' a = xBlockSize h a"
  shows "flist h' x fs e'"
  using assms
proof (induction h x fs e rule: flist.induct)
  case (2 h x a s fs e)
  have "last_of a fs \<noteq> x" using "2.prems"(2) by (cases fs rule: rev_cases) (auto simp: last_of_def)
  then have "pxNextFreeBlock h' x = a" using "2.prems" by auto
  moreover have "flist h' a fs e'" using "2.prems" by (intro "2.IH") auto
  ultimately show ?case using "2.prems" by auto
qed simp

fun coalesce :: "(nat \<times> nat) list \<Rightarrow> (nat \<times> nat) list" where
  "coalesce ((x, t) # (y, u) # fs) =
     (if x + t = y then coalesce ((x, t + u) # fs) else (x, t) # coalesce ((y, u) # fs))"
| "coalesce fs = fs"

definition gap :: "nat \<times> nat \<Rightarrow> nat \<times> nat \<Rightarrow> bool" where
  "gap b c \<longleftrightarrow> fst b + snd b < fst c"

lemma coalesce_id: "sorted_wrt gap fs \<Longrightarrow> coalesce fs = fs"
  by (induction fs rule: coalesce.induct) (auto simp: gap_def)

lemma coalesce_left:
  "sorted_wrt gap (ls @ [b]) \<Longrightarrow> coalesce (ls @ b # rs) = ls @ coalesce (b # rs)"
proof (induction ls)
  case (Cons l ls)
  then have IH: "coalesce (ls @ b # rs) = ls @ coalesce (b # rs)" by simp
  have "ls @ b # rs \<noteq> []" by simp
  then obtain c cs where c: "ls @ b # rs = c # cs" by (cases "ls @ b # rs") auto
  then have "c \<in> set (ls @ [b])" by (cases ls) auto
  then have "gap l c" using Cons.prems by auto
  then show ?case using IH c by (cases l; cases c) (auto simp: gap_def)
qed simp

lemma coalesce_right:
  assumes "sorted_wrt gap rs"
  shows "coalesce ((b, s) # rs) =
    (case rs of [] \<Rightarrow> [(b, s)] | (y, u) # rs' \<Rightarrow> if b + s = y then (b, s + u) # rs' else (b, s) # rs)"
proof (cases rs)
  case (Cons r rs')
  obtain y u where r: "r = (y, u)" by (cases r)
  have "sorted_wrt gap ((b, s + u) # rs')" if "b + s = y"
    using assms that unfolding Cons r by (auto simp: gap_def)
  then show ?thesis using assms coalesce_id Cons r by (auto simp: coalesce_id)
qed simp

section \<open>Insertion with merging\<close>

lemma insert_point_stops:
  assumes "flist h x (ls @ rs) e" "x \<noteq> 0" "\<forall>(a, s) \<in> set ls. a < blk \<and> a \<noteq> 0" "\<not> first_of rs e < blk"
  shows "insert_point h blk x = Some (last_of x ls)"
  using assms
proof (induction ls arbitrary: x)
  case Nil
  then show ?case by (cases rs) (subst insert_point.simps; force)+
next
  case (Cons l ls)
  then obtain a s where "l = (a, s)" by (cases l)
  with Cons show ?case by (subst insert_point.simps) auto
qed

text \<open>
  The free list \<^term>\<open>ls @ rs\<close> around a block \<^term>\<open>(a, s)\<close> that is about to become free: sorted with
  gaps, the block between the two parts, everything below the end.
\<close>

definition around :: "nat \<Rightarrow> (nat \<times> nat) list \<Rightarrow> nat \<times> nat \<Rightarrow> (nat \<times> nat) list \<Rightarrow> nat \<Rightarrow> bool" where
  "around X ls b rs E \<longleftrightarrow> sorted_wrt gap ls \<and> sorted_wrt gap rs \<and>
     (\<forall>l \<in> set ls. fst l + snd l \<le> fst b) \<and> (\<forall>r \<in> set rs. fst b + snd b \<le> fst r) \<and>
     (\<forall>c \<in> set (ls @ b # rs). 0 < fst c \<and> 0 < snd c \<and> fst c + snd c \<le> E \<and> fst c \<noteq> X) \<and> E < 2 ^ 64 \<and> X \<noteq> 0"

lemma gap_distinct: "sorted_wrt gap fs \<Longrightarrow> distinct (map fst fs)"
  by (induction fs) (auto simp: gap_def)

lemma around_distinct: "around X ls b rs E \<Longrightarrow> distinct (X # map fst ls @ fst b # map fst rs)"
  unfolding around_def by (auto simp: gap_distinct) force+

text \<open>The header writes of the insertion, once the two merge tests are decided.\<close>

lemma insert_right:
  assumes rs: "sorted_wrt gap rs" "\<forall>r \<in> set rs. fst r + snd r \<le> E \<and> 0 < snd r" and h: "pxEnd h = E" "E < 2 ^ 64" "b + sb \<le> E"
    and nx: "pxNextFreeBlock h it = first_of rs E" "xBlockSize h b = sb"
    and fl: "\<forall>y u rs'. rs = (y, u) # rs' \<longrightarrow> xBlockSize h y = u \<and> pxNextFreeBlock h y = first_of rs' E"
    and le: "\<forall>r \<in> set rs. b + sb \<le> fst r"
  shows "\<exists>sb' R. coalesce ((b, sb) # rs) = (b, sb') # R \<and> (R = rs \<or> (\<exists>c. rs = c # R)) \<and>
    merge_next it b h = set_nextfree b (first_of R E) (set_size b sb' h)"
proof (cases rs)
  case Nil
  then show ?thesis using assms by (auto simp: merge_next_def sz_add_small fun_upd_idem)
next
  case (Cons r rs')
  obtain y u where r: "r = (y, u)" by (cases r)
  have y: "y + u \<le> E" "0 < u" "b + sb \<le> y" "xBlockSize h y = u" "pxNextFreeBlock h y = first_of rs' E"
    "pxNextFreeBlock h it = y" using assms Cons r by auto
  have "sz_add b sb = b + sb" using y h by (intro sz_add_small) linarith
  moreover have "sz_add sb u = sb + u" using y h by (intro sz_add_small) linarith
  ultimately show ?thesis
    using y h nx(2) coalesce_right [OF rs(1), of b sb] Cons r by (auto simp: merge_next_def Let_def fun_upd_idem)
qed

lemma flist_parts:
  assumes "flist h x (ls @ rs) e"
  shows "flist h x ls (first_of rs e)" "pxNextFreeBlock h (last_of x ls) = first_of rs e"
    and "rs = (y, u) # rs' \<Longrightarrow> xBlockSize h y = u \<and> flist h y rs' e \<and> pxNextFreeBlock h y = first_of rs' e"
  using assms flist_next_last [of h x ls "first_of rs e"] by (auto simp: flist_append) (cases rs'; auto)

lemma last_of_in: "last_of x ls \<in> set (x # map fst ls)"
  by (cases ls rule: rev_cases) (auto simp: last_of_def)

text \<open>What the insertion leaves alone: the fields of every other block and the counters.\<close>

definition same_other :: "nat set \<Rightarrow> heap4 \<Rightarrow> heap4 \<Rightarrow> bool" where
  "same_other A h h' \<longleftrightarrow> (\<forall>z. z \<notin> A \<longrightarrow> xBlockSize h' z = xBlockSize h z \<and> pxNextFreeBlock h' z = pxNextFreeBlock h z) \<and>
     pxEnd h' = pxEnd h \<and> xFreeBytesRemaining h' = xFreeBytesRemaining h \<and>
     xMinimumEverFreeBytes h' = xMinimumEverFreeBytes h"

lemma distinct_around:
  assumes "distinct (X # map fst ls @ b # map fst rs)" "R = rs \<or> (\<exists>c. rs = c # R)"
  shows "last_of X ls \<noteq> b" "b \<notin> fst ` set R" "last_of X ls \<notin> fst ` set R" "X \<notin> fst ` set R" "X \<noteq> b"
    "b \<notin> fst ` set ls" "distinct (X # map fst ls)" "fst ` set ls \<inter> fst ` set R = {}"
proof -
  have sub: "fst ` set R \<subseteq> fst ` set rs" using assms(2) by auto
  have l: "last_of X ls \<in> insert X (fst ` set ls)" using last_of_in [of X ls] by simp
  have d: "X \<notin> fst ` set ls" "X \<noteq> b" "X \<notin> fst ` set rs" "b \<notin> fst ` set ls" "b \<notin> fst ` set rs"
    "fst ` set ls \<inter> fst ` set rs = {}" "distinct (X # map fst ls)" using assms(1) by simp_all
  show "last_of X ls \<noteq> b" using l d(2,4) by (metis insertE)
  show "b \<notin> fst ` set R" "X \<notin> fst ` set R" "fst ` set ls \<inter> fst ` set R = {}" using sub d by blast+
  then show "last_of X ls \<notin> fst ` set R" using l by (metis insertE disjoint_iff)
qed (use assms(1) in simp_all)

lemma insert_relink:
  assumes fl: "flist h X (ls @ rs) E" and d: "distinct (X # map fst ls @ b # map fst rs)"
    and R: "R = rs \<or> (\<exists>c. rs = c # R)"
    and h': "pxNextFreeBlock h' = (pxNextFreeBlock h)(b := first_of R E, last_of X ls := b)"
      "xBlockSize h' = (xBlockSize h)(b := sb)"
  shows "flist h' X (ls @ (b, sb) # R) E"
proof -
  note ne = distinct_around(1) [OF d R] and nb = distinct_around(2) [OF d R] and nr = distinct_around(3) [OF d R]
  have "flist h' X ls b"
    by (rule flist_retarget [OF flist_parts(1) [OF fl] distinct_around(7) [OF d R]])
      (use h' distinct_around(5,6) [OF d R] in auto)
  moreover have "flist h' b R E"
  proof (cases R)
    case Nil
    then show ?thesis using h' ne by simp
  next
    case (Cons r R')
    obtain y u where r: "r = (y, u)" by (cases r)
    obtain ks where ks: "rs = ks @ R" using R by (metis append_Cons append_Nil)
    have "xBlockSize h y = u \<and> flist h y R' E"
      using flist_parts(3) [of h X "ls @ ks" R E] fl ks Cons r by simp
    moreover have same: "pxNextFreeBlock h' z = pxNextFreeBlock h z \<and> xBlockSize h' z = xBlockSize h z"
      if "z \<in> fst ` set R" for z
    proof -
      have "z \<noteq> b" "z \<noteq> last_of X ls" using that nb nr by blast+
      then show ?thesis by (simp add: h')
    qed
    moreover have "flist h' y R' E"
      by (rule flist_frame [of h]) (use calculation(1) same Cons r in simp_all)
    ultimately show ?thesis using Cons r h'(1) ne same [of y] by simp
  qed
  ultimately show ?thesis using h' by (simp add: flist_append)
qed

lemma insert_extend:
  assumes fl: "flist h X (ls @ (b, t) # rs) E" and d: "distinct (X # map fst ls @ b # map fst rs)"
    and R: "R = rs \<or> (\<exists>c. rs = c # R)"
    and h': "pxNextFreeBlock h' = (pxNextFreeBlock h)(b := first_of R E)" "xBlockSize h' = (xBlockSize h)(b := sb)"
  shows "flist h' X (ls @ (b, sb) # R) E"
proof -
  let ?h = "h\<lparr>pxNextFreeBlock := (pxNextFreeBlock h)(last_of X ls := first_of rs E)\<rparr>"
  note ne = distinct_around(1) [OF d R]
  have nx: "pxNextFreeBlock h (last_of X ls) = b" using flist_parts(2) [OF fl] by simp
  have "flist ?h X ls (first_of rs E)"
    by (rule flist_retarget [OF flist_parts(1) [OF fl] distinct_around(7) [OF d R]]) simp_all
  moreover have "flist ?h (last_of X ls) rs E"
  proof (cases rs)
    case (Cons r rs')
    obtain y u where r: "r = (y, u)" by (cases r)
    have *: "xBlockSize h y = u \<and> flist h y rs' E"
      using flist_parts(3) [of h X "ls @ [(b, t)]" rs E] fl Cons r by simp
    have nl: "last_of X ls \<notin> fst ` set rs" using distinct_around(3) [OF d] by blast
    have "flist ?h y rs' E"
    proof (rule flist_frame [of h])
      show "flist h y rs' E" using * by simp
      have "y \<noteq> last_of X ls" using nl Cons r by force
      then show "pxNextFreeBlock ?h y = pxNextFreeBlock h y" by simp
      fix z
      assume "z \<in> fst ` set rs'"
      then have "z \<noteq> last_of X ls" using nl Cons by force
      then show "pxNextFreeBlock ?h z = pxNextFreeBlock h z \<and> xBlockSize ?h z = xBlockSize h z" by simp
    qed
    then show ?thesis using * Cons r by simp
  qed simp
  ultimately have "flist ?h X (ls @ rs) E" by (simp add: flist_append)
  then show ?thesis
  proof (rule insert_relink [OF _ d R])
    show "pxNextFreeBlock h' = (pxNextFreeBlock ?h)(b := first_of R E, last_of X ls := b)"
      using nx ne by (auto simp: h' fun_eq_iff)
  qed (simp add: h')
qed

lemma insert_free:
  assumes fl: "flist h X (ls @ rs) E" and ar: "around X ls (a, s) rs E"
    and X: "X = xStart lay" "xBlockSize h X = 0" "X < 2 ^ 64" and h: "pxEnd h = E" "xBlockSize h a = s"
  obtains h' where "prvInsertBlockIntoFreeList lay a h = Some h'"
    "flist h' X (coalesce (ls @ (a, s) # rs)) E" "same_other ({X, a} \<union> fst ` set ls) h h'" "xBlockSize h' X = 0"
proof -
  have d: "distinct (X # map fst ls @ a # map fst rs)" using around_distinct [OF ar] by simp
  have ar': "sorted_wrt gap ls" "sorted_wrt gap rs" "\<forall>l \<in> set ls. fst l + snd l \<le> a" "\<forall>r \<in> set rs. a + s \<le> fst r"
    "E < 2 ^ 64" "X \<noteq> 0" "0 < s" "a + s \<le> E" "X \<noteq> a" "0 < a"
    "\<forall>c \<in> set (ls @ rs). 0 < fst c \<and> 0 < snd c \<and> fst c + snd c \<le> E" using ar by (auto simp: around_def)
  have it: "insert_point h a (xStart lay) = Some (last_of X ls)"
    unfolding X(1) [symmetric]
  proof (rule insert_point_stops [OF fl])
    show "\<not> first_of rs E < a" using ar' by (cases rs) auto
  qed (use ar' in force)+
  have szX: "xBlockSize h' X = 0" if "same_other A h h'" "X \<notin> A" for h' A using that X(2) by (simp add: same_other_def)
  have right: "\<forall>y u rs'. rs = (y, u) # rs' \<longrightarrow> xBlockSize h y = u \<and> pxNextFreeBlock h y = first_of rs' E"
    using flist_parts(3) [OF fl] by blast
  show thesis
  proof (cases "\<exists>L x t. ls = L @ [(x, t)] \<and> x + t = a")
    case True
    then obtain L x t where L: "ls = L @ [(x, t)]" "x + t = a" by blast
    let ?h1 = "set_size x (t + s) h"
    have x: "xBlockSize h x = t" "x < a" "0 < t"
      using flist_parts(3) [of h X L "(x, t) # rs" E x t rs] fl L ar' by auto
    have dx: "distinct (X # map fst L @ x # map fst rs)" using d L by simp
    have xr: "x \<notin> fst ` set rs" using dx by simp
    have add: "sz_add x t = a" "sz_add t s = t + s" using x L ar' by (auto intro!: sz_add_small)
    have "\<exists>sb R. coalesce ((x, t + s) # rs) = (x, sb) # R \<and> (R = rs \<or> (\<exists>c. rs = c # R)) \<and>
        merge_next x x ?h1 = set_nextfree x (first_of R E) (set_size x sb ?h1)"
      by (rule insert_right) (use ar' L x h right xr flist_parts(2) [OF fl] in auto)
    then obtain sb R where R: "coalesce ((x, t + s) # rs) = (x, sb) # R" "R = rs \<or> (\<exists>c. rs = c # R)"
      "merge_next x x ?h1 = set_nextfree x (first_of R E) (set_size x sb ?h1)" by blast
    let ?h' = "set_nextfree x (first_of R E) (set_size x sb ?h1)"
    have "prvInsertBlockIntoFreeList lay a h = Some ?h'"
      unfolding prvInsertBlockIntoFreeList_def it using L x add h R(3) by simp
    moreover have "flist ?h' X (L @ (x, sb) # R) E"
      using fl L by (intro insert_extend [of h X L x t rs E R] dx R(2)) auto
    moreover have "coalesce (ls @ (a, s) # rs) = L @ (x, sb) # R"
    proof -
      have "coalesce (L @ (x, t) # (a, s) # rs) = L @ coalesce ((x, t) # (a, s) # rs)"
        using ar'(1) L by (intro coalesce_left) simp
      then show ?thesis using L R(1) by simp
    qed
    moreover have "same_other {x} h ?h'" by (simp add: same_other_def)
    ultimately show thesis
      using that [of ?h'] L szX [of "{x}" ?h'] dx by (auto simp: same_other_def)
  next
    case False
    have left: "sz_add (last_of X ls) (xBlockSize h (last_of X ls)) \<noteq> a"
    proof (cases ls rule: rev_cases)
      case Nil
      then show ?thesis using X ar' by (simp add: sz_add_small)
    next
      case (snoc L l)
      obtain x t where l: "l = (x, t)" by (cases l)
      have "xBlockSize h x = t" using flist_parts(3) [of h X L "(x, t) # rs" E x t rs] fl snoc l by simp
      moreover have "x + t < 2 ^ 64" using ar' snoc l by auto
      ultimately show ?thesis using False snoc l by (auto simp: sz_add_small)
    qed
    have ne: "last_of X ls \<noteq> a" using distinct_around(1) [OF d] by blast
    obtain sb R where R: "coalesce ((a, s) # rs) = (a, sb) # R" "R = rs \<or> (\<exists>c. rs = c # R)"
      "merge_next (last_of X ls) a h = set_nextfree a (first_of R E) (set_size a sb h)"
      using insert_right [of rs E h a s "last_of X ls"] ar' h right flist_parts(2) [OF fl] by auto
    let ?h' = "set_nextfree (last_of X ls) a (set_nextfree a (first_of R E) (set_size a sb h))"
    have "prvInsertBlockIntoFreeList lay a h = Some ?h'"
      unfolding prvInsertBlockIntoFreeList_def it using left ne R(3) by simp
    moreover have "flist ?h' X (ls @ (a, sb) # R) E"
      by (rule insert_relink [OF fl d R(2)]) auto
    moreover have "coalesce (ls @ (a, s) # rs) = ls @ (a, sb) # R"
    proof -
      have "gap l (a, s)" if inls: "l \<in> set ls" for l
      proof -
        obtain us vs where ls: "ls = us @ l # vs" using split_list [OF inls] by blast
        show ?thesis
        proof (cases vs)
          case Nil
          then show ?thesis using False ls ar'(3) inls by (cases l) (force simp: gap_def)
        next
          case (Cons v vs')
          then have "gap l v" "fst v + snd v \<le> a" using ls ar'(1,3) by (auto simp: sorted_wrt_append)
          then show ?thesis by (auto simp: gap_def)
        qed
      qed
      then show ?thesis using coalesce_left [of ls "(a, s)" rs] ar'(1) R(1) by (simp add: sorted_wrt_append)
    qed
    moreover have "same_other ({X, a} \<union> fst ` set ls) h ?h'"
      using last_of_in [of X ls] by (auto simp: same_other_def)
    ultimately show thesis using that [of ?h'] X(2) ar'(9) by simp
  qed
qed

section \<open>The invariant\<close>

definition heap_lo :: "heap_layout \<Rightarrow> nat" where
  "heap_lo lay = (ucHeap lay + 15) div 16 * 16"

definition heap_hi :: "heap_layout \<Rightarrow> nat" where
  "heap_hi lay = (ucHeap lay + configTOTAL_HEAP_SIZE - 16) div 16 * 16"

text \<open>The pool is a real object below \<^term>\<open>(2::nat) ^ 63\<close>, and the list head is another one outside it.\<close>

definition layout_ok :: "heap_layout \<Rightarrow> bool" where
  "layout_ok lay \<longleftrightarrow> 0 < ucHeap lay \<and> ucHeap lay + configTOTAL_HEAP_SIZE < 2 ^ 63 \<and> 0 < xStart lay \<and>
     xStart lay < 2 ^ 63 \<and> (xStart lay + 16 \<le> ucHeap lay \<or> ucHeap lay + configTOTAL_HEAP_SIZE \<le> xStart lay)"

definition in_pool :: "heap_layout \<Rightarrow> nat \<times> nat \<Rightarrow> bool" where
  "in_pool lay c \<longleftrightarrow> heap_lo lay \<le> fst c \<and> fst c + snd c \<le> heap_hi lay \<and> fst c mod 16 = 0 \<and> snd c mod 16 = 0 \<and> 0 < snd c"

text \<open>
  The free blocks \<^term>\<open>fs\<close> in the order of the list and the allocated blocks \<^term>\<open>A\<close>: pairwise
  disjoint, together the whole pool, free neighbours merged, counters exact.
\<close>

definition heap_inv :: "heap_layout \<Rightarrow> heap4 \<Rightarrow> (nat \<times> nat) list \<Rightarrow> (nat \<times> nat) set \<Rightarrow> bool" where
  "heap_inv lay h fs A \<longleftrightarrow>
     pxEnd h = heap_hi lay \<and> flist h (xStart lay) fs (heap_hi lay) \<and> xBlockSize h (xStart lay) = 0 \<and>
     pxNextFreeBlock h (heap_hi lay) = 0 \<and> xBlockSize h (heap_hi lay) = 0 \<and>
     sorted_wrt gap fs \<and> finite A \<and> (\<forall>c \<in> A. xBlockSize h (fst c) = snd c + 2 ^ 63) \<and>
     (\<forall>c \<in> set fs \<union> A. in_pool lay c) \<and>
     (\<forall>c \<in> A. \<forall>d \<in> set fs. disj c d) \<and> (\<forall>c \<in> A. \<forall>d \<in> A. c \<noteq> d \<longrightarrow> disj c d) \<and>
     sum_list (map snd fs) + sum snd A = heap_hi lay - heap_lo lay \<and>
     xFreeBytesRemaining h = sum_list (map snd fs) \<and> xMinimumEverFreeBytes h \<le> xFreeBytesRemaining h"

lemma heap_bounds:
  assumes "layout_ok lay"
  shows "0 < heap_lo lay" "heap_lo lay < heap_hi lay" "heap_hi lay + 16 < 2 ^ 63" "heap_lo lay mod 16 = 0"
    "heap_hi lay mod 16 = 0" "ucHeap lay \<le> heap_lo lay" "heap_hi lay + 16 \<le> ucHeap lay + configTOTAL_HEAP_SIZE"
proof -
  have *: "0 < ucHeap lay" "ucHeap lay + 1048576 < 2 ^ 63" using assms by (auto simp: layout_ok_def configTOTAL_HEAP_SIZE_def)
  have lo: "ucHeap lay \<le> heap_lo lay" "heap_lo lay \<le> ucHeap lay + 15" unfolding heap_lo_def by linarith+
  have hi: "heap_hi lay \<le> ucHeap lay + 1048576 - 16" "ucHeap lay + 1048576 - 31 \<le> heap_hi lay"
    unfolding heap_hi_def configTOTAL_HEAP_SIZE_def by simp_all
  show "0 < heap_lo lay" "ucHeap lay \<le> heap_lo lay" using lo * by simp_all
  show "heap_lo lay < heap_hi lay" using lo hi by linarith
  show "heap_hi lay + 16 < 2 ^ 63" "heap_hi lay + 16 \<le> ucHeap lay + configTOTAL_HEAP_SIZE"
    using hi * by (simp_all add: configTOTAL_HEAP_SIZE_def)
  show "heap_lo lay mod 16 = 0" "heap_hi lay mod 16 = 0" by (simp_all add: heap_lo_def heap_hi_def)
qed

lemma xStart_outside:
  assumes "layout_ok lay" "heap_lo lay \<le> a" "a \<le> heap_hi lay"
  shows "a \<noteq> xStart lay"
  using assms heap_bounds [OF assms(1)] by (auto simp: layout_ok_def)

section \<open>Initialisation\<close>

lemma round_up_aligned: "u mod 16 = 0 \<Longrightarrow> (u + 15) div 16 * 16 = (u :: nat)"
proof -
  assume "u mod 16 = 0"
  then obtain k where "u = 16 * k" by (metis mod_eq_0_iff_dvd dvdE)
  then show ?thesis by simp
qed

lemma initialise_start:
  assumes lay: "layout_ok lay"
  shows "(if ucHeap lay AND heapALIGN_MASK \<noteq> 0
            then (let a = sz_add (ucHeap lay) heapALIGN_MASK AND sz_not heapALIGN_MASK
                  in (a, sz_sub configTOTAL_HEAP_SIZE (sz_sub a (ucHeap lay))))
            else (ucHeap lay, configTOTAL_HEAP_SIZE)) =
         (heap_lo lay, configTOTAL_HEAP_SIZE - (heap_lo lay - ucHeap lay))"
proof (cases "ucHeap lay mod 16 = 0")
  case True
  then have "heap_lo lay = ucHeap lay" unfolding heap_lo_def by (rule round_up_aligned)
  then show ?thesis using True by (simp add: align_mask_mod)
next
  case False
  note b = heap_bounds [OF lay]
  have small: "ucHeap lay + 15 < 2 ^ 64" using lay by (simp add: layout_ok_def)
  then have "sz_add (ucHeap lay) heapALIGN_MASK = ucHeap lay + 15"
    by (simp add: sz_add_def heapALIGN_MASK_def portBYTE_ALIGNMENT_def)
  then have "sz_add (ucHeap lay) heapALIGN_MASK AND sz_not heapALIGN_MASK = heap_lo lay"
    using align_down_mod [OF small] by (simp only: heap_lo_def)
  moreover have "sz_sub (heap_lo lay) (ucHeap lay) = heap_lo lay - ucHeap lay"
    using b(2,3,6) by (intro sz_sub_small) simp_all
  moreover have "sz_sub configTOTAL_HEAP_SIZE (heap_lo lay - ucHeap lay) = configTOTAL_HEAP_SIZE - (heap_lo lay - ucHeap lay)"
    using b(2,7) by (intro sz_sub_small) (linarith, simp add: configTOTAL_HEAP_SIZE_def)
  ultimately show ?thesis using False by (simp only: align_mask_mod Let_def if_True simp_thms)
qed

lemma initialise_end:
  assumes lay: "layout_ok lay"
  shows "sz_sub (sz_add (heap_lo lay) (configTOTAL_HEAP_SIZE - (heap_lo lay - ucHeap lay))) xHeapStructSize
    AND sz_not heapALIGN_MASK = heap_hi lay"
proof -
  note b = heap_bounds [OF lay]
  have u: "ucHeap lay + configTOTAL_HEAP_SIZE < 2 ^ 64" "16 \<le> configTOTAL_HEAP_SIZE"
    using lay by (simp_all add: layout_ok_def configTOTAL_HEAP_SIZE_def)
  have "heap_lo lay + (configTOTAL_HEAP_SIZE - (heap_lo lay - ucHeap lay)) = ucHeap lay + configTOTAL_HEAP_SIZE"
    using b by linarith
  then have "sz_add (heap_lo lay) (configTOTAL_HEAP_SIZE - (heap_lo lay - ucHeap lay)) = ucHeap lay + configTOTAL_HEAP_SIZE"
    using u(1) by (simp only: sz_add_def mod_less)
  moreover have "sz_sub (ucHeap lay + configTOTAL_HEAP_SIZE) 16 = ucHeap lay + configTOTAL_HEAP_SIZE - 16"
    using u by (intro sz_sub_small) linarith+
  moreover have "ucHeap lay + configTOTAL_HEAP_SIZE - 16 < 2 ^ 64" using u by linarith
  ultimately show ?thesis by (simp only: struct_size align_down_mod heap_hi_def)
qed

lemma initialise_value:
  assumes lay: "layout_ok lay"
  shows "vPortInitialiseBlocks lay h = h\<lparr>
     pxNextFreeBlock := (pxNextFreeBlock h)(xStart lay := heap_lo lay, heap_hi lay := 0, heap_lo lay := heap_hi lay),
     xBlockSize := (xBlockSize h)(xStart lay := 0, heap_hi lay := 0, heap_lo lay := heap_hi lay - heap_lo lay),
     pxEnd := heap_hi lay, xFreeBytesRemaining := heap_hi lay - heap_lo lay,
     xMinimumEverFreeBytes := heap_hi lay - heap_lo lay\<rparr>"
proof -
  note b = heap_bounds [OF lay]
  have sz: "sz_sub (heap_hi lay) (heap_lo lay) = heap_hi lay - heap_lo lay"
    using b(2,3) by (intro sz_sub_small) simp_all
  show ?thesis
    unfolding vPortInitialiseBlocks_def
    by (subst Let_def, subst Let_def, subst initialise_start [OF lay], simp add: Let_def)
      (simp add: initialise_end [OF lay] sz)
qed

lemma initialise_eq:
  assumes lay: "layout_ok lay"
  shows "heap_inv lay (vPortInitialiseBlocks lay h) [(heap_lo lay, heap_hi lay - heap_lo lay)] {}"
proof -
  note b = heap_bounds [OF lay]
  have ne: "xStart lay \<noteq> heap_lo lay" "xStart lay \<noteq> heap_hi lay" "heap_lo lay \<noteq> heap_hi lay"
    using xStart_outside [OF lay, of "heap_lo lay"] xStart_outside [OF lay, of "heap_hi lay"] b(2) by auto
  have "in_pool lay (heap_lo lay, heap_hi lay - heap_lo lay)"
    using b(2,4,5) by (simp add: in_pool_def mod_eq_0_iff_dvd dvd_diff_nat)
  then show ?thesis
    unfolding heap_inv_def initialise_value [OF lay] using ne by simp
qed

section \<open>First fit\<close>

lemma first_fit_finds:
  assumes "flist h x (ls @ (a, s) # rs) e" "\<forall>c \<in> set ls. snd c < want" "want \<le> s" "e \<noteq> 0" "a \<noteq> 0" "\<forall>c \<in> set ls. fst c \<noteq> 0"
  shows "first_fit h want x (pxNextFreeBlock h x) = Some (last_of x ls, a)"
  using assms
proof (induction ls arbitrary: x)
  case Nil
  then show ?case by (subst first_fit.simps) auto
next
  case (Cons l ls)
  obtain b t where l: "l = (b, t)" by (cases l)
  have "pxNextFreeBlock h b \<noteq> 0" using Cons.prems l by (cases ls) auto
  then show ?case using Cons l by (subst first_fit.simps) auto
qed

lemma first_fit_fails:
  assumes "flist h x fs e" "\<forall>c \<in> set fs. snd c < want" "e \<noteq> 0" "pxNextFreeBlock h e = 0" "\<forall>c \<in> set fs. fst c \<noteq> 0"
  shows "\<exists>p. first_fit h want x (pxNextFreeBlock h x) = Some (p, e)"
  using assms
proof (induction fs arbitrary: x)
  case Nil
  then show ?case by (subst first_fit.simps) auto
next
  case (Cons l fs)
  obtain b t where l: "l = (b, t)" by (cases l)
  have "pxNextFreeBlock h b \<noteq> 0" using Cons.prems l by (cases fs) auto
  then show ?case using Cons l by (subst first_fit.simps) auto
qed

lemma flist_unlink:
  assumes fl: "flist h X (ls @ (a, s) # rs) E" and d: "distinct (X # map fst ls @ a # map fst rs)"
    and h': "pxNextFreeBlock h' = (pxNextFreeBlock h)(last_of X ls := pxNextFreeBlock h a)"
    and sz: "\<And>z. z \<noteq> a \<Longrightarrow> z \<in> fst ` set (ls @ rs) \<Longrightarrow> xBlockSize h' z = xBlockSize h z"
  shows "flist h' X (ls @ rs) E"
proof -
  have nx: "pxNextFreeBlock h a = first_of rs E" "pxNextFreeBlock h (last_of X ls) = a"
    using flist_parts(3) [OF fl] flist_parts(2) [OF fl] by simp_all
  note da = distinct_around [OF d, of rs, simplified]
  have "flist h' X ls (first_of rs E)"
  proof (rule flist_retarget [OF flist_parts(1) [OF fl]])
    fix z
    assume z: "z \<in> set (map fst ls)"
    then have "z \<noteq> a" using da(6) by (metis list.set_map)
    then show "xBlockSize h' z = xBlockSize h z" using z by (intro sz) auto
  qed (use da h' nx in simp_all)
  moreover have "flist h' (last_of X ls) rs E"
  proof (cases rs)
    case (Cons r rs')
    obtain y u where r: "r = (y, u)" by (cases r)
    have *: "xBlockSize h y = u \<and> flist h y rs' E"
      using flist_parts(3) [of h X "ls @ [(a, s)]" rs E] fl Cons r by simp
    have ne: "z \<noteq> last_of X ls \<and> z \<noteq> a" if "z \<in> fst ` set rs" for z using that da(2,3) by blast
    have "flist h' y rs' E"
    proof (rule flist_frame [of h])
      show "flist h y rs' E" using * by simp
      show "pxNextFreeBlock h' y = pxNextFreeBlock h y" using ne [of y] Cons r h' by simp
      fix z
      assume "z \<in> fst ` set rs'"
      then show "pxNextFreeBlock h' z = pxNextFreeBlock h z \<and> xBlockSize h' z = xBlockSize h z"
        using ne [of z] Cons h' sz [of z] by (simp add: image_Un)
    qed
    then show ?thesis using * Cons r h' nx sz [of y] ne [of y] by (simp add: image_Un)
  qed (use h' nx in simp)
  ultimately show ?thesis by (simp add: flist_append)
qed

section \<open>Merging keeps the invariant\<close>

lemma coalesce_heads: "fst ` set (coalesce fs) \<subseteq> fst ` set fs"
  by (induction fs rule: coalesce.induct) auto

lemma coalesce_sorted:
  "sorted_wrt (\<lambda>c d. fst c + snd c \<le> fst d) fs \<Longrightarrow> \<forall>c \<in> set fs. 0 < snd c \<Longrightarrow> sorted_wrt gap (coalesce fs)"
proof (induction fs rule: coalesce.induct)
  case (1 x t y u fs)
  show ?case
  proof (cases "x + t = y")
    case True
    then show ?thesis using 1 by (auto simp: add.assoc)
  next
    case False
    have lt: "x + t < z" if "z \<in> fst ` set ((y, u) # fs)" for z
      using that "1.prems" False by fastforce
    have "sorted_wrt gap (coalesce ((y, u) # fs))" using 1 False by auto
    moreover have "gap (x, t) c" if "c \<in> set (coalesce ((y, u) # fs))" for c
      unfolding gap_def using lt [of "fst c"] coalesce_heads [of "(y, u) # fs"] that by auto
    ultimately show ?thesis using False by simp
  qed
qed auto

lemma coalesce_sum: "sum_list (map snd (coalesce fs)) = sum_list (map snd fs)"
  by (induction fs rule: coalesce.induct) auto

text \<open>A property of blocks that merging two contiguous ones keeps holds of the merged list.\<close>

lemma coalesce_all:
  assumes "\<And>x t u. P (x, t) \<Longrightarrow> P (x + t, u) \<Longrightarrow> P (x, t + u)"
  shows "\<forall>c \<in> set fs. P c \<Longrightarrow> \<forall>c \<in> set (coalesce fs). P c"
proof (induction fs rule: coalesce.induct)
  case (1 x t y u fs)
  then show ?case using assms [of x t u] by (cases "x + t = y") simp_all
qed auto

lemma coalesce_pool: "\<forall>c \<in> set fs. in_pool lay c \<Longrightarrow> \<forall>c \<in> set (coalesce fs). in_pool lay c"
  by (rule coalesce_all) (auto simp: in_pool_def mod_eq_0_iff_dvd)

lemma coalesce_disj: "0 < snd c \<Longrightarrow> \<forall>d \<in> set fs. disj c d \<Longrightarrow> \<forall>d \<in> set (coalesce fs). disj c d"
  by (rule coalesce_all) (auto simp: disj_def)

section \<open>Allocation\<close>

lemma heap_invD:
  assumes "heap_inv lay h fs A"
  shows "pxEnd h = heap_hi lay" "flist h (xStart lay) fs (heap_hi lay)" "xBlockSize h (xStart lay) = 0"
    "pxNextFreeBlock h (heap_hi lay) = 0" "xBlockSize h (heap_hi lay) = 0" "sorted_wrt gap fs" "finite A"
    "c \<in> A \<Longrightarrow> xBlockSize h (fst c) = snd c + 2 ^ 63" "c \<in> set fs \<Longrightarrow> in_pool lay c" "c \<in> A \<Longrightarrow> in_pool lay c"
    "c \<in> A \<Longrightarrow> d \<in> set fs \<Longrightarrow> disj c d" "c \<in> A \<Longrightarrow> d \<in> A \<Longrightarrow> c \<noteq> d \<Longrightarrow> disj c d"
    "sum_list (map snd fs) + sum snd A = heap_hi lay - heap_lo lay"
    "xFreeBytesRemaining h = sum_list (map snd fs)" "xMinimumEverFreeBytes h \<le> xFreeBytesRemaining h"
  using assms unfolding heap_inv_def by blast+

lemma heap_invI:
  assumes "pxEnd h = heap_hi lay" "flist h (xStart lay) fs (heap_hi lay)" "xBlockSize h (xStart lay) = 0"
    "pxNextFreeBlock h (heap_hi lay) = 0" "xBlockSize h (heap_hi lay) = 0" "sorted_wrt gap fs" "finite A"
    "\<And>c. c \<in> A \<Longrightarrow> xBlockSize h (fst c) = snd c + 2 ^ 63" "\<And>c. c \<in> set fs \<Longrightarrow> in_pool lay c" "\<And>c. c \<in> A \<Longrightarrow> in_pool lay c"
    "\<And>c d. c \<in> A \<Longrightarrow> d \<in> set fs \<Longrightarrow> disj c d" "\<And>c d. c \<in> A \<Longrightarrow> d \<in> A \<Longrightarrow> c \<noteq> d \<Longrightarrow> disj c d"
    "sum_list (map snd fs) + sum snd A = heap_hi lay - heap_lo lay"
    "xFreeBytesRemaining h = sum_list (map snd fs)" "xMinimumEverFreeBytes h \<le> xFreeBytesRemaining h"
  shows "heap_inv lay h fs A"
  using assms unfolding heap_inv_def by blast

lemma notin_addrs: "(\<And>c. c \<in> S \<Longrightarrow> fst c \<noteq> e) \<Longrightarrow> e \<notin> fst ` S"
  by (metis imageE)

lemma in_pool_addr:
  assumes "layout_ok lay" "in_pool lay c"
  shows "fst c \<noteq> xStart lay" "fst c \<noteq> heap_hi lay" "fst c \<noteq> 0" "0 < snd c" "snd c < 2 ^ 63" "fst c + snd c < 2 ^ 63"
  using assms xStart_outside [OF assms(1), of "fst c"] heap_bounds [OF assms(1)] by (auto simp: in_pool_def)

lemma block_request_eq:
  assumes "n < 2 ^ 63"
  shows "block_request n mod 16 = 0" "n + 16 \<le> block_request n" "block_request n < n + 32"
proof -
  let ?w = "n + 16"
  have w: "sz_add n xHeapStructSize = ?w" using assms by (simp add: struct_size sz_add_small)
  have small: "?w + 16 < 2 ^ 64" using assms by simp
  have "block_request n = (if ?w mod 16 \<noteq> 0 then ?w + (16 - ?w mod 16) else ?w)"
  proof (cases "?w mod 16 = 0")
    case False
    have "sz_add ?w (16 - ?w mod 16) = ?w + (16 - ?w mod 16)" using small by (intro sz_add_small) linarith
    then show ?thesis using False
      unfolding block_request_def w Let_def align_mask_mod portBYTE_ALIGNMENT_def by simp
  qed (simp add: block_request_def w Let_def align_mask_mod)
  moreover have "(?w + (16 - ?w mod 16)) mod 16 = 0" by presburger
  moreover have "?w mod 16 < 16" by simp
  ultimately show "block_request n mod 16 = 0" "n + 16 \<le> block_request n" "block_request n < n + 32"
    by (cases "?w mod 16 = 0"; simp)+
qed

text \<open>Sorted free blocks in the pool around one of them.\<close>

lemma inv_around:
  assumes lay: "layout_ok lay" and fs: "sorted_wrt gap (ls @ (a, s) # rs)" "\<And>c. c \<in> set (ls @ (a, s) # rs) \<Longrightarrow> in_pool lay c"
  shows "around (xStart lay) ls (a, s) rs (heap_hi lay)" "distinct (xStart lay # map fst ls @ a # map fst rs)"
proof -
  have sw: "sorted_wrt gap ls" "sorted_wrt gap rs" "\<And>l. l \<in> set ls \<Longrightarrow> gap l (a, s)" "\<And>r. r \<in> set rs \<Longrightarrow> gap (a, s) r"
    using fs(1) by (simp_all add: sorted_wrt_append)
  have pool: "0 < fst c \<and> 0 < snd c \<and> fst c + snd c \<le> heap_hi lay \<and> fst c \<noteq> xStart lay"
    if "c \<in> set (ls @ (a, s) # rs)" for c
    using in_pool_addr [OF lay fs(2) [OF that]] fs(2) [OF that] by (simp add: in_pool_def)
  have X: "xStart lay \<noteq> 0" "heap_hi lay < 2 ^ 64" using lay heap_bounds(3) [OF lay] by (simp_all add: layout_ok_def)
  show *: "around (xStart lay) ls (a, s) rs (heap_hi lay)"
    unfolding around_def
  proof (intro conjI ballI)
    fix l assume "l \<in> set ls"
    then show "fst l + snd l \<le> fst (a, s)" using sw(3) [of l] by (simp add: gap_def)
  next
    fix r assume "r \<in> set rs"
    then show "fst (a, s) + snd (a, s) \<le> fst r" using sw(4) [of r] by (simp add: gap_def)
  qed (use sw pool X in blast)+
  show "distinct (xStart lay # map fst ls @ a # map fst rs)" using around_distinct [OF *] by simp
qed

lemma seal_fields:
  "pxEnd (seal a h) = pxEnd h" "pxNextFreeBlock (seal a h) = (pxNextFreeBlock h)(a := 0)"
  "xBlockSize (seal a h) = (xBlockSize h)(a := xBlockSize h a OR heapALLOC_BIT)"
  "xFreeBytesRemaining (seal a h) = sz_sub (xFreeBytesRemaining h) (xBlockSize h a)"
  "xMinimumEverFreeBytes (seal a h) \<le> xFreeBytesRemaining (seal a h)"
  by (simp_all add: seal_def Let_def)

lemma seal_inv:
  assumes lay: "layout_ok lay" and inv: "heap_inv lay h fs A" and a: "in_pool lay (a, t)"
    and fs': "sorted_wrt gap fs'" "\<And>c. c \<in> set fs' \<Longrightarrow> in_pool lay c \<and> disj (a, t) c \<and> (\<forall>d \<in> A. disj d c)"
    and disj: "\<And>d. d \<in> A \<Longrightarrow> disj (a, t) d"
    and sum: "sum_list (map snd fs') + t = sum_list (map snd fs)"
    and h': "flist h' (xStart lay) fs' (heap_hi lay)" "xBlockSize h' a = t" "xBlockSize h' (xStart lay) = 0"
      "same_other C h h'" "heap_hi lay \<notin> C" "\<And>d. d \<in> A \<Longrightarrow> fst d \<notin> C"
  shows "heap_inv lay (seal a h') fs' (insert (a, t) A)"
proof -
  note D = heap_invD [OF inv] and pa = in_pool_addr [OF lay a, simplified]
  have other: "pxEnd h' = pxEnd h" "xFreeBytesRemaining h' = xFreeBytesRemaining h"
    "xMinimumEverFreeBytes h' = xMinimumEverFreeBytes h" "pxNextFreeBlock h' (heap_hi lay) = 0" "xBlockSize h' (heap_hi lay) = 0"
    "\<And>d. d \<in> A \<Longrightarrow> xBlockSize h' (fst d) = snd d + 2 ^ 63"
    using h' D by (auto simp: same_other_def)
  have sub: "sz_sub (xFreeBytesRemaining h') t = sum_list (map snd fs')"
  proof -
    have "sum_list (map snd fs) \<le> heap_hi lay - heap_lo lay" using D(13) by linarith
    then have "xFreeBytesRemaining h' < 2 ^ 64" using other D(14) heap_bounds(3) [OF lay] by simp
    then show ?thesis using sum other(2) D(14) by (subst sz_sub_small) simp_all
  qed
  have or: "t OR heapALLOC_BIT = t + 2 ^ 63" using pa by (simp add: alloc_bit_set)
  have ne: "fst c \<noteq> a" if "disj (a, t) c" "in_pool lay c" for c
    using disj_ne [OF that(1)] pa in_pool_addr(4) [OF lay that(2)] by auto
  have nfs: "a \<notin> fst ` set fs'" by (rule notin_addrs) (use ne fs'(2) in blast)
  have nA: "(a, t) \<notin> A" "\<And>d. d \<in> A \<Longrightarrow> fst d \<noteq> a" using ne disj D(10) by (metis fst_conv)+
  have fl: "flist (seal a h') (xStart lay) fs' (heap_hi lay)"
    by (rule flist_frame [OF h'(1)]) (use pa nfs in \<open>auto simp: seal_fields\<close>)
  show ?thesis
  proof (rule heap_invI)
    show "flist (seal a h') (xStart lay) fs' (heap_hi lay)" by (rule fl)
    fix c
    assume c: "c \<in> insert (a, t) A"
    show "xBlockSize (seal a h') (fst c) = snd c + 2 ^ 63"
    proof (cases "c = (a, t)")
      case True
      then show ?thesis using or h'(2) by (simp add: seal_fields)
    next
      case False
      then have "c \<in> A" using c by simp
      then show ?thesis using other(6) [of c] nA(2) [of c] by (simp add: seal_fields)
    qed
    show "in_pool lay c" using c a D(10) by blast
    show "\<And>d. d \<in> set fs' \<Longrightarrow> disj c d" using c fs'(2) by blast
    show "\<And>d. d \<in> insert (a, t) A \<Longrightarrow> c \<noteq> d \<Longrightarrow> disj c d" using c disj disj_sym D(12) by blast
  next
    show "sum_list (map snd fs') + sum snd (insert (a, t) A) = heap_hi lay - heap_lo lay"
      using D(7,13) sum nA(1) by simp
    show "xBlockSize (seal a h') (xStart lay) = 0" "pxNextFreeBlock (seal a h') (heap_hi lay) = 0"
      "xBlockSize (seal a h') (heap_hi lay) = 0" using pa(1,2) h'(3) other by (simp_all add: seal_fields)
    show "xFreeBytesRemaining (seal a h') = sum_list (map snd fs')" using sub h'(2) by (simp add: seal_fields)
    show "xMinimumEverFreeBytes (seal a h') \<le> xFreeBytesRemaining (seal a h')" by (rule seal_fields(5))
  qed (use D(1,7) fs' other(1) in \<open>simp_all add: seal_fields\<close>)
qed

lemma take_block_ok:
  assumes lay: "layout_ok lay" and inv: "heap_inv lay h (ls @ (a, s) # rs) A"
    and w: "want \<le> s" "want mod 16 = 0" "0 < want"
  obtains h' t fs' where "take_block lay want (last_of (xStart lay) ls) a h = Some (a + 16, h')"
    "heap_inv lay h' fs' (insert (a, t) A)" "want \<le> t" "(a, t) \<notin> A" "\<And>d. d \<in> A \<Longrightarrow> disj (a, t) d"
    "t = s \<and> fs' = ls @ rs \<and> s \<le> want + 32 \<or> t = want \<and> fs' = ls @ (a + want, s - want) # rs \<and> want + 32 < s"
proof -
  note D = heap_invD [OF inv]
  let ?X = "xStart lay" and ?E = "heap_hi lay"
  have as: "in_pool lay (a, s)" by (rule D(9)) simp
  note pa = in_pool_addr [OF lay as, simplified]
  have ard: "distinct (?X # map fst ls @ a # map fst rs)" by (rule inv_around(2) [OF lay D(6) D(9)])
  let ?h1 = "set_nextfree (last_of ?X ls) (pxNextFreeBlock h a) h"
  have sa: "xBlockSize h a = s" "pxNextFreeBlock h (last_of ?X ls) = a"
    using flist_parts(2,3) [OF D(2)] by simp_all
  have ret: "sz_add (pxNextFreeBlock h (last_of ?X ls)) xHeapStructSize = a + 16"
    using sa(2) pa(6) by (simp add: struct_size sz_add_small)
  have fl1: "flist ?h1 ?X (ls @ rs) ?E" by (rule flist_unlink [OF D(2) ard]) simp_all
  have sub: "sz_sub s want = s - want" using w pa by (intro sz_sub_small) simp_all
  have fsd: "\<And>c. c \<in> set (ls @ rs) \<Longrightarrow> in_pool lay c \<and> disj (a, s) c"
    using D(6,9) by (auto simp: sorted_wrt_append gap_def disj_def)
  have dA: "\<And>d. d \<in> A \<Longrightarrow> disj (a, s) d" using D(11) disj_sym by fastforce
  have lsC: "heap_hi lay \<notin> {?X} \<union> fst ` set ls" "\<And>d. d \<in> A \<Longrightarrow> fst d \<notin> {?X} \<union> fst ` set ls"
  proof -
    have "fst c \<noteq> ?E" if "c \<in> set ls" for c using in_pool_addr(2) [OF lay D(9)] that by simp
    moreover have "?E \<noteq> ?X" using xStart_outside [OF lay, of ?E] heap_bounds(2) [OF lay] by simp
    ultimately show "heap_hi lay \<notin> {?X} \<union> fst ` set ls" using notin_addrs [of "set ls" ?E] by simp
    fix d assume d: "d \<in> A"
    have "fst c \<noteq> fst d" if "c \<in> set ls" for c
    proof -
      have c: "c \<in> set (ls @ (a, s) # rs)" using that by simp
      show ?thesis
        using disj_ne [OF D(11) [OF d c]] in_pool_addr(4) [OF lay D(9) [OF c]] in_pool_addr(4) [OF lay D(10) [OF d]]
        by simp
    qed
    then show "fst d \<notin> {?X} \<union> fst ` set ls"
      using in_pool_addr(1) [OF lay D(10) [OF d]] notin_addrs [of "set ls" "fst d"] by simp
  qed
  have lastC: "last_of ?X ls \<in> {?X} \<union> fst ` set ls" using last_of_in [of ?X ls] by simp
  show thesis
  proof (cases "want + 32 < s")
    case False
    have "take_block lay want (last_of ?X ls) a h = Some (a + 16, seal a ?h1)"
    proof -
      have "\<not> 32 < s - want" using False by linarith
      then show ?thesis unfolding take_block_def Let_def using ret sa sub by (simp add: struct_size)
    qed
    moreover have "heap_inv lay (seal a ?h1) (ls @ rs) (insert (a, s) A)"
    proof (rule seal_inv [OF lay inv as _ _ dA _ fl1])
      show "sorted_wrt gap (ls @ rs)" using D(6) by (auto simp: sorted_wrt_append)
      show "same_other ({?X} \<union> fst ` set ls) h ?h1" using lastC by (auto simp: same_other_def)
    qed (use fsd D(3,11) sa lsC in auto)
    moreover have "(a, s) \<notin> A" using D(11) [of "(a, s)" "(a, s)"] pa(4) by (auto simp: disj_def)
    ultimately show thesis using that [of "seal a ?h1" "ls @ rs" s] w False dA by auto
  next
    case True
    let ?n = "a + want" and ?u = "s - want"
    let ?h2 = "set_size a want (set_size ?n ?u ?h1)"
    have new: "in_pool lay (?n, ?u)" "in_pool lay (a, want)"
      using as w True by (auto simp: in_pool_def mod_eq_0_iff_dvd dvd_diff_nat)
    have add: "sz_add a want = ?n" using pa(6) w by (intro sz_add_small) simp
    have fs': "sorted_wrt gap (ls @ (?n, ?u) # rs)"
      using D(6) w by (auto simp: sorted_wrt_append gap_def)
    have pool': "in_pool lay c" if "c \<in> set (ls @ (?n, ?u) # rs)" for c using that fsd [of c] new by auto
    have nls: "?n \<notin> fst ` set (ls @ rs)" using inv_around(2) [OF lay fs' pool'] by auto
    have als: "a \<notin> fst ` set (ls @ rs)" using ard by auto
    have fl2: "flist ?h2 ?X (ls @ rs) ?E"
    proof (rule flist_frame [OF fl1])
      fix z
      assume "z \<in> fst ` set (ls @ rs)"
      then have "z \<noteq> a" "z \<noteq> ?n" using nls als by blast+
      then show "pxNextFreeBlock ?h2 z = pxNextFreeBlock ?h1 z \<and> xBlockSize ?h2 z = xBlockSize ?h1 z" by simp
    qed simp
    have "xBlockSize ?h2 ?X = 0" using pa(1) in_pool_addr(1) [OF lay new(1)] D(3) by simp
    then obtain h3 where h3: "prvInsertBlockIntoFreeList lay ?n ?h2 = Some h3"
      "flist h3 ?X (coalesce (ls @ (?n, ?u) # rs)) ?E" "same_other ({?X, ?n} \<union> fst ` set ls) ?h2 h3" "xBlockSize h3 ?X = 0"
      using insert_free [OF fl2 inv_around(1) [OF lay fs' pool'] refl] lay D(1) w by (auto simp: layout_ok_def)
    have "take_block lay want (last_of ?X ls) a h = Some (a + 16, seal a h3)"
    proof -
      have "32 < s - want" using True by linarith
      then show ?thesis
        unfolding take_block_def Let_def using ret sa sub add h3(1) by (simp add: struct_size)
    qed
    moreover have "heap_inv lay (seal a h3) (ls @ (?n, ?u) # rs) (insert (a, want) A)"
    proof (rule seal_inv [OF lay inv new(2) fs'])
      show "flist h3 ?X (ls @ (?n, ?u) # rs) ?E" using h3(2) coalesce_id [OF fs'] by simp
      show "xBlockSize h3 a = want" using h3(3) als pa(1) w by (auto simp: same_other_def)
      show "same_other ({?X, ?n, a} \<union> fst ` set ls) h h3"
        using h3(3) lastC by (auto simp: same_other_def)
      show "heap_hi lay \<notin> {?X, ?n, a} \<union> fst ` set ls" using lsC(1) in_pool_addr(2) [OF lay new(1)] pa(2) by auto
      show "fst d \<notin> {?X, ?n, a} \<union> fst ` set ls" if "d \<in> A" for d
        using lsC(2) [OF that] dA [OF that] in_pool_addr(4) [OF lay D(10) [OF that]] True pa(4) by (auto simp: disj_def)
      show "disj (a, want) d" if "d \<in> A" for d using dA [OF that] w by (auto simp: disj_def)
      show "in_pool lay c \<and> disj (a, want) c \<and> (\<forall>d \<in> A. disj d c)" if "c \<in> set (ls @ (?n, ?u) # rs)" for c
      proof (cases "c = (?n, ?u)")
        case True
        then show ?thesis using new(1) dA w by (fastforce simp: disj_def)
      next
        case False
        then have "c \<in> set (ls @ rs)" using that by auto
        then show ?thesis using fsd [of c] D(11) w by (auto simp: disj_def)
      qed
    qed (use h3(4) w in auto)
    moreover have "(a, want) \<notin> A" using dA [of "(a, want)"] w pa(4) by (auto simp: disj_def)
    moreover have "disj (a, want) d" if "d \<in> A" for d using dA [OF that] w by (auto simp: disj_def)
    ultimately show thesis using that [of "seal a h3" "ls @ (?n, ?u) # rs" want] True by auto
  qed
qed

lemma block_le_sum: "(c :: nat \<times> nat) \<in> set fs \<Longrightarrow> snd c \<le> sum_list (map snd fs)"
  by (induction fs) auto

text \<open>Allocation on an initialised heap: refused, or the first block that fits.\<close>

lemma malloc_refused:
  assumes lay: "layout_ok lay" and inv: "heap_inv lay h fs A" and n: "n < 2 ^ 64"
    and no: "n = 0 \<or> 2 ^ 63 \<le> n \<or> (\<forall>c \<in> set fs. snd c < block_request n)"
  shows "pvPortMalloc lay n h = Some (0, h)"
proof -
  note D = heap_invD [OF inv]
  have en: "pxEnd h \<noteq> 0" "heap_hi lay \<noteq> 0" using D(1) heap_bounds(1,2) [OF lay] by simp_all
  show ?thesis
  proof (cases "n = 0 \<or> n AND heapALLOC_BIT \<noteq> 0")
    case True
    then show ?thesis using en by (simp add: pvPortMalloc_def)
  next
    case False
    then have small: "\<forall>c \<in> set fs. snd c < block_request n" using no alloc_bit_test [OF n] by simp
    have "\<exists>p. first_fit h (block_request n) (xStart lay) (pxNextFreeBlock h (xStart lay)) = Some (p, heap_hi lay)"
      by (rule first_fit_fails [OF D(2) small en(2) D(4)]) (use in_pool_addr(3) [OF lay D(9)] in blast)
    then show ?thesis using False en D(1) by (auto simp: pvPortMalloc_def Let_def)
  qed
qed

lemma malloc_found:
  assumes lay: "layout_ok lay" and inv: "heap_inv lay h (ls @ (a, s) # rs) A" and n: "0 < n" "n < 2 ^ 63"
    and fit: "\<forall>c \<in> set ls. snd c < block_request n" "block_request n \<le> s"
  obtains h' t fs' where "pvPortMalloc lay n h = Some (a + 16, h')"
    "heap_inv lay h' fs' (insert (a, t) A)" "n + 16 \<le> t" "(a, t) \<notin> A" "\<And>d. d \<in> A \<Longrightarrow> disj (a, t) d"
    "t = s \<and> fs' = ls @ rs \<or> t = block_request n \<and> fs' = ls @ (a + t, s - t) # rs"
proof -
  note D = heap_invD [OF inv] and br = block_request_eq [OF n(2)]
  let ?w = "block_request n"
  have en: "pxEnd h \<noteq> 0" "heap_hi lay \<noteq> 0" using D(1) heap_bounds(1,2) [OF lay] by simp_all
  have ne: "fst c \<noteq> 0 \<and> fst c \<noteq> heap_hi lay" if "c \<in> set (ls @ (a, s) # rs)" for c
    using in_pool_addr(2,3) [OF lay D(9) [OF that]] by simp
  have "first_fit h ?w (xStart lay) (pxNextFreeBlock h (xStart lay)) = Some (last_of (xStart lay) ls, a)"
    by (rule first_fit_finds [OF D(2) fit en(2)]) (use ne in force)+
  moreover have "?w \<le> xFreeBytesRemaining h"
    using fit(2) block_le_sum [of "(a, s)" "ls @ (a, s) # rs"] D(14) by simp
  moreover have "n AND heapALLOC_BIT = 0" using alloc_bit_test [of n] n by simp
  moreover have "a \<noteq> pxEnd h" using ne [of "(a, s)"] D(1) by simp
  ultimately have m: "pvPortMalloc lay n h = take_block lay ?w (last_of (xStart lay) ls) a h"
    using en n by (simp add: pvPortMalloc_def Let_def)
  show thesis
    by (rule take_block_ok [OF lay inv fit(2) br(1)]) (use br n that m in auto)
qed

section \<open>Release\<close>

lemma free_ok:
  assumes lay: "layout_ok lay" and inv: "heap_inv lay h fs A" and A: "(a, s) \<in> A"
    and split: "ls = filter (\<lambda>c. fst c < a) fs" "rs = filter (\<lambda>c. \<not> fst c < a) fs"
  obtains h' where "vPortFree lay (a + 16) h = Some h'" "heap_inv lay h' (coalesce (ls @ (a, s) # rs)) (A - {(a, s)})"
proof -
  note D = heap_invD [OF inv]
  let ?X = "xStart lay" and ?E = "heap_hi lay"
  have as: "in_pool lay (a, s)" by (rule D(10) [OF A])
  note pa = in_pool_addr [OF lay as, simplified]
  have fs: "fs = ls @ rs"
  proof -
    have "sorted_wrt (\<lambda>c d. fst c \<le> fst d) fs"
      by (rule sorted_wrt_mono_rel [OF _ D(6)]) (auto simp: gap_def)
    then show ?thesis unfolding split
    proof (induction fs)
      case (Cons c fs)
      show ?case
      proof (cases "fst c < a")
        case False
        then have "filter (\<lambda>c. fst c < a) fs = []" using Cons.prems by (auto simp: filter_empty_conv)
        moreover have "filter (\<lambda>c. \<not> fst c < a) fs = fs" using False Cons.prems by (auto simp: filter_id_conv)
        ultimately show ?thesis using False by simp
      qed (use Cons in simp)
    qed simp
  qed
  have d: "disj (a, s) c" if "c \<in> set fs" for c using D(11) [OF A that] .
  have pos: "0 < snd c" if "c \<in> set fs" for c using in_pool_addr(4) [OF lay D(9) [OF that]] .
  have L: "fst c + snd c \<le> a" if "c \<in> set ls" for c
    using d [of c] pos [of c] that pa(4) unfolding split by (auto simp: disj_def)
  have R: "a + s \<le> fst c" if "c \<in> set rs" for c
    using d [of c] pos [of c] that pa(4) unfolding split by (auto simp: disj_def)
  have pool: "in_pool lay c" if "c \<in> set (ls @ (a, s) # rs)" for c using as D(9) [of c] fs that by auto
  have ar: "around ?X ls (a, s) rs ?E"
    unfolding around_def
  proof (intro conjI ballI)
    show "sorted_wrt gap ls" "sorted_wrt gap rs" using D(6) fs by (simp_all add: sorted_wrt_append)
    fix c assume "c \<in> set (ls @ (a, s) # rs)"
    then have "in_pool lay c" by (rule pool)
    then show "0 < fst c" "0 < snd c" "fst c + snd c \<le> ?E" "fst c \<noteq> ?X"
      using in_pool_addr [OF lay, of c] by (auto simp: in_pool_def)
  qed (use L R lay heap_bounds(3) [OF lay] in \<open>auto simp: layout_ok_def\<close>)
  have size: "xBlockSize h a = s + 2 ^ 63" using D(8) [OF A] by simp
  have nfs: "a \<notin> fst ` set fs" by (rule notin_addrs) (use d disj_ne pos pa(4) in fastforce)
  let ?h1 = "h\<lparr>xBlockSize := (xBlockSize h)(a := s), pxNextFreeBlock := (pxNextFreeBlock h)(a := 0),
     xFreeBytesRemaining := sum_list (map snd fs) + s\<rparr>"
  have fl1: "flist ?h1 ?X (ls @ rs) ?E"
    unfolding fs [symmetric]
  proof (rule flist_frame [OF D(2)])
    fix z assume "z \<in> fst ` set fs"
    then have "z \<noteq> a" using nfs by blast
    then show "pxNextFreeBlock ?h1 z = pxNextFreeBlock h z \<and> xBlockSize ?h1 z = xBlockSize h z" by simp
  qed (use pa(1) in simp)
  obtain h' where h': "prvInsertBlockIntoFreeList lay a ?h1 = Some h'"
    "flist h' ?X (coalesce (ls @ (a, s) # rs)) ?E" "same_other ({?X, a} \<union> fst ` set ls) ?h1 h'" "xBlockSize h' ?X = 0"
    using insert_free [OF fl1 ar refl] pa(1) D(1,3) lay by (auto simp: layout_ok_def)
  have total: "sum_list (map snd fs) + s \<le> ?E - heap_lo lay"
    using D(13) member_le_sum [of "(a, s)" A snd] A D(7) by simp
  have link: "sz_sub (a + 16) xHeapStructSize = a" using pa by (simp add: struct_size sz_sub_small)
  have "vPortFree lay (a + 16) h = Some h'"
  proof -
    have "sz_add (sum_list (map snd fs)) s = sum_list (map snd fs) + s"
      using total heap_bounds(3) [OF lay] by (intro sz_add_small) simp
    moreover have "(s + 2 ^ 63) AND sz_not heapALLOC_BIT = s" using pa by (subst alloc_bit_clear) simp_all
    moreover have "prvBlockIsAllocated a h"
      unfolding prvBlockIsAllocated_def size using pa alloc_bit_test [of "s + 2 ^ 63"] by simp
    ultimately show ?thesis
      unfolding vPortFree_def link Let_def size using h'(1) D(14) size by simp
  qed
  moreover have "heap_inv lay h' (coalesce (ls @ (a, s) # rs)) (A - {(a, s)})"
  proof (rule heap_invI)
    have "sorted_wrt (\<lambda>c d. fst c + snd c \<le> fst d) (ls @ (a, s) # rs)"
    proof -
      have "sorted_wrt (\<lambda>c d. fst c + snd c \<le> fst d) fs"
        by (rule sorted_wrt_mono_rel [OF _ D(6)]) (auto simp: gap_def)
      then show ?thesis using L R fs by (auto simp: sorted_wrt_append)
    qed
    moreover have "\<forall>c \<in> set (ls @ (a, s) # rs). 0 < snd c" using in_pool_addr(4) [OF lay pool] by blast
    ultimately show "sorted_wrt gap (coalesce (ls @ (a, s) # rs))" by (rule coalesce_sorted)
    have "\<forall>c \<in> set (ls @ (a, s) # rs). in_pool lay c" using pool by blast
    then show "in_pool lay c" if "c \<in> set (coalesce (ls @ (a, s) # rs))" for c
      using coalesce_pool [of "ls @ (a, s) # rs" lay] that by blast
    show "sum_list (map snd (coalesce (ls @ (a, s) # rs))) + sum snd (A - {(a, s)}) = ?E - heap_lo lay"
      unfolding coalesce_sum using D(7,13) A fs by (simp add: sum.remove)
    show "xFreeBytesRemaining h' = sum_list (map snd (coalesce (ls @ (a, s) # rs)))"
      unfolding coalesce_sum using h'(3) fs by (simp add: same_other_def)
    show "xMinimumEverFreeBytes h' \<le> xFreeBytesRemaining h'" using h'(3) D(14,15) by (simp add: same_other_def)
    have "?E \<notin> fst ` set ls" by (rule notin_addrs) (use in_pool_addr(2) [OF lay pool] in simp)
    then have E: "?E \<notin> {?X, a} \<union> fst ` set ls"
      using xStart_outside [OF lay, of ?E] heap_bounds(2) [OF lay] pa(2) by simp
    show "pxNextFreeBlock h' ?E = 0" "xBlockSize h' ?E = 0"
      using h'(3) E D(4,5) by (simp_all add: same_other_def)
    fix c assume c: "c \<in> A - {(a, s)}"
    then have dc: "disj c (a, s)" using D(12) A by blast
    have pc: "in_pool lay c" using c D(10) by blast
    have "fst e \<noteq> fst c" if "e \<in> set ls" for e
    proof -
      have e: "e \<in> set fs" using that fs by simp
      show ?thesis using disj_ne [OF D(11) [OF _ e], of c] c pos [OF e] in_pool_addr(4) [OF lay pc] by simp
    qed
    then have "fst c \<notin> {?X, a} \<union> fst ` set ls"
      using notin_addrs [of "set ls" "fst c"] in_pool_addr(1,4) [OF lay pc] disj_ne [OF dc] pa(4) by auto
    then show "xBlockSize h' (fst c) = snd c + 2 ^ 63"
      using h'(3) D(8) [of c] c by (simp add: same_other_def)
    show "disj c e" if "e \<in> set (coalesce (ls @ (a, s) # rs))" for e
    proof -
      have "disj c e" if "e \<in> set (ls @ (a, s) # rs)" for e using dc D(11) [of c e] c fs that by auto
      then show ?thesis using coalesce_disj [OF in_pool_addr(4) [OF lay pc]] that by blast
    qed
  qed (use D h' in \<open>auto simp: same_other_def\<close>)
  ultimately show thesis by (rule that)
qed

section \<open>The heap contract\<close>

text \<open>The user regions of a heap state, which may not have been initialised yet.\<close>

definition user_region :: "nat \<times> nat \<Rightarrow> nat \<times> nat" where
  "user_region c = (fst c + 16, snd c - 16)"

definition heap4_rep :: "heap_layout \<Rightarrow> heap4 \<Rightarrow> (nat \<times> nat) set \<Rightarrow> bool" where
  "heap4_rep lay h U \<longleftrightarrow> layout_ok lay \<and>
     (pxEnd h = 0 \<and> U = {} \<or>
      (\<exists>fs A. heap_inv lay h fs A \<and> (\<forall>c \<in> A. 16 < snd c) \<and> U = user_region ` A))"

definition heap4_request :: "nat \<Rightarrow> bool" where
  "heap4_request n \<longleftrightarrow> 0 < n \<and> n < 2 ^ 64"

lemma malloc_initialises:
  "layout_ok lay \<Longrightarrow> pxEnd h = 0 \<Longrightarrow> pvPortMalloc lay n h = pvPortMalloc lay n (vPortInitialiseBlocks lay h)"
  using heap_bounds(1,2) [of lay] heap_invD(1) [OF initialise_eq [of lay h]]
  by (simp add: pvPortMalloc_def)

lemma first_fitting:
  fixes fs :: "(nat \<times> nat) list"
  assumes "\<not> (\<forall>c \<in> set fs. snd c < w)"
  obtains ls a s rs where "fs = ls @ (a, s) # rs" "\<forall>c \<in> set ls. snd c < w" "w \<le> s"
proof -
  have "\<exists>x \<in> set fs. \<not> snd x < w" using assms by blast
  then obtain ls x rs where "fs = ls @ x # rs" "\<not> snd x < w" "\<forall>c \<in> set ls. \<not> \<not> snd c < w"
    using split_list_first_prop [of fs "\<lambda>c. \<not> snd c < w"] by blast
  then show thesis using that [of ls "fst x" "snd x" rs] by simp
qed

lemma malloc_initialised:
  assumes lay: "layout_ok lay" and inv: "heap_inv lay h fs A" and A: "\<forall>c \<in> A. 16 < snd c" and n: "heap4_request n"
  shows "\<exists>p h'. pvPortMalloc lay n h = Some (p, h') \<and>
    (p = 0 \<and> h' = h \<or> p \<noteq> 0 \<and> (\<exists>m \<ge> n. (p, m) \<notin> user_region ` A \<and> heap4_rep lay h' (insert (p, m) (user_region ` A))))"
proof (cases "2 ^ 63 \<le> n \<or> (\<forall>c \<in> set fs. snd c < block_request n)")
  case True
  then show ?thesis using malloc_refused [OF lay inv] n by (auto simp: heap4_request_def)
next
  case False
  then obtain ls a s rs where fs: "fs = ls @ (a, s) # rs" "\<forall>c \<in> set ls. snd c < block_request n" "block_request n \<le> s"
    using first_fitting by metis
  have n': "0 < n" "n < 2 ^ 63" using False n by (auto simp: heap4_request_def)
  obtain h' t fs' where h': "pvPortMalloc lay n h = Some (a + 16, h')" "heap_inv lay h' fs' (insert (a, t) A)"
    "n + 16 \<le> t" "\<And>d. d \<in> A \<Longrightarrow> disj (a, t) d"
    using malloc_found [OF lay inv [unfolded fs(1)] n' fs(2,3)] by metis
  have "user_region (a, t) \<notin> user_region ` A"
  proof
    assume "user_region (a, t) \<in> user_region ` A"
    then obtain d where "d \<in> A" "fst d = a" by (auto simp: user_region_def)
    then show False using h'(3) h'(4) [of d] A disj_ne [of "(a, t)" d] n' by force
  qed
  moreover have "heap4_rep lay h' (insert (user_region (a, t)) (user_region ` A))"
    unfolding heap4_rep_def using lay h'(2,3) A n'(1)
    by (intro conjI disjI2 exI [of _ fs'] exI [of _ "insert (a, t) A"]) auto
  ultimately show ?thesis using h'(1,3) by (auto simp: user_region_def intro!: exI [of _ "t - 16"])
qed

interpretation heap4: heap_api "pvPortMalloc lay" "vPortFree lay" heap4_request "heap4_rep lay" for lay
proof
  fix h U n
  assume rep: "heap4_rep lay h U" and n: "heap4_request n"
  then have lay: "layout_ok lay" by (simp add: heap4_rep_def)
  show "\<exists>p s'. pvPortMalloc lay n h = Some (p, s') \<and> (p = 0 \<and> heap4_rep lay s' U \<or>
      p \<noteq> 0 \<and> (\<exists>m \<ge> n. (p, m) \<notin> U \<and> heap4_rep lay s' (insert (p, m) U)))"
  proof (cases "pxEnd h = 0")
    case True
    then have "U = {}" using rep lay heap_bounds(2) [OF lay] by (auto simp: heap4_rep_def dest: heap_invD(1))
    moreover have "heap4_rep lay (vPortInitialiseBlocks lay h) {}"
      unfolding heap4_rep_def using lay initialise_eq [OF lay] by blast
    ultimately show ?thesis
      using malloc_initialised [OF lay initialise_eq [OF lay, of h] _ n] malloc_initialises [OF lay True]
      by fastforce
  next
    case False
    then obtain fs A where "heap_inv lay h fs A" "\<forall>c \<in> A. 16 < snd c" "U = user_region ` A"
      using rep by (auto simp: heap4_rep_def)
    then show ?thesis using malloc_initialised [OF lay _ _ n] rep by blast
  qed
next
  fix h U p m
  assume rep: "heap4_rep lay h U" and pm: "(p, m) \<in> U"
  then obtain fs A where A: "layout_ok lay" "heap_inv lay h fs A" "\<forall>c \<in> A. 16 < snd c" "U = user_region ` A"
    by (auto simp: heap4_rep_def)
  then obtain a s where as: "(a, s) \<in> A" "p = a + 16" "m = s - 16" using pm by (auto simp: user_region_def)
  obtain h' gs where h': "vPortFree lay p h = Some h'" "heap_inv lay h' gs (A - {(a, s)})"
    using free_ok [OF A(1,2) as(1) refl refl] as(2) by metis
  have "inj_on user_region A"
    unfolding inj_on_def user_region_def using A(3) by (auto simp: prod_eq_iff)
  then have "user_region ` (A - {(a, s)}) = U - {(p, m)}"
    unfolding A(4) using as by (subst inj_on_image_set_diff) (auto simp: user_region_def)
  then have "heap4_rep lay h' (U - {(p, m)})"
    unfolding heap4_rep_def using A(1,3) h'(2) by blast
  then show "\<exists>s' A'. vPortFree lay p h = Some s' \<and> heap4_rep lay s' A' \<and> U - {(p, m)} \<subseteq> A' \<and> A' \<subseteq> U"
    using h'(1) by blast
next
  fix h U c
  assume "heap4_rep lay h U" "c \<in> U"
  then show "fst c \<noteq> 0 \<and> 0 < snd c" by (auto simp: heap4_rep_def user_region_def)
next
  fix h U c d
  assume rep: "heap4_rep lay h U" and cd: "c \<in> U" "d \<in> U" "c \<noteq> d"
  then obtain fs A where "heap_inv lay h fs A" "U = user_region ` A" by (auto simp: heap4_rep_def)
  then obtain x y where A: "heap_inv lay h fs A" "x \<in> A" "y \<in> A" "c = user_region x" "d = user_region y"
    using cd by blast
  then have "disj x y" using heap_invD(12) cd(3) by blast
  then show "disj c d" using A(4,5) by (auto simp: user_region_def disj_def)
qed (simp add: heap4_request_def)

section \<open>Properties\<close>

text \<open>The state of the static variables at reset.\<close>

definition heap4_reset :: heap4 where
  "heap4_reset = \<lparr>pxNextFreeBlock = (\<lambda>_. 0), xBlockSize = (\<lambda>_. 0), pxEnd = 0, xFreeBytesRemaining = 0,
     xMinimumEverFreeBytes = 0\<rparr>"

lemma heap4_reset_rep: "layout_ok lay \<Longrightarrow> heap4_rep lay heap4_reset {}"
  by (simp add: heap4_rep_def heap4_reset_def)

definition sample_layout :: heap_layout where
  "sample_layout = \<lparr>ucHeap = 0x90008, xStart = 0x80000\<rparr>"

lemma sample_layout_ok: "layout_ok sample_layout"
  by (simp add: layout_ok_def sample_layout_def configTOTAL_HEAP_SIZE_def)







end
