(* ===== verification/Heap_1.thy ===== *)
theory Heap_1
  imports Heap_4
begin

text \<open>
  The two small allocators: \<^verbatim>\<open>portable/MemMang/heap_1.c\<close>, which only ever advances an index into its pool, and
  \<^verbatim>\<open>portable/MemMang/heap_3.c\<close>, which wraps the allocator of a C library.  The first satisfies the heap contract for
  requests below \<^term>\<open>(2::nat) ^ 63\<close>; above, its unchecked addition wraps.  The second satisfies it whenever
  the library's allocator does.
\<close>

section \<open>Allocate-only heap\<close>

text \<open>The state is the index of the next free byte; the pool's address is a parameter.\<close>

definition heap_1_pvPortMalloc :: "nat \<Rightarrow> nat \<Rightarrow> nat \<Rightarrow> (nat \<times> nat) ub" where
  "heap_1_pvPortMalloc pool xWantedSize xNextFreeByte =
    (let w = (if xWantedSize AND heapALIGN_MASK \<noteq> 0
              then sz_add xWantedSize (portBYTE_ALIGNMENT - (xWantedSize AND heapALIGN_MASK)) else xWantedSize)
     in Some (if sz_add xNextFreeByte w \<le> configTOTAL_HEAP_SIZE
              then (pool + xNextFreeByte, sz_add xNextFreeByte w) else (0, xNextFreeByte)))"

definition heap_1_vPortFree :: "nat \<Rightarrow> nat \<Rightarrow> nat ub" where
  "heap_1_vPortFree pv xNextFreeByte = Some xNextFreeByte"

definition heap_1_xPortGetFreeHeapSize :: "nat \<Rightarrow> nat" where
  "heap_1_xPortGetFreeHeapSize xNextFreeByte = sz_sub configTOTAL_HEAP_SIZE xNextFreeByte"

definition heap_1_xPortGetMinimumEverFreeHeapSize :: "nat \<Rightarrow> nat" where
  "heap_1_xPortGetMinimumEverFreeHeapSize xNextFreeByte = sz_sub configTOTAL_HEAP_SIZE xNextFreeByte"

definition heap_1_vPortInitialiseBlocks :: "nat \<Rightarrow> nat" where
  "heap_1_vPortInitialiseBlocks xNextFreeByte = 0"

section \<open>Library heap\<close>

text \<open>
  The functions \<^verbatim>\<open>malloc\<close> and \<^verbatim>\<open>free\<close> of the C library are parameters; the critical section around the
  calls only excludes other tasks.
\<close>

definition heap_3_pvPortMalloc :: "(nat \<Rightarrow> 's \<Rightarrow> (nat \<times> 's) ub) \<Rightarrow> nat \<Rightarrow> 's \<Rightarrow> (nat \<times> 's) ub" where
  "heap_3_pvPortMalloc malloc xWantedSize s = do { (pvReturn, s) \<leftarrow> malloc xWantedSize s; Some (pvReturn, s) }"

definition heap_3_vPortFree :: "(nat \<Rightarrow> 's \<Rightarrow> 's ub) \<Rightarrow> nat \<Rightarrow> 's \<Rightarrow> 's ub" where
  "heap_3_vPortFree free pv s = (if pv \<noteq> 0 then free pv s else Some s)"

definition heap_3_xPortGetFreeHeapSize :: "'s \<Rightarrow> nat" where
  "heap_3_xPortGetFreeHeapSize s = 0"

definition heap_3_xPortGetMinimumEverFreeHeapSize :: "'s \<Rightarrow> nat" where
  "heap_3_xPortGetMinimumEverFreeHeapSize s = 0"

definition heap_3_vPortInitialiseBlocks :: "'s \<Rightarrow> 's" where
  "heap_3_vPortInitialiseBlocks s = s"

section \<open>The contract\<close>

definition heap_1_request :: "nat \<Rightarrow> bool" where
  "heap_1_request n \<longleftrightarrow> 0 < n \<and> n < 2 ^ 63"

definition heap_1_rep :: "nat \<Rightarrow> nat \<Rightarrow> (nat \<times> nat) set \<Rightarrow> bool" where
  "heap_1_rep pool k A \<longleftrightarrow> 0 < pool \<and> k \<le> configTOTAL_HEAP_SIZE \<and>
     (\<forall>c \<in> A. pool \<le> fst c \<and> 0 < snd c \<and> fst c + snd c \<le> pool + k) \<and>
     (\<forall>c \<in> A. \<forall>d \<in> A. c \<noteq> d \<longrightarrow> disj c d)"

lemma heap_1_round:
  assumes "n < 2 ^ 63"
  shows "\<exists>w. n \<le> w \<and> w < n + 16 \<and> (if n AND heapALIGN_MASK \<noteq> 0
              then sz_add n (portBYTE_ALIGNMENT - (n AND heapALIGN_MASK)) else n) = w"
proof (cases "n mod 16 = 0")
  case False
  have "n mod 16 < 16" by simp
  then have "sz_add n (16 - n mod 16) = n + (16 - n mod 16)" using assms by (intro sz_add_small) simp
  then show ?thesis using False by (auto simp: align_mask_mod portBYTE_ALIGNMENT_def)
qed (simp add: align_mask_mod)

interpretation heap1: heap_api "heap_1_pvPortMalloc pool" heap_1_vPortFree heap_1_request "heap_1_rep pool" for pool
proof
  fix k A n
  assume rep: "heap_1_rep pool k A" and n: "heap_1_request n"
  obtain w where w: "n \<le> w" "w < n + 16" "(if n AND heapALIGN_MASK \<noteq> 0
      then sz_add n (portBYTE_ALIGNMENT - (n AND heapALIGN_MASK)) else n) = w"
    using heap_1_round n by (auto simp: heap_1_request_def)
  have k: "k \<le> configTOTAL_HEAP_SIZE" "0 < pool" using rep by (auto simp: heap_1_rep_def)
  have add: "sz_add k w = k + w"
    using w(2) n k by (intro sz_add_small) (simp add: heap_1_request_def configTOTAL_HEAP_SIZE_def)
  show "\<exists>p s'. heap_1_pvPortMalloc pool n k = Some (p, s') \<and> (p = 0 \<and> heap_1_rep pool s' A \<or>
      p \<noteq> 0 \<and> (\<exists>m \<ge> n. (p, m) \<notin> A \<and> heap_1_rep pool s' (insert (p, m) A)))"
  proof (cases "k + w \<le> configTOTAL_HEAP_SIZE")
    case True
    have pos: "0 < w" using w(1) n by (simp add: heap_1_request_def)
    have old: "fst c + snd c \<le> pool + k" "pool \<le> fst c" "0 < snd c" if "c \<in> A" for c
      using rep that by (auto simp: heap_1_rep_def)
    have "(pool + k, w) \<notin> A" using old [of "(pool + k, w)"] pos by auto
    moreover have "heap_1_rep pool (k + w) (insert (pool + k, w) A)"
      unfolding heap_1_rep_def
    proof (intro conjI ballI impI)
      fix c assume "c \<in> insert (pool + k, w) A"
      then show "pool \<le> fst c" "0 < snd c" "fst c + snd c \<le> pool + (k + w)" using old [of c] pos by auto
      fix d assume "d \<in> insert (pool + k, w) A" "c \<noteq> d"
      then show "disj c d" using \<open>c \<in> _\<close> old [of c] old [of d] rep by (auto simp: disj_def heap_1_rep_def)
    qed (use True k in simp_all)
    moreover have "heap_1_pvPortMalloc pool n k = Some (pool + k, k + w)"
      unfolding heap_1_pvPortMalloc_def w(3) Let_def using add True by simp
    ultimately show ?thesis using k w(1) by auto
  next
    case False
    then have "heap_1_pvPortMalloc pool n k = Some (0, k)"
      unfolding heap_1_pvPortMalloc_def w(3) Let_def using add by simp
    then show ?thesis using rep by simp
  qed
next
  fix k A p m
  assume "heap_1_rep pool k A" "(p, m) \<in> A"
  then show "\<exists>s' A'. heap_1_vPortFree p k = Some s' \<and> heap_1_rep pool s' A' \<and> A - {(p, m)} \<subseteq> A' \<and> A' \<subseteq> A"
    by (intro exI [of _ k] exI [of _ A]) (auto simp: heap_1_vPortFree_def)
next
  fix k A c
  assume "heap_1_rep pool k A" "c \<in> A"
  then show "fst c \<noteq> 0 \<and> 0 < snd c" by (auto simp: heap_1_rep_def)
next
  fix k A c d
  assume "heap_1_rep pool k A" "c \<in> A" "d \<in> A" "c \<noteq> d"
  then show "disj c d" by (simp add: heap_1_rep_def)
qed (simp add: heap_1_request_def)

lemma heap_1_start: "0 < pool \<Longrightarrow> heap_1_rep pool (heap_1_vPortInitialiseBlocks k) {}"
  by (simp add: heap_1_rep_def heap_1_vPortInitialiseBlocks_def)

section \<open>Properties\<close>

text \<open>
  C26: the allocate-only heap.  After any history of requests below \<^term>\<open>(2::nat) ^ 63\<close> bytes and of releases, starting from
  an initialised pool, the regions handed out are pairwise disjoint.
\<close>

theorem heap_1_no_overlap:
  assumes "0 < pool"
    and "heap_history (heap_1_pvPortMalloc pool) heap_1_vPortFree heap_1_request (heap_1_vPortInitialiseBlocks k0) k L"
  shows "\<forall>c \<in> L. \<forall>d \<in> L. c \<noteq> d \<longrightarrow> disj c d"
  using heap1.history_disjoint [OF assms(2) heap_1_start [OF assms(1)]] by blast

theorem heap_1_no_overlap_witness:
  "0 < (0x1000 :: nat) \<and>
   heap_history (heap_1_pvPortMalloc 0x1000) heap_1_vPortFree heap_1_request (heap_1_vPortInitialiseBlocks 5) 48
     {(0x1000, 20), (0x1020, 16)} \<and> disj (0x1000, 20) (0x1020, 16)"
proof -
  note st = heap_start [of "heap_1_pvPortMalloc 0x1000" heap_1_vPortFree heap_1_request "heap_1_vPortInitialiseBlocks 5"]
  have r: "heap_1_request 20" "heap_1_request 16" by (simp_all add: heap_1_request_def)
  have m: "heap_1_pvPortMalloc 0x1000 20 (heap_1_vPortInitialiseBlocks 5) = Some (0x1000, 32)"
    "heap_1_pvPortMalloc 0x1000 16 32 = Some (0x1020, 48)"
    by (simp_all add: heap_1_pvPortMalloc_def heap_1_vPortInitialiseBlocks_def align_mask_mod portBYTE_ALIGNMENT_def
      configTOTAL_HEAP_SIZE_def sz_add_def)
  have h: "heap_history (heap_1_pvPortMalloc 0x1000) heap_1_vPortFree heap_1_request (heap_1_vPortInitialiseBlocks 5) 48
     {(0x1000, 20), (0x1020, 16)}"
    using heap_malloc [OF heap_malloc [OF st r(1) m(1)], simplified, OF r(2) m(2)] by (simp add: insert_commute)
  show ?thesis using h heap_1_no_overlap [OF _ h] by auto
qed

text \<open>
  C27: the size check of the allocate-only heap wraps.  For a request that is the two's complement of the
  bytes already handed out, the sum in the check is zero, so the request is granted and the index goes back to the start
  of the pool: the next allocation overlaps the first.
\<close>

theorem heap_1_huge_request:
  assumes "0 < k" "k mod 16 = 0" "k \<le> configTOTAL_HEAP_SIZE"
  shows "heap_1_pvPortMalloc pool (2 ^ 64 - k) k = Some (pool + k, 0)"
proof -
  have "(2 ^ 64 - k) mod 16 = 0" using assms(2,3)
    by (simp add: mod_eq_0_iff_dvd configTOTAL_HEAP_SIZE_def dvd_diff_nat)
  moreover have "sz_add k (2 ^ 64 - k) = 0" using assms(3) by (simp add: sz_add_def configTOTAL_HEAP_SIZE_def)
  ultimately show ?thesis by (simp add: heap_1_pvPortMalloc_def align_mask_mod Let_def)
qed

theorem heap_1_huge_request_witness:
  "heap_1_pvPortMalloc 0x1000 (2 ^ 64 - 32) 32 = Some (0x1020, 0) \<and> heap_1_pvPortMalloc 0x1000 20 0 = Some (0x1000, 32)"
proof -
  have "heap_1_pvPortMalloc 0x1000 20 0 = Some (0x1000, 32)"
    by (simp add: heap_1_pvPortMalloc_def align_mask_mod portBYTE_ALIGNMENT_def configTOTAL_HEAP_SIZE_def sz_add_def)
  with heap_1_huge_request [of 32 "0x1000"] show ?thesis by (simp add: configTOTAL_HEAP_SIZE_def)
qed

text \<open>
  The library heap.  Whenever the C library's \<^verbatim>\<open>malloc\<close> and \<^verbatim>\<open>free\<close> satisfy the heap contract, so do the wrappers.
\<close>

theorem heap_3_wraps_contract:
  assumes "heap_api malloc free request_ok rep"
  shows "heap_api (heap_3_pvPortMalloc malloc) (heap_3_vPortFree free) request_ok rep"
proof -
  have m: "heap_3_pvPortMalloc malloc = malloc"
  proof (intro ext)
    fix n s
    show "heap_3_pvPortMalloc malloc n s = malloc n s"
      by (cases "malloc n s") (auto simp: heap_3_pvPortMalloc_def)
  qed
  note law = heap_api.malloc_law [OF assms] heap_api.rep_regions [OF assms] heap_api.rep_disj [OF assms]
    heap_api.request_pos [OF assms]
  show ?thesis
  proof (unfold m, rule heap_api.intro)
    fix s A p k
    assume r: "rep s A" "(p, k) \<in> A"
    have "p \<noteq> 0" using law(2) [OF r] by simp
    then show "\<exists>s' A'. heap_3_vPortFree free p s = Some s' \<and> rep s' A' \<and> A - {(p, k)} \<subseteq> A' \<and> A' \<subseteq> A"
      using heap_api.free_law [OF assms r] by (simp add: heap_3_vPortFree_def)
  qed (fact law)+
qed

theorem heap_3_wraps_contract_witness:
  "heap_api (pvPortMalloc sample_layout) (vPortFree sample_layout) heap4_request (heap4_rep sample_layout) \<and>
   heap_api (heap_3_pvPortMalloc (pvPortMalloc sample_layout)) (heap_3_vPortFree (vPortFree sample_layout))
     heap4_request (heap4_rep sample_layout)"
  using heap4.heap_api_axioms heap_3_wraps_contract [OF heap4.heap_api_axioms] by blast

end
