(* ===== verification/Ptp_Time.thy ===== *)
theory Ptp_Time
  imports Flint_Prelude
begin

text \<open>
  Time arithmetic of the PTP port, \<^verbatim>\<open>port/ptp/ptp_time.c\<close>: pairs of signed 32-bit seconds and nanoseconds.
  The structures \<^verbatim>\<open>TimeInternal\<close> and \<^verbatim>\<open>Timestamp\<close> come from ptpd, of which only the fields that the source uses
  appear.  An operation on 32-bit values whose exact result does not fit has no defined result.
\<close>

section \<open>Model\<close>

record TimeInternal =
  seconds :: int
  nanoseconds :: int

record Timestamp =
  seconds_msb :: u16
  seconds_lsb :: u32
  nanosecondsField :: u32

definition NS_PER_S :: int where
  "NS_PER_S = 1000000000"

definition ptp_time_normalize :: "TimeInternal \<Rightarrow> TimeInternal ub" where
  "ptp_time_normalize r = do {
     s \<leftarrow> i32 (seconds r + nanoseconds r sdiv NS_PER_S);
     n \<leftarrow> Some (nanoseconds r smod NS_PER_S);
     if s > 0 \<and> n < 0 then do {
       s \<leftarrow> i32 (s - 1);
       n \<leftarrow> i32 (n + NS_PER_S);
       Some \<lparr>seconds = s, nanoseconds = n\<rparr>
     } else if s < 0 \<and> n > 0 then do {
       s \<leftarrow> i32 (s + 1);
       n \<leftarrow> i32 (n - NS_PER_S);
       Some \<lparr>seconds = s, nanoseconds = n\<rparr>
     } else Some \<lparr>seconds = s, nanoseconds = n\<rparr>
   }"

definition ptp_time_add :: "TimeInternal \<Rightarrow> TimeInternal \<Rightarrow> TimeInternal ub" where
  "ptp_time_add x y = do {
     s \<leftarrow> i32 (seconds x + seconds y);
     n \<leftarrow> i32 (nanoseconds x + nanoseconds y);
     ptp_time_normalize \<lparr>seconds = s, nanoseconds = n\<rparr>
   }"

definition ptp_time_sub :: "TimeInternal \<Rightarrow> TimeInternal \<Rightarrow> TimeInternal ub" where
  "ptp_time_sub x y = do {
     s \<leftarrow> i32 (seconds x - seconds y);
     n \<leftarrow> i32 (nanoseconds x - nanoseconds y);
     ptp_time_normalize \<lparr>seconds = s, nanoseconds = n\<rparr>
   }"

definition ptp_time_to_ns :: "TimeInternal \<Rightarrow> int ub" where
  "ptp_time_to_ns t = do {
     p \<leftarrow> mul64 (seconds t) NS_PER_S;
     add64 p (nanoseconds t)
   }"

definition ptp_ns_to_time :: "int \<Rightarrow> TimeInternal ub" where
  "ptp_ns_to_time ns = do {
     q \<leftarrow> div64 ns NS_PER_S;
     r \<leftarrow> rem64 ns NS_PER_S;
     ptp_time_normalize \<lparr>seconds = to_i32 q, nanoseconds = to_i32 r\<rparr>
   }"

definition ptp_time_div2 :: "TimeInternal \<Rightarrow> TimeInternal ub" where
  "ptp_time_div2 r = do {
     t \<leftarrow> ptp_time_to_ns r;
     ns \<leftarrow> div64 t 2;
     ptp_ns_to_time ns
   }"

definition ptp_ts_to_internal :: "Timestamp \<Rightarrow> TimeInternal" where
  "ptp_ts_to_internal ext =
    (let secs = (push_bit 32 (ucast (seconds_msb ext)) OR ucast (seconds_lsb ext)) :: u64
     in \<lparr>seconds = to_i32 (uint secs), nanoseconds = to_i32 (uint (nanosecondsField ext))\<rparr>)"

definition ptp_internal_to_ts :: "TimeInternal \<Rightarrow> Timestamp" where
  "ptp_internal_to_ts in' =
    \<lparr>seconds_msb = 0, seconds_lsb = to_u32 (seconds in'), nanosecondsField = to_u32 (nanoseconds in')\<rparr>"

section \<open>Normal form\<close>

text \<open>
  A normalised time has less than a second in its nanoseconds and no two parts of opposite sign, so it is determined by
  the number of nanoseconds that it stands for.
\<close>

definition normal :: "TimeInternal \<Rightarrow> bool" where
  "normal t \<longleftrightarrow> i32_range (seconds t) \<and> \<bar>nanoseconds t\<bar> < NS_PER_S \<and>
     (0 < seconds t \<longrightarrow> 0 \<le> nanoseconds t) \<and> (seconds t < 0 \<longrightarrow> nanoseconds t \<le> 0)"

definition total_ns :: "TimeInternal \<Rightarrow> int" where
  "total_ns t = seconds t * NS_PER_S + nanoseconds t"

lemma sdiv_smod_cases:
  fixes a b :: int
  assumes "0 < b"
  shows "0 \<le> a \<and> a sdiv b = a div b \<and> a smod b = a mod b \<or>
    a < 0 \<and> a sdiv b = - ((- a) div b) \<and> a smod b = - ((- a) mod b)"
proof (cases "0 \<le> a")
  case True
  then show ?thesis using assms by (auto simp: signed_divide_int_def smod_int_alt_def sgn_if)
next
  case False
  then show ?thesis using assms by (auto simp: signed_divide_int_def smod_int_alt_def sgn_if)
qed

lemma smod_sign: "0 < (b::int) \<Longrightarrow> (0 \<le> a \<longrightarrow> 0 \<le> a smod b) \<and> (a \<le> 0 \<longrightarrow> a smod b \<le> 0)"
  using sdiv_smod_cases [of b a] by auto

lemma to_i32_id: "i32_range x \<Longrightarrow> to_i32 x = x"
  by (simp add: to_i32_def i32_range_def signed_take_bit_int_eq_self)

lemma normalize_ok:
  assumes "i32_range (seconds t + nanoseconds t sdiv NS_PER_S)"
  shows "\<exists>u. ptp_time_normalize t = Some u \<and> normal u \<and> total_ns u = total_ns t"
proof -
  define s n where "s = seconds t + nanoseconds t sdiv NS_PER_S" and "n = nanoseconds t smod NS_PER_S"
  have n: "\<bar>n\<bar> < NS_PER_S" using smod_abs_less [of NS_PER_S] by (simp add: n_def NS_PER_S_def)
  have tot: "s * NS_PER_S + n = total_ns t"
    using sdiv_mult_smod_eq [of "nanoseconds t" NS_PER_S] by (simp add: s_def n_def total_ns_def algebra_simps)
  have s: "i32_range s" using assms by (simp add: s_def)
  have eq: "ptp_time_normalize t =
    (if s > 0 \<and> n < 0 then Some \<lparr>seconds = s - 1, nanoseconds = n + NS_PER_S\<rparr>
     else if s < 0 \<and> n > 0 then Some \<lparr>seconds = s + 1, nanoseconds = n - NS_PER_S\<rparr>
     else Some \<lparr>seconds = s, nanoseconds = n\<rparr>)"
  proof -
    have "s > 0 \<Longrightarrow> i32_range (s - 1)" "s < 0 \<Longrightarrow> i32_range (s + 1)" using s by (auto simp: i32_range_def)
    moreover have "i32_range (n + NS_PER_S)" "i32_range (n - NS_PER_S)" using n by (auto simp: i32_range_def NS_PER_S_def)
    ultimately show ?thesis
      using s unfolding ptp_time_normalize_def s_def [symmetric] n_def [symmetric] i32_def by simp
  qed
  consider "s > 0 \<and> n < 0" | "s < 0 \<and> n > 0" | "\<not> (s > 0 \<and> n < 0)" "\<not> (s < 0 \<and> n > 0)" by blast
  then show ?thesis
    by cases (use s n tot in \<open>auto simp: eq normal_def total_ns_def i32_range_def NS_PER_S_def\<close>)
qed

lemma normal_split:
  assumes "normal t"
  shows "total_ns t sdiv NS_PER_S = seconds t" "total_ns t smod NS_PER_S = nanoseconds t"
proof -
  note n = assms [unfolded normal_def]
  have pos: "(0::int) < NS_PER_S" by (simp add: NS_PER_S_def)
  show q: "total_ns t sdiv NS_PER_S = seconds t"
  proof (cases "0 \<le> total_ns t")
    case True
    then have "0 \<le> nanoseconds t" using n by (auto simp: total_ns_def NS_PER_S_def)
    then have "total_ns t div NS_PER_S = seconds t"
      using n by (intro int_div_pos_eq [of _ _ _ "nanoseconds t"]) (auto simp: total_ns_def)
    then show ?thesis using True sdiv_smod_cases [OF pos, of "total_ns t"] by auto
  next
    case False
    then have "nanoseconds t \<le> 0" using n by (auto simp: total_ns_def NS_PER_S_def)
    then have "(- total_ns t) div NS_PER_S = - seconds t"
      using n by (intro int_div_pos_eq [of _ _ _ "- nanoseconds t"]) (auto simp: total_ns_def)
    then show ?thesis using False sdiv_smod_cases [OF pos, of "total_ns t"] by auto
  qed
  show "total_ns t smod NS_PER_S = nanoseconds t"
    using sdiv_mult_smod_eq [of "total_ns t" NS_PER_S] q by (simp add: total_ns_def)
qed

lemma normal_unique: "normal t \<Longrightarrow> normal u \<Longrightarrow> total_ns t = total_ns u \<Longrightarrow> t = u"
  using normal_split [of t] normal_split [of u] by (cases t, cases u) simp

lemma normalize_normal:
  assumes "normal t" shows "ptp_time_normalize t = Some t"
proof -
  have "nanoseconds t sdiv NS_PER_S = 0"
    using assms sdiv_smod_cases [of NS_PER_S "nanoseconds t"] by (auto simp: normal_def NS_PER_S_def)
  then have "i32_range (seconds t + nanoseconds t sdiv NS_PER_S)" using assms by (simp add: normal_def)
  from normalize_ok [OF this] normal_unique [OF assms] show ?thesis by metis
qed

lemma to_ns_normal:
  assumes "normal t" shows "ptp_time_to_ns t = Some (total_ns t)"
proof -
  have "i64_range (seconds t * NS_PER_S)" "i64_range (seconds t * NS_PER_S + nanoseconds t)"
    using assms by (auto simp: normal_def i64_range_def i32_range_def NS_PER_S_def)
  then show ?thesis by (simp add: ptp_time_to_ns_def mul64_def add64_def i64_def total_ns_def)
qed

lemma ns_to_time_ok:
  assumes "\<bar>ns\<bar> < 2 ^ 31 * NS_PER_S"
  shows "\<exists>t. ptp_ns_to_time ns = Some t \<and> normal t \<and> total_ns t = ns"
proof -
  define t where "t = \<lparr>seconds = ns sdiv NS_PER_S, nanoseconds = ns smod NS_PER_S\<rparr>"
  have r: "i64_range ns" using assms by (auto simp: i64_range_def NS_PER_S_def)
  have q: "i32_range (ns sdiv NS_PER_S)"
    using assms sdiv_smod_cases [of NS_PER_S ns] by (auto simp: i32_range_def NS_PER_S_def)
  have m: "\<bar>ns smod NS_PER_S\<bar> < NS_PER_S" using smod_abs_less [of NS_PER_S] by (simp add: NS_PER_S_def)
  have m32: "i32_range (ns smod NS_PER_S)" using m by (auto simp: i32_range_def NS_PER_S_def)
  have n: "normal t"
    using q m smod_sign [of NS_PER_S ns] sdiv_sign [of NS_PER_S ns]
    by (cases "0 \<le> ns") (auto simp: normal_def t_def NS_PER_S_def)
  have "ptp_ns_to_time ns = ptp_time_normalize t"
    using r to_i32_id [OF q] to_i32_id [OF m32] by (simp add: ptp_ns_to_time_def div64_pos rem64_pos NS_PER_S_def t_def)
  then show ?thesis using n normalize_normal [OF n] sdiv_mult_smod_eq [of ns NS_PER_S] by (simp add: total_ns_def t_def)
qed

text \<open>A sum of seconds that leaves room for the carry of the nanoseconds.\<close>

definition roomy :: "int \<Rightarrow> bool" where
  "roomy s \<longleftrightarrow> - (2 ^ 31) < s \<and> s < 2 ^ 31 - 1"

lemma carry_ok:
  assumes "roomy s" "\<bar>n\<bar> < 2 * NS_PER_S"
  shows "\<exists>r. do { s \<leftarrow> i32 s; n \<leftarrow> i32 n; ptp_time_normalize \<lparr>seconds = s, nanoseconds = n\<rparr> } = Some r \<and>
    normal r \<and> total_ns r = s * NS_PER_S + n"
proof -
  have "\<bar>n sdiv NS_PER_S\<bar> \<le> 1" using assms(2) sdiv_smod_cases [of NS_PER_S n] by (auto simp: NS_PER_S_def)
  then have "i32_range (s + n sdiv NS_PER_S)" using assms(1) by (auto simp: i32_range_def roomy_def)
  with normalize_ok [of "\<lparr>seconds = s, nanoseconds = n\<rparr>"] show ?thesis
    using assms by (auto simp: i32_def i32_range_def roomy_def total_ns_def NS_PER_S_def)
qed

lemma total_ns_bounds:
  assumes "normal x"
  shows "- (2 ^ 31) * NS_PER_S - NS_PER_S < total_ns x" "total_ns x < 2 ^ 31 * NS_PER_S" "i64_range (total_ns x)"
  using assms by (auto simp: total_ns_def normal_def i32_range_def i64_range_def NS_PER_S_def)

lemma ns_roundtrip: "normal x \<Longrightarrow> ptp_ns_to_time (total_ns x) = Some x"
proof -
  assume x: "normal x"
  have "to_i32 (seconds x) = seconds x" "to_i32 (nanoseconds x) = nanoseconds x"
    using x by (auto intro!: to_i32_id simp: normal_def i32_range_def NS_PER_S_def)
  then show ?thesis using normal_split [OF x] normalize_normal [OF x] total_ns_bounds(3) [OF x]
    by (cases x) (simp add: ptp_ns_to_time_def div64_pos rem64_pos NS_PER_S_def)
qed

lemma div2_ok:
  assumes "normal x"
  shows "\<exists>r. ptp_time_div2 x = Some r \<and> normal r \<and> total_ns r = total_ns x sdiv 2"
proof -
  have "\<bar>total_ns x sdiv 2\<bar> < 2 ^ 31 * NS_PER_S"
    using total_ns_bounds [OF assms] sdiv_smod_cases [of 2 "total_ns x"] by (auto simp: NS_PER_S_def)
  from ns_to_time_ok [OF this] show ?thesis
    using total_ns_bounds(3) [OF assms] to_ns_normal [OF assms] by (auto simp: ptp_time_div2_def div64_pos)
qed

section \<open>Properties\<close>

text \<open>
  C36: time arithmetic.  For normalised operands, addition and subtraction are defined whenever the seconds leave room for a
  carry, halving is always defined, the results are normalised, and each agrees with the same operation on nanoseconds;
  conversion to nanoseconds and back gives the same time.
\<close>

theorem ptp_time_arith:
  assumes x: "normal x" and y: "normal y"
  shows "(roomy (seconds x + seconds y) \<longrightarrow>
      (\<exists>r. ptp_time_add x y = Some r \<and> normal r \<and> total_ns r = total_ns x + total_ns y)) \<and>
    (roomy (seconds x - seconds y) \<longrightarrow>
      (\<exists>r. ptp_time_sub x y = Some r \<and> normal r \<and> total_ns r = total_ns x - total_ns y)) \<and>
    (\<exists>r. ptp_time_div2 x = Some r \<and> normal r \<and> total_ns r = total_ns x sdiv 2) \<and>
    ptp_time_to_ns x = Some (total_ns x) \<and> ptp_ns_to_time (total_ns x) = Some x"
proof -
  have "\<bar>nanoseconds x + nanoseconds y\<bar> < 2 * NS_PER_S" "\<bar>nanoseconds x - nanoseconds y\<bar> < 2 * NS_PER_S"
    using x y by (auto simp: normal_def)
  then show ?thesis
    using carry_ok [of "seconds x + seconds y" "nanoseconds x + nanoseconds y"]
      carry_ok [of "seconds x - seconds y" "nanoseconds x - nanoseconds y"] div2_ok [OF x] ns_roundtrip [OF x]
    to_ns_normal [OF x] by (simp add: ptp_time_add_def ptp_time_sub_def total_ns_def algebra_simps)
qed

theorem ptp_time_arith_witness:
  "normal \<lparr>seconds = 3, nanoseconds = 600000000\<rparr> \<and> normal \<lparr>seconds = -1, nanoseconds = -900000000\<rparr> \<and>
   (\<exists>r. ptp_time_add \<lparr>seconds = 3, nanoseconds = 600000000\<rparr> \<lparr>seconds = -1, nanoseconds = -900000000\<rparr> = Some r \<and>
     total_ns r = 1700000000)"
proof -
  have n: "normal \<lparr>seconds = 3, nanoseconds = 600000000\<rparr>" "normal \<lparr>seconds = -1, nanoseconds = -900000000\<rparr>"
    by (simp_all add: normal_def i32_range_def NS_PER_S_def)
  from ptp_time_arith [OF n] n show ?thesis by (auto simp: roomy_def total_ns_def NS_PER_S_def)
qed

end
