(* ===== verification/Ptp_Msg.thy ===== *)
theory Ptp_Msg
  imports Ptp_Time
begin

text \<open>
  Wire format of the PTP port, \<^verbatim>\<open>port/ptp/ptp_msg.c\<close>.  A buffer is the list of its bytes; reading or writing past its
  end has no defined result.  The structure \<^verbatim>\<open>MsgHeader\<close> comes from ptpd, of which the fields used here appear.
\<close>

section \<open>Model\<close>

definition PTP_SYNC :: u8 where "PTP_SYNC = 0x0"
definition PTP_DELAY_REQ :: u8 where "PTP_DELAY_REQ = 0x1"
definition PTP_FOLLOW_UP :: u8 where "PTP_FOLLOW_UP = 0x8"
definition PTP_DELAY_RESP :: u8 where "PTP_DELAY_RESP = 0x9"
definition PTP_ANNOUNCE :: u8 where "PTP_ANNOUNCE = 0xB"
definition PTP_HEADER_LENGTH :: nat where "PTP_HEADER_LENGTH = 34"
definition PTP_EVENT_PORT :: u16 where "PTP_EVENT_PORT = 319"
definition PTP_GENERAL_PORT :: u16 where "PTP_GENERAL_PORT = 320"
definition CLOCK_IDENTITY_LENGTH :: nat where "CLOCK_IDENTITY_LENGTH = 8"

text \<open>The length of a Delay_Req message, 44 bytes.\<close>

definition DELAY_REQ_LENGTH :: nat where "DELAY_REQ_LENGTH = 44"

record MsgHeader =
  transportSpecific :: u8
  messageType :: u8
  versionPTP :: u8
  messageLength :: u16
  domainNumber :: u8
  flagField0 :: u8
  flagField1 :: u8
  correction_lsb :: u32
  correction_msb :: int
  clockIdentity :: "u8 list"
  portNumber :: u16
  sequenceId :: u16
  controlField :: u8
  logMessageInterval :: int

definition byte_at :: "u8 list \<Rightarrow> nat \<Rightarrow> u8 ub" where
  "byte_at buf i = (if i < length buf then Some (buf ! i) else None)"

definition set_byte :: "nat \<Rightarrow> u8 \<Rightarrow> u8 list \<Rightarrow> u8 list ub" where
  "set_byte i v buf = (if i < length buf then Some (buf[i := v]) else None)"

definition be16 :: "u8 list \<Rightarrow> nat \<Rightarrow> u16 ub" where
  "be16 p i = do { a \<leftarrow> byte_at p i; b \<leftarrow> byte_at p (i + 1); Some (push_bit 8 (ucast a) OR ucast b) }"

definition be32 :: "u8 list \<Rightarrow> nat \<Rightarrow> u32 ub" where
  "be32 p i = do {
     a \<leftarrow> byte_at p i; b \<leftarrow> byte_at p (i + 1); c \<leftarrow> byte_at p (i + 2); d \<leftarrow> byte_at p (i + 3);
     Some (((push_bit 24 (ucast a) OR push_bit 16 (ucast b)) OR push_bit 8 (ucast c)) OR ucast d) }"

text \<open>The loop of the 48- and 64-bit readers, from byte \<open>i\<close> on with \<open>n\<close> bytes to go.\<close>

fun be_loop :: "u8 list \<Rightarrow> nat \<Rightarrow> nat \<Rightarrow> u64 \<Rightarrow> u64 ub" where
  "be_loop p i 0 v = Some v"
| "be_loop p i (Suc n) v = do { b \<leftarrow> byte_at p i; be_loop p (i + 1) n (push_bit 8 v OR ucast b) }"

definition be48 :: "u8 list \<Rightarrow> nat \<Rightarrow> u64 ub" where
  "be48 p i = be_loop p i 6 0"

definition be64 :: "u8 list \<Rightarrow> nat \<Rightarrow> u64 ub" where
  "be64 p i = be_loop p i 8 0"

definition put16 :: "nat \<Rightarrow> u16 \<Rightarrow> u8 list \<Rightarrow> u8 list ub" where
  "put16 i v p = do { p \<leftarrow> set_byte i (ucast (drop_bit 8 v)) p; set_byte (i + 1) (ucast v) p }"

text \<open>The loop of the 48-bit writer: bytes \<open>i + n - 1\<close> down to \<open>i\<close>.\<close>

fun put_loop :: "nat \<Rightarrow> nat \<Rightarrow> u64 \<Rightarrow> u8 list \<Rightarrow> u8 list ub" where
  "put_loop i 0 v p = Some p"
| "put_loop i (Suc n) v p = do { p \<leftarrow> set_byte (i + n) (ucast v) p; put_loop i n (drop_bit 8 v) p }"

definition put48 :: "nat \<Rightarrow> u64 \<Rightarrow> u8 list \<Rightarrow> u8 list ub" where
  "put48 i v p = put_loop i 6 v p"

definition put32 :: "nat \<Rightarrow> u32 \<Rightarrow> u8 list \<Rightarrow> u8 list ub" where
  "put32 i v p = do {
     p \<leftarrow> set_byte i (ucast (drop_bit 24 v)) p; p \<leftarrow> set_byte (i + 1) (ucast (drop_bit 16 v)) p;
     p \<leftarrow> set_byte (i + 2) (ucast (drop_bit 8 v)) p; set_byte (i + 3) (ucast v) p }"

definition ptp_unpack_timestamp :: "u8 list \<Rightarrow> nat \<Rightarrow> Timestamp ub" where
  "ptp_unpack_timestamp buf at = do {
     secs \<leftarrow> be48 buf at;
     ns \<leftarrow> be32 buf (at + 6);
     Some \<lparr>seconds_msb = ucast (drop_bit 32 secs), seconds_lsb = ucast secs, nanosecondsField = ns\<rparr>
   }"

text \<open>Copying \<open>n\<close> bytes from position \<open>i\<close>, and writing a list of bytes from position \<open>i\<close> on.\<close>

fun get_bytes :: "u8 list \<Rightarrow> nat \<Rightarrow> nat \<Rightarrow> u8 list ub" where
  "get_bytes buf i 0 = Some []"
| "get_bytes buf i (Suc n) = do { b \<leftarrow> byte_at buf i; bs \<leftarrow> get_bytes buf (i + 1) n; Some (b # bs) }"

fun put_bytes :: "nat \<Rightarrow> u8 list \<Rightarrow> u8 list \<Rightarrow> u8 list ub" where
  "put_bytes i [] buf = Some buf"
| "put_bytes i (b # bs) buf = do { buf \<leftarrow> set_byte i b buf; put_bytes (i + 1) bs buf }"

definition ptp_unpack_header :: "u8 list \<Rightarrow> (u8 \<times> MsgHeader) ub" where
  "ptp_unpack_header buf = do {
     b0 \<leftarrow> byte_at buf 0;
     b1 \<leftarrow> byte_at buf 1;
     len \<leftarrow> be16 buf 2;
     dom \<leftarrow> byte_at buf 4;
     f0 \<leftarrow> byte_at buf 6;
     f1 \<leftarrow> byte_at buf 7;
     cf \<leftarrow> be64 buf 8;
     ci \<leftarrow> get_bytes buf 20 CLOCK_IDENTITY_LENGTH;
     pn \<leftarrow> be16 buf 28;
     sq \<leftarrow> be16 buf 30;
     ctl \<leftarrow> byte_at buf 32;
     li \<leftarrow> byte_at buf 33;
     Some (b0 AND 0x0F,
       \<lparr>transportSpecific = drop_bit 4 b0, messageType = b0 AND 0x0F, versionPTP = b1 AND 0x0F, messageLength = len,
        domainNumber = dom, flagField0 = f0, flagField1 = f1, correction_lsb = ucast cf,
        correction_msb = to_i32 (uint (drop_bit 32 cf)), clockIdentity = ci, portNumber = pn, sequenceId = sq,
        controlField = ctl, logMessageInterval = to_i8 li\<rparr>)
   }"

definition ptp_header_two_step :: "MsgHeader \<Rightarrow> bool" where
  "ptp_header_two_step hdr \<longleftrightarrow> flagField0 hdr AND 0x02 \<noteq> 0"

text \<open>Clearing the first \<open>n\<close> bytes.\<close>

fun clear_bytes :: "nat \<Rightarrow> u8 list \<Rightarrow> u8 list ub" where
  "clear_bytes 0 buf = Some buf"
| "clear_bytes (Suc n) buf = do { buf \<leftarrow> clear_bytes n buf; set_byte n 0 buf }"

definition ptp_pack_delay_req :: "u8 list \<Rightarrow> MsgHeader \<Rightarrow> u16 \<Rightarrow> Timestamp \<Rightarrow> (nat \<times> u8 list) ub" where
  "ptp_pack_delay_req buf self seqId originTs = do {
     buf \<leftarrow> clear_bytes DELAY_REQ_LENGTH buf;
     buf \<leftarrow> set_byte 0 PTP_DELAY_REQ buf;
     buf \<leftarrow> set_byte 1 0x02 buf;
     buf \<leftarrow> put16 2 (of_nat DELAY_REQ_LENGTH) buf;
     buf \<leftarrow> set_byte 4 (domainNumber self) buf;
     buf \<leftarrow> set_byte 6 0 buf;
     buf \<leftarrow> set_byte 7 0 buf;
     buf \<leftarrow> put_bytes 20 (take CLOCK_IDENTITY_LENGTH (clockIdentity self)) buf;
     buf \<leftarrow> put16 28 (portNumber self) buf;
     buf \<leftarrow> put16 30 seqId buf;
     buf \<leftarrow> set_byte 32 0x01 buf;
     buf \<leftarrow> set_byte 33 0x7F buf;
     buf \<leftarrow> put48 34 (push_bit 32 (ucast (seconds_msb originTs)) OR ucast (seconds_lsb originTs)) buf;
     buf \<leftarrow> put32 40 (nanosecondsField originTs) buf;
     Some (DELAY_REQ_LENGTH, buf)
   }"

section \<open>Bytes of a word\<close>

lemma join8: "8 \<le> LENGTH('a) \<Longrightarrow> push_bit 8 (drop_bit 8 w) OR ucast (ucast w :: u8) = (w :: 'a::len word)"
  by (rule bit_word_eqI) (auto simp: bit_simps)

lemma top8: "(\<And>n. 8 \<le> n \<Longrightarrow> \<not> bit w n) \<Longrightarrow> 8 \<le> LENGTH('a) \<Longrightarrow> ucast (ucast w :: u8) = (w :: 'a::len word)"
  by (rule bit_word_eqI) (auto simp: bit_simps not_less [symmetric])

lemma join16: "push_bit 8 (ucast (ucast (drop_bit 8 v) :: u8)) OR ucast (ucast v :: u8) = (v :: u16)"
  by (rule bit_word_eqI) (auto simp: bit_simps)

lemma join32:
  "((push_bit 24 (ucast (ucast (drop_bit 24 v) :: u8)) OR push_bit 16 (ucast (ucast (drop_bit 16 v) :: u8))) OR
   push_bit 8 (ucast (ucast (drop_bit 8 v) :: u8))) OR ucast (ucast v :: u8) = (v :: u32)" (is "?l = v")
proof -
  have t: "ucast (ucast (drop_bit 24 v) :: u8) = drop_bit 24 v"
    by (rule top8) (auto simp: bit_simps dest!: bit_imp_le_length)
  have "?l = push_bit 8 (push_bit 8 (push_bit 8 (drop_bit 24 v) OR ucast (ucast (drop_bit 16 v) :: u8))
    OR ucast (ucast (drop_bit 8 v) :: u8)) OR ucast (ucast v :: u8)"
    by (simp add: push_bit_or t)
  also have "\<dots> = v"
    using join8 [of "drop_bit 16 v"] join8 [of "drop_bit 8 v"] join8 [of v] by (simp add: push_bit_or del: push_bit_push_bit)
  finally show ?thesis .
qed

lemma join48:
  assumes "\<And>n. 48 \<le> n \<Longrightarrow> \<not> bit v n"
  shows "push_bit 8 (push_bit 8 (push_bit 8 (push_bit 8 (push_bit 8 (ucast (ucast (drop_bit 40 v) :: u8)) OR
    ucast (ucast (drop_bit 32 v) :: u8)) OR ucast (ucast (drop_bit 24 v) :: u8)) OR ucast (ucast (drop_bit 16 v) :: u8)) OR
    ucast (ucast (drop_bit 8 v) :: u8)) OR ucast (ucast v :: u8) = (v :: u64)"
proof -
  have t: "ucast (ucast (drop_bit 40 v) :: u8) = drop_bit 40 v"
    by (rule top8) (simp_all add: bit_simps assms)
  show ?thesis
    using join8 [of "drop_bit 32 v"] join8 [of "drop_bit 24 v"] join8 [of "drop_bit 16 v"] join8 [of "drop_bit 8 v"]
      join8 [of v] t by simp
qed

text \<open>The 48-bit seconds of a timestamp, put together and taken apart.\<close>

definition ts_secs :: "Timestamp \<Rightarrow> u64" where
  "ts_secs ts = push_bit 32 (ucast (seconds_msb ts)) OR ucast (seconds_lsb ts)"

lemma ts_secs:
  "ucast (drop_bit 32 (ts_secs ts)) = seconds_msb ts" "ucast (ts_secs ts) = seconds_lsb ts"
  "48 \<le> n \<Longrightarrow> \<not> bit (ts_secs ts) n"
  subgoal unfolding ts_secs_def by (rule bit_word_eqI) (auto simp: bit_simps dest: bit_imp_le_length)
  subgoal unfolding ts_secs_def by (rule bit_word_eqI) (auto simp: bit_simps)
  subgoal unfolding ts_secs_def by (auto simp: bit_simps dest!: bit_imp_le_length)
  done

text \<open>The readers unrolled.\<close>

lemma be48_eq: "be48 p i = do {
     a \<leftarrow> byte_at p i; b \<leftarrow> byte_at p (i + 1); c \<leftarrow> byte_at p (i + 2); d \<leftarrow> byte_at p (i + 3);
     e \<leftarrow> byte_at p (i + 4); f \<leftarrow> byte_at p (i + 5);
     Some (push_bit 8 (push_bit 8 (push_bit 8 (push_bit 8 (push_bit 8 (ucast a) OR ucast b) OR ucast c) OR ucast d) OR
       ucast e) OR ucast f) }"
  by (simp add: be48_def eval_nat_numeral)

lemma be64_eq: "be64 p i = do {
     a \<leftarrow> byte_at p i; b \<leftarrow> byte_at p (i + 1); c \<leftarrow> byte_at p (i + 2); d \<leftarrow> byte_at p (i + 3);
     e \<leftarrow> byte_at p (i + 4); f \<leftarrow> byte_at p (i + 5); g \<leftarrow> byte_at p (i + 6); h \<leftarrow> byte_at p (i + 7);
     Some (push_bit 8 (push_bit 8 (push_bit 8 (push_bit 8 (push_bit 8 (push_bit 8 (push_bit 8 (ucast a) OR ucast b) OR
       ucast c) OR ucast d) OR ucast e) OR ucast f) OR ucast g) OR ucast h) }"
  by (simp add: be64_def eval_nat_numeral)

lemma put48_eq: "put48 i v p = do {
     p \<leftarrow> set_byte (i + 5) (ucast v) p; p \<leftarrow> set_byte (i + 4) (ucast (drop_bit 8 v)) p;
     p \<leftarrow> set_byte (i + 3) (ucast (drop_bit 16 v)) p; p \<leftarrow> set_byte (i + 2) (ucast (drop_bit 24 v)) p;
     p \<leftarrow> set_byte (i + 1) (ucast (drop_bit 32 v)) p; set_byte i (ucast (drop_bit 40 v)) p }"
proof -
  have "put_loop i 0 v = Some" "put_loop i (Suc n) v = (\<lambda>p. do { p \<leftarrow> set_byte (i + n) (ucast v) p; put_loop i n (drop_bit 8 v) p })"
    for n and v :: u64 by (rule ext; simp)+
  then show ?thesis by (simp add: put48_def eval_nat_numeral)
qed

lemma get_bytes_eq: "i + n \<le> length p \<Longrightarrow> get_bytes p i n = Some (take n (drop i p))"
proof (induction n arbitrary: i)
  case (Suc n)
  then show ?case by (simp add: byte_at_def Cons_nth_drop_Suc [symmetric])
qed simp

section \<open>The bytes of a Delay\_Req\<close>

definition delay_req_bytes :: "MsgHeader \<Rightarrow> u16 \<Rightarrow> Timestamp \<Rightarrow> u8 list" where
  "delay_req_bytes self seqId ts =
     [1, 2, 0, 44, domainNumber self, 0, 0, 0, 0, 0, 0, 0, 0, 0, 0, 0, 0, 0, 0, 0] @ clockIdentity self @
     [ucast (drop_bit 8 (portNumber self)), ucast (portNumber self), ucast (drop_bit 8 seqId), ucast seqId, 1, 0x7F] @
     map (\<lambda>k. ucast (drop_bit k (ts_secs ts))) [40, 32, 24, 16, 8, 0] @
     map (\<lambda>k. ucast (drop_bit k (nanosecondsField ts))) [24, 16, 8, 0]"

lemma clear_bytes_eq: "n \<le> length buf \<Longrightarrow> clear_bytes n buf = Some (replicate n 0 @ drop n buf)"
proof (induction n)
  case (Suc n)
  then have "drop n buf = buf ! n # drop (Suc n) buf" by (simp add: Cons_nth_drop_Suc)
  then show ?case using Suc by (simp add: set_byte_def list_update_append replicate_append_same)
qed simp

lemma set_byte_Cons:
  "set_byte 0 v (x # xs) = Some (v # xs)" "set_byte (Suc n) v (x # xs) = map_option ((#) x) (set_byte n v xs)"
  "set_byte (numeral k) v (x # xs) = map_option ((#) x) (set_byte (pred_numeral k) v xs)"
  by (simp_all add: set_byte_def numeral_eq_Suc)

lemma list8: "length xs = 8 \<Longrightarrow> \<exists>a b c d e f g h. xs = [a, b, c, d, e, f, g, h]"
  by (auto simp: numeral_eq_Suc length_Suc_conv)

lemma pack_delay_req:
  assumes "44 \<le> length buf" "length (clockIdentity self) = 8"
  shows "ptp_pack_delay_req buf self seqId ts = Some (44, delay_req_bytes self seqId ts @ drop 44 buf)"
proof -
  have c: "clear_bytes DELAY_REQ_LENGTH buf = Some (replicate 44 0 @ drop 44 buf)"
    using clear_bytes_eq [OF assms(1)] by (simp add: DELAY_REQ_LENGTH_def)
  obtain a b c d e f g h where i: "clockIdentity self = [a, b, c, d, e, f, g, h]" using list8 [OF assms(2)] by blast
  have r: "replicate 44 (0::u8) = [0,0,0,0,0,0,0,0,0,0,0,0,0,0,0,0,0,0,0,0,0,0,0,0,0,0,0,0,0,0,0,0,0,0,0,0,0,0,0,0,0,0,0,0]"
    by (simp add: numeral_eq_Suc)
  have l: "put16 2 (of_nat DELAY_REQ_LENGTH) p = do { p \<leftarrow> set_byte 2 0 p; set_byte 3 44 p }" for p
    by (simp add: put16_def DELAY_REQ_LENGTH_def)
  show ?thesis
    unfolding ptp_pack_delay_req_def c r l ts_secs_def [symmetric]
    by (simp add: i set_byte_Cons put16_def put48_eq put32_def CLOCK_IDENTITY_LENGTH_def DELAY_REQ_LENGTH_def
      PTP_DELAY_REQ_def delay_req_bytes_def)
qed

section \<open>Properties\<close>



end
