(* ===== verification/Ptp_Clock.thy ===== *)
theory Ptp_Clock
  imports Ptp_Time
begin

text \<open>
  The disciplined clock of \<^verbatim>\<open>port/ptp/ptp_clock.c\<close>: a linear model over the generic-timer counter.  The counter and
  its frequency are hardware registers, a parameter: the \<open>k\<close>-th read of the counter gives the \<open>k\<close>-th value of the sequence
  \<open>hw_cnt\<close>.
\<close>

section \<open>Model\<close>

record ptp_hw =
  hw_freq :: u64
  hw_cnt :: "nat \<Rightarrow> u64"

record ptp_clock =
  reads :: nat
  s_base_cnt :: u64
  s_base_ns :: int
  s_ppb :: int
  s_epoch :: u32

definition PTP_CLOCK_MAX_PPB :: int where
  "PTP_CLOCK_MAX_PPB = 500000"

definition ptp_clock_read_cnt :: "ptp_hw \<Rightarrow> ptp_clock \<Rightarrow> u64 \<times> ptp_clock" where
  "ptp_clock_read_cnt hw c = (hw_cnt hw (reads c), c\<lparr>reads := Suc (reads c)\<rparr>)"

definition ptp_clock_cnt_freq :: "ptp_hw \<Rightarrow> u64" where
  "ptp_clock_cnt_freq hw = hw_freq hw"

definition ticks_to_ns :: "ptp_hw \<Rightarrow> int \<Rightarrow> int ub" where
  "ticks_to_ns hw dt =
    (let f = to_i64 (ptp_clock_cnt_freq hw) in
     if f \<le> 0 then Some 0
     else do {
       secs \<leftarrow> div64 dt f;
       rm \<leftarrow> rem64 dt f;
       a \<leftarrow> mul64 secs NS_PER_S;
       b \<leftarrow> mul64 rm NS_PER_S;
       b \<leftarrow> div64 b f;
       add64 a b
     })"

definition scale_ppb :: "int \<Rightarrow> int \<Rightarrow> int ub" where
  "scale_ppb d ppb = do {
     whole \<leftarrow> div64 d NS_PER_S;
     frac \<leftarrow> rem64 d NS_PER_S;
     a \<leftarrow> mul64 whole ppb;
     b \<leftarrow> mul64 frac ppb;
     b \<leftarrow> div64 b NS_PER_S;
     add64 a b
   }"

definition ptp_clock_from_cnt :: "ptp_hw \<Rightarrow> u64 \<Rightarrow> ptp_clock \<Rightarrow> int ub" where
  "ptp_clock_from_cnt hw cnt c = do {
     d \<leftarrow> ticks_to_ns hw (to_i64 (cnt - s_base_cnt c));
     a \<leftarrow> add64 (s_base_ns c) d;
     b \<leftarrow> scale_ppb d (s_ppb c);
     add64 a b
   }"

definition ptp_clock_now_ns :: "ptp_hw \<Rightarrow> ptp_clock \<Rightarrow> (int \<times> ptp_clock) ub" where
  "ptp_clock_now_ns hw c =
    (let (cnt, c) = ptp_clock_read_cnt hw c in do { t \<leftarrow> ptp_clock_from_cnt hw cnt c; Some (t, c) })"

definition ptp_clock_now :: "ptp_hw \<Rightarrow> ptp_clock \<Rightarrow> (TimeInternal \<times> ptp_clock) ub" where
  "ptp_clock_now hw c = do {
     (ns, c) \<leftarrow> ptp_clock_now_ns hw c;
     t \<leftarrow> ptp_ns_to_time ns;
     Some (t, c)
   }"

definition rebase :: "ptp_hw \<Rightarrow> ptp_clock \<Rightarrow> ptp_clock ub" where
  "rebase hw c =
    (let (now, c) = ptp_clock_read_cnt hw c in do {
       t \<leftarrow> ptp_clock_from_cnt hw now c;
       Some (c\<lparr>s_base_ns := t, s_base_cnt := now\<rparr>)
     })"

definition ptp_clock_step :: "ptp_hw \<Rightarrow> int \<Rightarrow> ptp_clock \<Rightarrow> ptp_clock ub" where
  "ptp_clock_step hw delta_ns c = do {
     c \<leftarrow> rebase hw c;
     t \<leftarrow> add64 (s_base_ns c) delta_ns;
     Some (c\<lparr>s_base_ns := t, s_epoch := s_epoch c + 1\<rparr>)
   }"

definition ptp_clock_adjfreq :: "ptp_hw \<Rightarrow> int \<Rightarrow> ptp_clock \<Rightarrow> ptp_clock ub" where
  "ptp_clock_adjfreq hw ppb c =
    (let ppb = (if ppb > PTP_CLOCK_MAX_PPB then PTP_CLOCK_MAX_PPB else ppb);
         ppb = (if ppb < - PTP_CLOCK_MAX_PPB then - PTP_CLOCK_MAX_PPB else ppb)
     in do {
       c \<leftarrow> rebase hw c;
       Some (c\<lparr>s_ppb := ppb\<rparr>)
     })"

definition ptp_clock_get_freq :: "ptp_clock \<Rightarrow> int" where
  "ptp_clock_get_freq c = s_ppb c"

definition ptp_clock_epoch :: "ptp_clock \<Rightarrow> u32" where
  "ptp_clock_epoch c = s_epoch c"

definition ptp_clock_raw_ns :: "ptp_hw \<Rightarrow> ptp_clock \<Rightarrow> (int \<times> ptp_clock) ub" where
  "ptp_clock_raw_ns hw c =
    (let (cnt, c) = ptp_clock_read_cnt hw c in do { t \<leftarrow> ticks_to_ns hw (to_i64 cnt); Some (t, c) })"

section \<open>Truncating division\<close>

lemma sdiv_mono: "0 < (b::int) \<Longrightarrow> x \<le> y \<Longrightarrow> x sdiv b \<le> y sdiv b"
  using sdiv_smod_cases [of b x] sdiv_smod_cases [of b y] zdiv_mono1 [of x y b] zdiv_mono1 [of "- y" "- x" b]
    pos_imp_zdiv_nonneg_iff [of b y] pos_imp_zdiv_nonneg_iff [of b "- x"] by auto

lemma sdiv_add_mult:
  assumes "0 < (f::int)" "0 \<le> a \<and> 0 \<le> b \<or> a \<le> 0 \<and> b \<le> 0"
  shows "(a * f + b) sdiv f = a + b sdiv f"
proof -
  consider "0 \<le> a" "0 \<le> b" | "a \<le> 0" "b \<le> 0" using assms(2) by blast
  then show ?thesis
  proof cases
    case 1
    then have "0 \<le> a * f + b" using assms(1) by simp
    moreover have "(a * f + b) div f = a + b div f" using assms(1) div_mult_self1 [of f b a] by (simp add: add.commute)
    ultimately show ?thesis
      using 1 assms(1) sdiv_smod_cases [of f "a * f + b"] sdiv_smod_cases [of f b] by linarith
  next
    case 2
    have "(- (a * f + b)) div f = - a + (- b) div f"
      using assms(1) div_mult_self1 [of f "- b" "- a"] by (simp add: algebra_simps)
    moreover have "a * f \<le> 0" using 2 assms(1) by (simp add: mult_nonpos_nonneg)
    ultimately show ?thesis
      using 2 assms(1) sdiv_smod_cases [of f "a * f + b"] sdiv_smod_cases [of f b]
      by (cases "a * f + b = 0") (auto simp: zero_le_mult_iff)
  qed
qed

lemma sdiv_split:
  fixes d k f :: int
  assumes "0 < f"
  shows "(d sdiv f) * k + ((d smod f) * k) sdiv f = (d * k) sdiv f"
proof -
  let ?q = "d sdiv f" and ?r = "d smod f"
  have "0 \<le> ?q \<and> 0 \<le> ?r \<or> ?q \<le> 0 \<and> ?r \<le> 0"
    using sdiv_sign [OF assms, of d] smod_sign [OF assms, of d] by (cases "0 \<le> d") auto
  then have "0 \<le> ?q * k \<and> 0 \<le> ?r * k \<or> ?q * k \<le> 0 \<and> ?r * k \<le> 0"
    by (cases "0 \<le> k") (auto simp: mult_nonneg_nonneg mult_nonpos_nonneg mult_nonneg_nonpos mult_nonpos_nonpos)
  from sdiv_add_mult [OF assms this] have "(?q * k * f + ?r * k) sdiv f = ?q * k + (?r * k) sdiv f" .
  moreover have "?q * k * f + ?r * k = d * k"
    using sdiv_mult_smod_eq [of d f] by (metis (no_types, lifting) distrib_right mult.assoc mult.commute)
  ultimately show ?thesis by simp
qed

lemma sdiv_bound: "0 < (f::int) \<Longrightarrow> \<bar>d\<bar> \<le> k * f \<Longrightarrow> \<bar>d sdiv f\<bar> \<le> k"
proof -
  assume f: "0 < f" and d: "\<bar>d\<bar> \<le> k * f"
  have "d sdiv f \<le> (k * f) sdiv f" "((- k) * f) sdiv f \<le> d sdiv f"
    using d by (auto intro!: sdiv_mono [OF f] simp del: mult_minus_left)
  moreover have "(k * f) sdiv f = k" "((- k) * f) sdiv f = - k"
    using sdiv_add_mult [OF f, of k 0] sdiv_add_mult [OF f, of "- k" 0] by (cases "0 \<le> k"; simp)+
  ultimately show ?thesis by simp
qed

section \<open>The scaling is exact\<close>

definition freq_ok :: "ptp_hw \<Rightarrow> bool" where
  "freq_ok hw \<longleftrightarrow> 0 < to_i64 (hw_freq hw) \<and> to_i64 (hw_freq hw) \<le> 9000000000"

definition span_ok :: "ptp_hw \<Rightarrow> int \<Rightarrow> bool" where
  "span_ok hw dt \<longleftrightarrow> i64_range dt \<and> \<bar>dt\<bar> \<le> 4000000000 * to_i64 (hw_freq hw)"

lemma scale_ppb_exact:
  assumes "i64_range d" "\<bar>ppb\<bar> \<le> PTP_CLOCK_MAX_PPB"
  shows "scale_ppb d ppb = Some ((d * ppb) sdiv NS_PER_S)"
proof -
  let ?w = "d sdiv NS_PER_S" and ?r = "d smod NS_PER_S"
  have pos: "(0::int) < NS_PER_S" by (simp add: NS_PER_S_def)
  have w: "\<bar>?w\<bar> \<le> 9223372037"
    using assms(1) by (intro sdiv_bound [OF pos]) (auto simp: i64_range_def NS_PER_S_def)
  have r: "\<bar>?r\<bar> \<le> NS_PER_S" using smod_abs_less [OF pos, of d] by simp
  have a: "\<bar>?w * ppb\<bar> \<le> 9223372037 * 500000"
    using mult_mono [OF w assms(2)] by (simp add: abs_mult PTP_CLOCK_MAX_PPB_def)
  have b: "\<bar>?r * ppb\<bar> \<le> NS_PER_S * 500000"
    using mult_mono [OF r assms(2)] by (simp add: abs_mult PTP_CLOCK_MAX_PPB_def NS_PER_S_def)
  have c: "\<bar>(?r * ppb) sdiv NS_PER_S\<bar> \<le> 500000"
    using b by (intro sdiv_bound [OF pos]) (simp add: mult.commute)
  have ok: "mul64 ?w ppb = Some (?w * ppb)" "mul64 ?r ppb = Some (?r * ppb)" "i64_range (?r * ppb)"
    "add64 (?w * ppb) ((?r * ppb) sdiv NS_PER_S) = Some ((d * ppb) sdiv NS_PER_S)"
    using a b c sdiv_split [OF pos, of d ppb]
    by (auto simp: mul64_def add64_def i64_def i64_range_def NS_PER_S_def abs_le_iff)
  show ?thesis
    using ok by (simp add: scale_ppb_def div64_pos [OF pos assms(1)] rem64_pos [OF pos assms(1)] div64_pos [OF pos])
qed

lemma ticks_to_ns_exact:
  assumes "freq_ok hw" "span_ok hw dt"
  shows "ticks_to_ns hw dt = Some ((dt * NS_PER_S) sdiv to_i64 (hw_freq hw))"
    and "\<bar>(dt * NS_PER_S) sdiv to_i64 (hw_freq hw)\<bar> \<le> 4000000000 * NS_PER_S"
proof -
  let ?f = "to_i64 (hw_freq hw)"
  let ?w = "dt sdiv ?f" and ?r = "dt smod ?f"
  have pos: "0 < ?f" and le: "?f \<le> 9000000000" and dt: "i64_range dt" "\<bar>dt\<bar> \<le> 4000000000 * ?f"
    using assms by (auto simp: freq_ok_def span_ok_def)
  have w: "\<bar>?w\<bar> \<le> 4000000000" by (rule sdiv_bound [OF pos dt(2)])
  have r: "\<bar>?r\<bar> \<le> ?f" using smod_abs_less [OF pos, of dt] by simp
  have c: "\<bar>(?r * NS_PER_S) sdiv ?f\<bar> \<le> NS_PER_S"
    using r by (intro sdiv_bound [OF pos]) (simp add: abs_mult NS_PER_S_def)
  have ok: "mul64 ?w NS_PER_S = Some (?w * NS_PER_S)" "mul64 ?r NS_PER_S = Some (?r * NS_PER_S)" "i64_range (?r * NS_PER_S)"
    "add64 (?w * NS_PER_S) ((?r * NS_PER_S) sdiv ?f) = Some ((dt * NS_PER_S) sdiv ?f)"
    using w r c le sdiv_split [OF pos, of dt NS_PER_S]
    by (auto simp: mul64_def add64_def i64_def i64_range_def NS_PER_S_def abs_le_iff)
  show "ticks_to_ns hw dt = Some ((dt * NS_PER_S) sdiv ?f)"
    using ok pos
    by (simp add: ticks_to_ns_def Let_def ptp_clock_cnt_freq_def div64_pos [OF pos dt(1)] rem64_pos [OF pos dt(1)]
      div64_pos [OF pos])
  show "\<bar>(dt * NS_PER_S) sdiv ?f\<bar> \<le> 4000000000 * NS_PER_S"
    using dt(2) by (intro sdiv_bound [OF pos]) (simp add: abs_mult NS_PER_S_def)
qed

section \<open>The clock model\<close>

definition clock_ok :: "ptp_hw \<Rightarrow> ptp_clock \<Rightarrow> bool" where
  "clock_ok hw c \<longleftrightarrow> freq_ok hw \<and> \<bar>s_ppb c\<bar> \<le> PTP_CLOCK_MAX_PPB \<and> \<bar>s_base_ns c\<bar> \<le> 4000000000 * NS_PER_S"

text \<open>The nominal time since the anchor, and the disciplined time it gives.\<close>

definition nominal :: "ptp_hw \<Rightarrow> u64 \<Rightarrow> ptp_clock \<Rightarrow> int" where
  "nominal hw cnt c = (to_i64 (cnt - s_base_cnt c) * NS_PER_S) sdiv to_i64 (hw_freq hw)"

lemma from_cnt_exact:
  assumes c: "clock_ok hw c" and s: "span_ok hw (to_i64 (cnt - s_base_cnt c))"
  shows "ptp_clock_from_cnt hw cnt c =
    Some (s_base_ns c + nominal hw cnt c + (nominal hw cnt c * s_ppb c) sdiv NS_PER_S)"
proof -
  let ?d = "nominal hw cnt c"
  have f: "freq_ok hw" and p: "\<bar>s_ppb c\<bar> \<le> PTP_CLOCK_MAX_PPB" and b: "\<bar>s_base_ns c\<bar> \<le> 4000000000 * NS_PER_S"
    using c by (auto simp: clock_ok_def)
  have d: "\<bar>?d\<bar> \<le> 4000000000 * NS_PER_S" "ticks_to_ns hw (to_i64 (cnt - s_base_cnt c)) = Some ?d"
    using ticks_to_ns_exact [OF f s] by (auto simp: nominal_def)
  have r: "i64_range ?d" using d(1) by (auto simp: i64_range_def NS_PER_S_def)
  have "\<bar>?d * s_ppb c\<bar> \<le> (4000000000 * NS_PER_S) * PTP_CLOCK_MAX_PPB"
    using mult_mono [OF d(1) p] by (simp add: abs_mult NS_PER_S_def)
  then have "\<bar>(?d * s_ppb c) sdiv NS_PER_S\<bar> \<le> 4000000000 * 500000"
    by (intro sdiv_bound) (simp_all add: NS_PER_S_def PTP_CLOCK_MAX_PPB_def)
  then have "add64 (s_base_ns c) ?d = Some (s_base_ns c + ?d)"
    "add64 (s_base_ns c + ?d) ((?d * s_ppb c) sdiv NS_PER_S) = Some (s_base_ns c + ?d + (?d * s_ppb c) sdiv NS_PER_S)"
    using b d(1) by (auto simp: add64_def i64_def i64_range_def NS_PER_S_def abs_le_iff)
  then show ?thesis by (simp add: ptp_clock_from_cnt_def d(2) scale_ppb_exact [OF r p])
qed

lemma sdiv_shift:
  assumes "0 < (N::int)" "0 \<le> k"
  shows "x sdiv N - k \<le> (x - k * N) sdiv N"
proof -
  have "(x - k * N) div N = x div N - k" "(- (x - k * N)) div N = k + (- x) div N"
    using assms(1) div_mult_self1 [of N x "- k"] div_mult_self1 [of N "- x" k] by (simp_all add: algebra_simps)
  moreover have "x div N + (- x) div N \<le> 0"
    using assms(1) div_add1_eq [of x "- x" N] pos_imp_zdiv_nonneg_iff [of N "x mod N + - x mod N"] by simp
  moreover have "0 \<le> k * N" using assms by simp
  ultimately show ?thesis
    using sdiv_smod_cases [OF assms(1), of x] sdiv_smod_cases [OF assms(1), of "x - k * N"] by auto
qed

lemma discipline_mono:
  assumes "\<bar>p\<bar> \<le> PTP_CLOCK_MAX_PPB" "d1 \<le> d2"
  shows "d1 + (d1 * p) sdiv NS_PER_S \<le> d2 + (d2 * p) sdiv NS_PER_S"
proof -
  have pos: "(0::int) < NS_PER_S" by (simp add: NS_PER_S_def)
  have "\<bar>(d2 - d1) * p\<bar> \<le> (d2 - d1) * NS_PER_S"
    using assms mult_left_mono [of "\<bar>p\<bar>" NS_PER_S "d2 - d1"] by (simp add: abs_mult PTP_CLOCK_MAX_PPB_def NS_PER_S_def)
  then have "d1 * p - (d2 - d1) * NS_PER_S \<le> d2 * p" by (simp add: algebra_simps abs_le_iff)
  from sdiv_mono [OF pos this] sdiv_shift [OF pos, of "d2 - d1" "d1 * p"] assms(2) show ?thesis by simp
qed

text \<open>Re-anchoring: the clock reads the same at the new anchor.\<close>

lemma from_cnt_anchor: "i64_range (s_base_ns c) \<Longrightarrow> \<bar>s_ppb c\<bar> \<le> PTP_CLOCK_MAX_PPB \<Longrightarrow>
  ptp_clock_from_cnt hw (s_base_cnt c) c = Some (s_base_ns c)"
proof -
  assume b: "i64_range (s_base_ns c)" and p: "\<bar>s_ppb c\<bar> \<le> PTP_CLOCK_MAX_PPB"
  have "ticks_to_ns hw 0 = Some 0"
    by (simp add: ticks_to_ns_def Let_def div64_def rem64_def mul64_def add64_def i64_def i64_range_def)
  moreover have "scale_ppb 0 (s_ppb c) = Some 0" using scale_ppb_exact [OF _ p, of 0] by (simp add: i64_range_def)
  ultimately show ?thesis
    using b by (simp add: ptp_clock_from_cnt_def to_i64_def add64_def i64_def)
qed

lemma rebase_eq: "rebase hw c = map_option
    (\<lambda>t. c\<lparr>reads := Suc (reads c), s_base_ns := t, s_base_cnt := hw_cnt hw (reads c)\<rparr>)
    (ptp_clock_from_cnt hw (hw_cnt hw (reads c)) c)"
proof -
  have "ptp_clock_from_cnt hw n (c\<lparr>reads := k\<rparr>) = ptp_clock_from_cnt hw n c" for n k
    by (simp add: ptp_clock_from_cnt_def)
  then show ?thesis
    by (cases "ptp_clock_from_cnt hw (hw_cnt hw (reads c)) c") (simp_all add: rebase_def ptp_clock_read_cnt_def)
qed

lemma from_cnt_range: "ptp_clock_from_cnt hw n c = Some t \<Longrightarrow> i64_range t"
  by (auto simp: ptp_clock_from_cnt_def bind_Some_iff checked64_Some_iff)

definition clamped :: "int \<Rightarrow> int" where
  "clamped ppb = max (- PTP_CLOCK_MAX_PPB) (min PTP_CLOCK_MAX_PPB ppb)"

lemma clamped_le: "\<bar>clamped ppb\<bar> \<le> PTP_CLOCK_MAX_PPB"
  by (auto simp: clamped_def PTP_CLOCK_MAX_PPB_def)

lemma clamped_id: "\<bar>ppb\<bar> \<le> PTP_CLOCK_MAX_PPB \<Longrightarrow> clamped ppb = ppb"
  by (auto simp: clamped_def)

lemma adjfreq_eq: "ptp_clock_adjfreq hw ppb c = map_option (\<lambda>c. c\<lparr>s_ppb := clamped ppb\<rparr>) (rebase hw c)"
proof -
  have "(let ppb = (if ppb > PTP_CLOCK_MAX_PPB then PTP_CLOCK_MAX_PPB else ppb)
     in if ppb < - PTP_CLOCK_MAX_PPB then - PTP_CLOCK_MAX_PPB else ppb) = clamped ppb"
    by (auto simp: clamped_def PTP_CLOCK_MAX_PPB_def)
  then show ?thesis by (cases "rebase hw c") (simp_all add: ptp_clock_adjfreq_def Let_def)
qed

section \<open>Properties\<close>

text \<open>
  C32: exact scaling.  The split multiplications of the clock compute the truncated quotients that the formulas in the header
  file name, for every tick difference up to four thousand million seconds and every 64-bit duration, although the
  unsplit products would not fit 64 bits.
\<close>

theorem ptp_clock_scaling_exact:
  assumes "freq_ok hw" "span_ok hw dt" "i64_range d" "\<bar>ppb\<bar> \<le> PTP_CLOCK_MAX_PPB"
  shows "ticks_to_ns hw dt = Some ((dt * NS_PER_S) sdiv to_i64 (hw_freq hw)) \<and>
    scale_ppb d ppb = Some ((d * ppb) sdiv NS_PER_S)"
  using ticks_to_ns_exact(1) [OF assms(1,2)] scale_ppb_exact [OF assms(3,4)] by simp

theorem ptp_clock_scaling_exact_witness:
  "freq_ok \<lparr>hw_freq = 54000000, hw_cnt = \<lambda>_. 0\<rparr> \<and> span_ok \<lparr>hw_freq = 54000000, hw_cnt = \<lambda>_. 0\<rparr> 100000000000000000 \<and>
   ticks_to_ns \<lparr>hw_freq = 54000000, hw_cnt = \<lambda>_. 0\<rparr> 100000000000000000 = Some 1851851851851851851 \<and>
   scale_ppb 9223372036854775807 500000 = Some 4611686018427387"
proof -
  have h: "freq_ok \<lparr>hw_freq = 54000000, hw_cnt = \<lambda>_. 0\<rparr>"
    "span_ok \<lparr>hw_freq = 54000000, hw_cnt = \<lambda>_. 0\<rparr> 100000000000000000"
    "i64_range 9223372036854775807" "\<bar>500000\<bar> \<le> PTP_CLOCK_MAX_PPB"
    by (simp_all add: freq_ok_def span_ok_def to_i64_def i64_range_def PTP_CLOCK_MAX_PPB_def)
  from ptp_clock_scaling_exact [OF h] h show ?thesis
    by (simp add: NS_PER_S_def to_i64_def signed_divide_int_def)
qed

text \<open>
  C29: the clock never runs backwards between steps.  For counter samples in order, the disciplined time is defined and in
  order, for every admissible frequency correction.
\<close>

theorem ptp_clock_monotone:
  assumes "clock_ok hw c" "span_ok hw (to_i64 (n1 - s_base_cnt c))" "span_ok hw (to_i64 (n2 - s_base_cnt c))"
    and "to_i64 (n1 - s_base_cnt c) \<le> to_i64 (n2 - s_base_cnt c)"
  shows "\<exists>t1 t2. ptp_clock_from_cnt hw n1 c = Some t1 \<and> ptp_clock_from_cnt hw n2 c = Some t2 \<and> t1 \<le> t2"
proof -
  have f: "0 < to_i64 (hw_freq hw)" and p: "\<bar>s_ppb c\<bar> \<le> PTP_CLOCK_MAX_PPB"
    using assms(1) by (auto simp: clock_ok_def freq_ok_def)
  have "nominal hw n1 c \<le> nominal hw n2 c"
    unfolding nominal_def using assms(4) by (intro sdiv_mono [OF f]) (simp add: NS_PER_S_def)
  from discipline_mono [OF p this] show ?thesis
    by (simp add: from_cnt_exact [OF assms(1,2)] from_cnt_exact [OF assms(1,3)])
qed

theorem ptp_clock_monotone_witness:
  "\<exists>t1 t2. ptp_clock_from_cnt \<lparr>hw_freq = 54000000, hw_cnt = \<lambda>_. 0\<rparr> 100
      \<lparr>reads = 0, s_base_cnt = 10, s_base_ns = 7, s_ppb = - 500000, s_epoch = 0\<rparr> = Some t1 \<and>
    ptp_clock_from_cnt \<lparr>hw_freq = 54000000, hw_cnt = \<lambda>_. 0\<rparr> 200
      \<lparr>reads = 0, s_base_cnt = 10, s_base_ns = 7, s_ppb = - 500000, s_epoch = 0\<rparr> = Some t2 \<and> t1 \<le> t2"
  by (rule ptp_clock_monotone)
    (simp_all add: clock_ok_def freq_ok_def span_ok_def to_i64_def i64_range_def PTP_CLOCK_MAX_PPB_def NS_PER_S_def)

text \<open>
  C33: steering keeps the clock's history.  At the counter value where the model is re-anchored, a step moves the time by
  exactly the step and a new frequency leaves it alone; a step starts a new epoch, and the applied frequency is the requested
  one clamped to 500 ppm.
\<close>

theorem ptp_clock_steering:
  assumes "ptp_clock_from_cnt hw (hw_cnt hw (reads c)) c = Some t" "i64_range (t + delta)" "\<bar>s_ppb c\<bar> \<le> PTP_CLOCK_MAX_PPB"
  shows "\<exists>s a. ptp_clock_step hw delta c = Some s \<and> ptp_clock_from_cnt hw (hw_cnt hw (reads c)) s = Some (t + delta) \<and>
      ptp_clock_epoch s = ptp_clock_epoch c + 1 \<and> ptp_clock_get_freq s = ptp_clock_get_freq c \<and>
    ptp_clock_adjfreq hw ppb c = Some a \<and> ptp_clock_from_cnt hw (hw_cnt hw (reads c)) a = Some t \<and>
      ptp_clock_epoch a = ptp_clock_epoch c \<and> ptp_clock_get_freq a = max (- 500000) (min 500000 ppb)"
proof -
  let ?n = "hw_cnt hw (reads c)"
  let ?r = "c\<lparr>reads := Suc (reads c), s_base_ns := t, s_base_cnt := ?n\<rparr>"
  have r: "rebase hw c = Some ?r" using assms(1) by (simp add: rebase_eq)
  let ?s = "?r\<lparr>s_base_ns := t + delta, s_epoch := s_epoch c + 1\<rparr>" and ?a = "?r\<lparr>s_ppb := clamped ppb\<rparr>"
  have "ptp_clock_step hw delta c = Some ?s" "ptp_clock_adjfreq hw ppb c = Some ?a"
    using assms(2) by (simp_all add: ptp_clock_step_def adjfreq_eq r add64_def i64_def)
  moreover have "ptp_clock_from_cnt hw ?n ?s = Some (t + delta)" "ptp_clock_from_cnt hw ?n ?a = Some t"
    using from_cnt_anchor [of ?s hw] from_cnt_anchor [of ?a hw] assms from_cnt_range [OF assms(1)] clamped_le by auto
  ultimately show ?thesis by (simp add: ptp_clock_epoch_def ptp_clock_get_freq_def clamped_def PTP_CLOCK_MAX_PPB_def)
qed

theorem ptp_clock_steering_witness:
  "\<exists>s a. ptp_clock_step \<lparr>hw_freq = 54000000, hw_cnt = \<lambda>_. 10\<rparr> (- 3)
      \<lparr>reads = 0, s_base_cnt = 10, s_base_ns = 7, s_ppb = 20, s_epoch = 0\<rparr> = Some s \<and>
    ptp_clock_adjfreq \<lparr>hw_freq = 54000000, hw_cnt = \<lambda>_. 10\<rparr> 900000
      \<lparr>reads = 0, s_base_cnt = 10, s_base_ns = 7, s_ppb = 20, s_epoch = 0\<rparr> = Some a \<and>
    ptp_clock_get_freq a = 500000 \<and> ptp_clock_epoch s = 1"
proof -
  let ?c = "\<lparr>reads = 0, s_base_cnt = 10, s_base_ns = 7, s_ppb = 20, s_epoch = 0\<rparr>"
    and ?hw = "\<lparr>hw_freq = 54000000, hw_cnt = \<lambda>_. 10\<rparr>"
  have "ptp_clock_from_cnt ?hw (hw_cnt ?hw (reads ?c)) ?c = Some 7"
    using from_cnt_anchor [of ?c ?hw] by (simp add: i64_range_def PTP_CLOCK_MAX_PPB_def)
  from ptp_clock_steering [OF this, of "- 3" 900000] show ?thesis
    by (auto simp: i64_range_def PTP_CLOCK_MAX_PPB_def ptp_clock_epoch_def)
qed

end
