(* ===== verification/Ptp_Servo.thy ===== *)
theory Ptp_Servo
  imports Ptp_Clock
begin

text \<open>
  The clock servo of \<^verbatim>\<open>port/ptp/ptp_servo.c\<close>: an integer PI controller with three states that steers the
  clock of theory \<open>Ptp_Clock\<close> by steps and by frequency.
\<close>

section \<open>Model\<close>

definition PTP_SERVO_STEP_NS :: int where "PTP_SERVO_STEP_NS = 1000000"
definition PTP_SERVO_OUTLIERS :: u32 where "PTP_SERVO_OUTLIERS = 3"
definition KP_NUM :: int where "KP_NUM = 3"
definition KP_DEN :: int where "KP_DEN = 10"
definition KI_NUM :: int where "KI_NUM = 1"
definition KI_DEN :: int where "KI_DEN = 20"

datatype PtpServoState = PTP_SERVO_UNLOCKED | PTP_SERVO_STEPPED | PTP_SERVO_LOCKED

record PtpServo =
  state :: PtpServoState
  drift_ppb :: int
  ref_cnt :: u64
  ref_raw :: int
  last_cnt :: u64
  outliers :: u32

definition abs64 :: "int \<Rightarrow> int ub" where
  "abs64 v = (if v < 0 then neg64 v else Some v)"

definition clamp_ppb :: "int \<Rightarrow> int" where
  "clamp_ppb v =
    (if v > PTP_CLOCK_MAX_PPB then PTP_CLOCK_MAX_PPB else if v < - PTP_CLOCK_MAX_PPB then - PTP_CLOCK_MAX_PPB else v)"

definition span_ns :: "ptp_hw \<Rightarrow> u64 \<Rightarrow> u64 \<Rightarrow> int" where
  "span_ns hw from to' =
    (let f = ptp_clock_cnt_freq hw; dt = to' - from
     in if f = 0 then 0 else to_i64 ((dt div f) * 1000000000 + ((dt mod f) * 1000000000) div f))"

definition ptp_servo_init :: "PtpServo \<Rightarrow> PtpServo" where
  "ptp_servo_init s =
    \<lparr>state = PTP_SERVO_UNLOCKED, drift_ppb = 0, ref_cnt = 0, ref_raw = 0, last_cnt = 0, outliers = 0\<rparr>"

fun ptp_servo_state_name :: "PtpServoState \<Rightarrow> string" where
  "ptp_servo_state_name PTP_SERVO_UNLOCKED = ''UNLOCKED''"
| "ptp_servo_state_name PTP_SERVO_STEPPED = ''STEPPED''"
| "ptp_servo_state_name PTP_SERVO_LOCKED = ''LOCKED''"

definition do_step :: "ptp_hw \<Rightarrow> int \<Rightarrow> int \<Rightarrow> u64 \<Rightarrow> PtpServo \<times> ptp_clock \<Rightarrow> (PtpServo \<times> ptp_clock) ub" where
  "do_step hw raw_ns d rx_cnt = (\<lambda>(s, c). do {
     offset \<leftarrow> sub64 raw_ns d;
     m \<leftarrow> neg64 offset;
     c \<leftarrow> ptp_clock_step hw m c;
     Some (s\<lparr>ref_cnt := rx_cnt, ref_raw := d\<rparr>, c)
   })"

text \<open>The three arms of the switch; \<open>d\<close> is the path delay used and \<open>offset\<close> the offset from the master.\<close>

definition sample_unlocked ::
  "ptp_hw \<Rightarrow> int \<Rightarrow> int \<Rightarrow> u64 \<Rightarrow> PtpServo \<times> ptp_clock \<Rightarrow> (PtpServo \<times> ptp_clock) ub" where
  "sample_unlocked hw raw_ns d rx_cnt x = do {
     (s, c) \<leftarrow> do_step hw raw_ns d rx_cnt x;
     Some (s\<lparr>state := PTP_SERVO_STEPPED\<rparr>, c)
   }"

definition sample_stepped ::
  "ptp_hw \<Rightarrow> int \<Rightarrow> int \<Rightarrow> int \<Rightarrow> u64 \<Rightarrow> PtpServo \<times> ptp_clock \<Rightarrow> (PtpServo \<times> ptp_clock) ub" where
  "sample_stepped hw raw_ns delay_ns d rx_cnt = (\<lambda>(s, c).
    (let T = span_ns hw (ref_cnt s) rx_cnt in
     if T < NS_PER_S div 8 then Some (s, c)
     else do {
       m \<leftarrow> sub64 raw_ns (ref_raw s);
       m \<leftarrow> mul64 m NS_PER_S;
       slope \<leftarrow> div64 m T;
       v \<leftarrow> sub64 slope (ptp_clock_get_freq c);
       s \<leftarrow> Some (s\<lparr>drift_ppb := clamp_ppb v\<rparr>);
       n \<leftarrow> neg64 (drift_ppb s);
       c \<leftarrow> ptp_clock_adjfreq hw (to_i32 (clamp_ppb n)) c;
       if delay_ns \<ge> 0 then do {
         (s, c) \<leftarrow> do_step hw raw_ns d rx_cnt (s, c);
         Some (s\<lparr>state := PTP_SERVO_LOCKED, last_cnt := rx_cnt\<rparr>, c)
       } else Some (s\<lparr>ref_cnt := rx_cnt, ref_raw := raw_ns\<rparr>, c)
     }))"

definition pi_interval :: "ptp_hw \<Rightarrow> u64 \<Rightarrow> PtpServo \<Rightarrow> int" where
  "pi_interval hw rx_cnt s =
    (let T = span_ns hw (last_cnt s) rx_cnt in if T \<le> 0 \<or> T > 8 * NS_PER_S then NS_PER_S else T)"

definition pi_update :: "ptp_hw \<Rightarrow> int \<Rightarrow> u64 \<Rightarrow> PtpServo \<times> ptp_clock \<Rightarrow> (PtpServo \<times> ptp_clock) ub" where
  "pi_update hw offset rx_cnt = (\<lambda>(s, c). do {
     T \<leftarrow> Some (pi_interval hw rx_cnt s);
     a \<leftarrow> mul64 offset KP_NUM; a \<leftarrow> mul64 a NS_PER_S; b \<leftarrow> mul64 KP_DEN T; p \<leftarrow> div64 a b;
     a \<leftarrow> mul64 offset KI_NUM; a \<leftarrow> mul64 a NS_PER_S; b \<leftarrow> mul64 KI_DEN T; i \<leftarrow> div64 a b;
     v \<leftarrow> add64 (drift_ppb s) i;
     drift \<leftarrow> Some (clamp_ppb v);
     v \<leftarrow> add64 drift p;
     v \<leftarrow> neg64 v;
     c \<leftarrow> ptp_clock_adjfreq hw (to_i32 (clamp_ppb v)) c;
     Some (s\<lparr>last_cnt := rx_cnt, drift_ppb := drift\<rparr>, c)
   })"

definition sample_locked ::
  "ptp_hw \<Rightarrow> int \<Rightarrow> int \<Rightarrow> int \<Rightarrow> u64 \<Rightarrow> PtpServo \<times> ptp_clock \<Rightarrow> (PtpServo \<times> ptp_clock) ub" where
  "sample_locked hw raw_ns d offset rx_cnt = (\<lambda>(s, c). do {
     a \<leftarrow> abs64 offset;
     if a > PTP_SERVO_STEP_NS then
       (let s = s\<lparr>outliers := outliers s + 1\<rparr> in
        if outliers s \<ge> PTP_SERVO_OUTLIERS then do {
          (s, c) \<leftarrow> do_step hw raw_ns d rx_cnt (s\<lparr>outliers := 0\<rparr>, c);
          Some (s\<lparr>state := PTP_SERVO_STEPPED\<rparr>, c)
        } else Some (s, c))
     else pi_update hw offset rx_cnt (s\<lparr>outliers := 0\<rparr>, c)
   })"

definition ptp_servo_sample ::
  "ptp_hw \<Rightarrow> int \<Rightarrow> int \<Rightarrow> u64 \<Rightarrow> PtpServo \<times> ptp_clock \<Rightarrow> (int \<times> PtpServo \<times> ptp_clock) ub" where
  "ptp_servo_sample hw raw_ns delay_ns rx_cnt x =
    (let d = (if delay_ns \<ge> 0 then delay_ns else 0) in do {
       offset \<leftarrow> sub64 raw_ns d;
       x \<leftarrow> (case state (fst x) of
              PTP_SERVO_UNLOCKED \<Rightarrow> sample_unlocked hw raw_ns d rx_cnt x
            | PTP_SERVO_STEPPED \<Rightarrow> sample_stepped hw raw_ns delay_ns d rx_cnt x
            | PTP_SERVO_LOCKED \<Rightarrow> sample_locked hw raw_ns d offset rx_cnt x);
       Some (offset, x)
     })"

section \<open>The frequency stays within its limits\<close>

lemma clamp_ppb_clamped: "clamp_ppb v = clamped v"
  by (auto simp: clamp_ppb_def clamped_def PTP_CLOCK_MAX_PPB_def)

lemma to_i32_clamped: "to_i32 (clamped v) = clamped v"
  using clamped_le [of v] by (auto intro!: to_i32_id simp: i32_range_def PTP_CLOCK_MAX_PPB_def)

lemma clamped_clamped [simp]: "clamped (clamped v) = clamped v"
  by (rule clamped_id [OF clamped_le])

lemma neg_clamped: "neg64 (clamped v) = Some (- clamped v)"
  using clamped_le [of v] by (auto simp: neg64_def i64_def i64_range_def PTP_CLOCK_MAX_PPB_def)

definition servo_inv :: "PtpServo \<times> ptp_clock \<Rightarrow> bool" where
  "servo_inv x \<longleftrightarrow> \<bar>drift_ppb (fst x)\<bar> \<le> PTP_CLOCK_MAX_PPB \<and> \<bar>s_ppb (snd x)\<bar> \<le> PTP_CLOCK_MAX_PPB \<and>
     outliers (fst x) < PTP_SERVO_OUTLIERS"

lemma step_frame:
  assumes "ptp_clock_step hw m c = Some c'"
  shows "s_ppb c' = s_ppb c" "s_epoch c' = s_epoch c + 1" "reads c' = Suc (reads c)"
  using assms by (auto simp: ptp_clock_step_def rebase_eq bind_Some_iff)

lemma adjfreq_frame:
  assumes "ptp_clock_adjfreq hw p c = Some c'"
  shows "s_ppb c' = clamped p" "s_epoch c' = s_epoch c" "reads c' = Suc (reads c)"
  using assms by (auto simp: adjfreq_eq rebase_eq)

lemma do_step_frame:
  assumes "do_step hw raw d rx (s, c) = Some (s', c')"
  shows "drift_ppb s' = drift_ppb s" "s_ppb c' = s_ppb c" "outliers s' = outliers s" "s_epoch c' = s_epoch c + 1"
    "state s' = state s"
  using assms step_frame by (auto simp: do_step_def bind_Some_iff)

lemma do_step_inv: "servo_inv (s, c) \<Longrightarrow> do_step hw raw d rx (s, c) = Some (s', c') \<Longrightarrow> servo_inv (s', c')"
  using do_step_frame [of hw raw d rx s c s' c'] by (simp add: servo_inv_def)

lemma servo_inv_state [simp]:
  "servo_inv (s\<lparr>state := st\<rparr>, c) = servo_inv (s, c)" "servo_inv (s\<lparr>last_cnt := l\<rparr>, c) = servo_inv (s, c)"
  "servo_inv (s\<lparr>ref_cnt := l\<rparr>, c) = servo_inv (s, c)" "servo_inv (s\<lparr>ref_raw := r\<rparr>, c) = servo_inv (s, c)"
  by (simp_all add: servo_inv_def)

lemma adjfreq_inv:
  assumes "servo_inv (s, c)" "ptp_clock_adjfreq hw p c = Some c'" "\<bar>v\<bar> \<le> PTP_CLOCK_MAX_PPB"
  shows "servo_inv (s\<lparr>drift_ppb := v\<rparr>, c')"
  using assms adjfreq_frame(1) [OF assms(2)] clamped_le by (simp add: servo_inv_def)

lemma sample_unlocked_inv: "servo_inv x \<Longrightarrow> sample_unlocked hw raw d rx x = Some y \<Longrightarrow> servo_inv y"
  by (cases x) (auto simp: sample_unlocked_def bind_Some_iff intro: do_step_inv)

lemma sample_stepped_inv: "servo_inv x \<Longrightarrow> sample_stepped hw raw delay d rx x = Some y \<Longrightarrow> servo_inv y"
proof (cases x)
  case (Pair s c)
  assume inv: "servo_inv x" and eq: "sample_stepped hw raw delay d rx x = Some y"
  show ?thesis
  proof (cases "span_ns hw (ref_cnt s) rx < NS_PER_S div 8")
    case True
    then show ?thesis using eq inv by (simp add: sample_stepped_def Pair)
  next
    case False
    then obtain v c' where c': "ptp_clock_adjfreq hw (clamped (- clamped v)) c = Some c'"
      and y: "(if delay \<ge> 0 then do {
         (s, c) \<leftarrow> do_step hw raw d rx (s\<lparr>drift_ppb := clamped v\<rparr>, c');
         Some (s\<lparr>state := PTP_SERVO_LOCKED, last_cnt := rx\<rparr>, c)
       } else Some (s\<lparr>drift_ppb := clamped v, ref_cnt := rx, ref_raw := raw\<rparr>, c')) = Some y"
      using eq by (auto simp: sample_stepped_def Pair bind_Some_iff clamp_ppb_clamped to_i32_clamped neg_clamped)
    have "servo_inv (s\<lparr>drift_ppb := clamped v\<rparr>, c')" using adjfreq_inv [OF _ c' clamped_le] inv Pair by blast
    then show ?thesis using y do_step_inv by (auto simp: bind_Some_iff split: if_splits)
  qed
qed

lemma pi_update_inv:
  assumes "servo_inv (s, c)" "pi_update hw offset rx (s, c) = Some y" shows "servo_inv y"
proof -
  obtain v w c' where "ptp_clock_adjfreq hw w c = Some c'" "y = (s\<lparr>last_cnt := rx, drift_ppb := clamped v\<rparr>, c')"
    using assms(2) by (clarsimp simp: pi_update_def bind_Some_iff clamp_ppb_clamped)
  with adjfreq_inv [OF assms(1) this(1) clamped_le, of v] show ?thesis by (simp add: servo_inv_def)
qed

lemma sample_locked_inv: "servo_inv x \<Longrightarrow> sample_locked hw raw d offset rx x = Some y \<Longrightarrow> servo_inv y"
proof (cases x)
  case (Pair s c)
  assume inv: "servo_inv x" and eq: "sample_locked hw raw d offset rx x = Some y"
  then obtain a where a: "abs64 offset = Some a" by (auto simp: sample_locked_def Pair bind_Some_iff)
  have out: "servo_inv (s\<lparr>outliers := 0\<rparr>, c)" using inv by (simp add: servo_inv_def Pair PTP_SERVO_OUTLIERS_def)
  show ?thesis
  proof (cases "a > PTP_SERVO_STEP_NS")
    case True
    show ?thesis
    proof (cases "outliers s + 1 \<ge> PTP_SERVO_OUTLIERS")
      case True
      with \<open>a > _\<close> eq obtain s' c' where "do_step hw raw d rx (s\<lparr>outliers := 0\<rparr>, c) = Some (s', c')"
        "y = (s'\<lparr>state := PTP_SERVO_STEPPED\<rparr>, c')" by (auto simp: sample_locked_def Pair a bind_Some_iff)
      with do_step_inv [OF out this(1)] show ?thesis by simp
    next
      case False
      with \<open>a > _\<close> eq have "y = (s\<lparr>outliers := outliers s + 1\<rparr>, c)" by (simp add: sample_locked_def Pair a)
      then show ?thesis using inv False by (simp add: servo_inv_def Pair)
    qed
  next
    case False
    then have "pi_update hw offset rx (s\<lparr>outliers := 0\<rparr>, c) = Some y" using eq by (simp add: sample_locked_def Pair a)
    then show ?thesis by (rule pi_update_inv [OF out])
  qed
qed

lemma sample_eq: "ptp_servo_sample hw raw delay rx x = do {
    offset \<leftarrow> sub64 raw (max 0 delay);
    x \<leftarrow> (case state (fst x) of
           PTP_SERVO_UNLOCKED \<Rightarrow> sample_unlocked hw raw (max 0 delay) rx x
         | PTP_SERVO_STEPPED \<Rightarrow> sample_stepped hw raw delay (max 0 delay) rx x
         | PTP_SERVO_LOCKED \<Rightarrow> sample_locked hw raw (max 0 delay) offset rx x);
    Some (offset, x) }"
  unfolding ptp_servo_sample_def Let_def max_def ..

lemma sample_inv:
  assumes "servo_inv x" "ptp_servo_sample hw raw delay rx x = Some (off, y)" shows "servo_inv y"
  using assms(2) sample_unlocked_inv [OF assms(1)] sample_stepped_inv [OF assms(1)] sample_locked_inv [OF assms(1)]
  by (cases "state (fst x)") (force simp: sample_eq bind_Some_iff)+

text \<open>A servo step with any hardware, measurement and counter value, and its reachable states.\<close>

definition servo_start :: "PtpServo \<times> ptp_clock \<Rightarrow> bool" where
  "servo_start x \<longleftrightarrow> (\<exists>s n b e. x = (ptp_servo_init s, \<lparr>reads = n, s_base_cnt = b, s_base_ns = 0, s_ppb = 0, s_epoch = e\<rparr>))"

inductive servo_step :: "PtpServo \<times> ptp_clock \<Rightarrow> PtpServo \<times> ptp_clock \<Rightarrow> bool" where
  sample: "ptp_servo_sample hw raw delay rx x = Some (off, y) \<Longrightarrow> servo_step x y"
| restart: "servo_step (s, c) (ptp_servo_init s, c)"

interpretation servo: safe_system servo_start servo_step servo_inv
proof
  fix x assume "servo_start x"
  then show "servo_inv x"
    by (auto simp: servo_start_def servo_inv_def ptp_servo_init_def PTP_CLOCK_MAX_PPB_def PTP_SERVO_OUTLIERS_def)
next
  fix x y assume inv: "servo_inv x" and st: "servo_step x y"
  from st show "servo_inv y"
  proof cases
    case sample
    then show ?thesis using sample_inv [OF inv] by blast
  next
    case (restart s c)
    then show ?thesis using inv by (simp add: servo_inv_def ptp_servo_init_def PTP_CLOCK_MAX_PPB_def PTP_SERVO_OUTLIERS_def)
  qed
qed

section \<open>When the arithmetic is defined\<close>

text \<open>Two counter values at most a hundred million seconds apart.\<close>

definition near :: "ptp_hw \<Rightarrow> u64 \<Rightarrow> u64 \<Rightarrow> bool" where
  "near hw a b \<longleftrightarrow> \<bar>to_i64 (b - a)\<bar> \<le> 100000000 * to_i64 (hw_freq hw)"

lemma rebase_ok:
  assumes "freq_ok hw" "\<bar>s_ppb c\<bar> \<le> PTP_CLOCK_MAX_PPB" "\<bar>s_base_ns c\<bar> \<le> B" "B \<le> 4000000000 * NS_PER_S"
    and "near hw (s_base_cnt c) (hw_cnt hw (reads c))"
  shows "\<exists>t. rebase hw c = Some (c\<lparr>reads := Suc (reads c), s_base_ns := t, s_base_cnt := hw_cnt hw (reads c)\<rparr>) \<and>
    \<bar>t\<bar> \<le> B + 200000000 * NS_PER_S"
proof -
  let ?n = "hw_cnt hw (reads c)"
  let ?d = "nominal hw ?n c"
  have f: "0 < to_i64 (hw_freq hw)" using assms(1) by (simp add: freq_ok_def)
  have sp: "span_ok hw (to_i64 (?n - s_base_cnt c))" using assms(5) f by (simp add: span_ok_def near_def)
  have d: "\<bar>?d\<bar> \<le> 100000000 * NS_PER_S"
    unfolding nominal_def using assms(5) by (intro sdiv_bound [OF f]) (simp add: near_def abs_mult NS_PER_S_def)
  have "\<bar>?d * s_ppb c\<bar> \<le> (100000000 * NS_PER_S) * NS_PER_S"
    using mult_mono [OF d, of "\<bar>s_ppb c\<bar>" NS_PER_S] assms(2) by (simp add: abs_mult NS_PER_S_def PTP_CLOCK_MAX_PPB_def)
  then have "\<bar>(?d * s_ppb c) sdiv NS_PER_S\<bar> \<le> 100000000 * NS_PER_S"
    by (intro sdiv_bound) (simp_all add: NS_PER_S_def)
  then have "\<bar>s_base_ns c + ?d + (?d * s_ppb c) sdiv NS_PER_S\<bar> \<le> B + 200000000 * NS_PER_S"
    using d assms(3) by linarith
  moreover have "clock_ok hw c" using assms by (simp add: clock_ok_def)
  ultimately show ?thesis using from_cnt_exact [OF _ sp] by (auto simp: rebase_eq)
qed

lemma do_step_ok:
  assumes "freq_ok hw" "\<bar>s_ppb c\<bar> \<le> PTP_CLOCK_MAX_PPB" "\<bar>s_base_ns c\<bar> \<le> 4000000000 * NS_PER_S"
    and "near hw (s_base_cnt c) (hw_cnt hw (reads c))" "\<bar>raw - d\<bar> \<le> 2000000000 * NS_PER_S"
  shows "\<exists>s' c'. do_step hw raw d rx (s, c) = Some (s', c')"
proof -
  obtain t where t: "rebase hw c = Some (c\<lparr>reads := Suc (reads c), s_base_ns := t, s_base_cnt := hw_cnt hw (reads c)\<rparr>)"
    "\<bar>t\<bar> \<le> 4200000000 * NS_PER_S"
    using rebase_ok [OF assms(1,2,3) order_refl assms(4)] by (auto simp: NS_PER_S_def)
  have "i64_range (raw - d)" "i64_range (- (raw - d))" "i64_range (t + - (raw - d))"
    using t(2) assms(5) by (auto simp: i64_range_def NS_PER_S_def abs_le_iff)
  then show ?thesis
    by (simp add: do_step_def ptp_clock_step_def t(1) sub64_def neg64_def add64_def i64_def)
qed

lemma pi_interval_bounds: "0 < pi_interval hw rx s" "pi_interval hw rx s \<le> 8 * NS_PER_S"
  by (auto simp: pi_interval_def Let_def NS_PER_S_def)

lemma pi_update_ok:
  assumes "freq_ok hw" "servo_inv (s, c)" "\<bar>s_base_ns c\<bar> \<le> 4000000000 * NS_PER_S"
    and "near hw (s_base_cnt c) (hw_cnt hw (reads c))" "\<bar>offset\<bar> \<le> PTP_SERVO_STEP_NS"
  shows "\<exists>s' c'. pi_update hw offset rx (s, c) = Some (s', c') \<and> state s' = state s"
proof -
  let ?T = "pi_interval hw rx s"
  have T: "0 < ?T" "?T \<le> 8000000000" using pi_interval_bounds [of hw rx s] by (simp_all add: NS_PER_S_def)
  have o: "\<bar>offset\<bar> \<le> 1000000" using assms(5) by (simp add: PTP_SERVO_STEP_NS_def)
  have dr: "\<bar>drift_ppb s\<bar> \<le> 500000" using assms(2) by (simp add: servo_inv_def PTP_CLOCK_MAX_PPB_def)
  define p i where "p = (offset * 3 * NS_PER_S) sdiv (10 * ?T)" and "i = (offset * NS_PER_S) sdiv (20 * ?T)"
  have pi: "\<bar>p\<bar> \<le> 3000000000000000" "\<bar>i\<bar> \<le> 3000000000000000"
    unfolding p_def i_def using o sdiv_abs_le [of "offset * 3 * NS_PER_S" "10 * ?T"] sdiv_abs_le [of "offset * NS_PER_S" "20 * ?T"]
    by (auto simp: NS_PER_S_def)
  have m: "mul64 offset KP_NUM = Some (offset * 3)" "mul64 (offset * 3) NS_PER_S = Some (offset * 3 * NS_PER_S)"
    "mul64 KP_DEN ?T = Some (10 * ?T)" "mul64 offset KI_NUM = Some offset"
    "mul64 offset NS_PER_S = Some (offset * NS_PER_S)" "mul64 KI_DEN ?T = Some (20 * ?T)"
    using o T by (auto simp: mul64_def i64_def i64_range_def NS_PER_S_def KP_NUM_def KP_DEN_def KI_NUM_def KI_DEN_def)
  have d: "div64 (offset * 3 * NS_PER_S) (10 * ?T) = Some p" "div64 (offset * NS_PER_S) (20 * ?T) = Some i"
    using o T(1) by (auto simp: p_def i_def NS_PER_S_def i64_range_def intro!: div64_pos)
  have cl: "\<bar>clamped (drift_ppb s + i)\<bar> \<le> 500000" using clamped_le [of "drift_ppb s + i"] by (simp add: PTP_CLOCK_MAX_PPB_def)
  have a: "add64 (drift_ppb s) i = Some (drift_ppb s + i)"
    "add64 (clamped (drift_ppb s + i)) p = Some (clamped (drift_ppb s + i) + p)"
    "neg64 (clamped (drift_ppb s + i) + p) = Some (- (clamped (drift_ppb s + i) + p))"
    using pi dr cl by (auto simp: add64_def neg64_def i64_def i64_range_def)
  obtain c1 where "rebase hw c = Some c1"
    using rebase_ok [OF assms(1) _ assms(3) order_refl assms(4)] assms(2) by (auto simp: servo_inv_def)
  then show ?thesis by (simp add: pi_update_def m d a clamp_ppb_clamped adjfreq_eq)
qed

lemma sample_stepped_ok:
  assumes "freq_ok hw" "servo_inv (s, c)" "\<bar>s_base_ns c\<bar> \<le> 3000000000 * NS_PER_S"
    and "near hw (s_base_cnt c) (hw_cnt hw (reads c))"
    and "near hw (hw_cnt hw (reads c)) (hw_cnt hw (Suc (reads c)))" "\<bar>raw - d\<bar> \<le> 2000000000 * NS_PER_S"
    and "\<bar>raw - ref_raw s\<bar> \<le> 9 * NS_PER_S"
  shows "\<exists>s' c'. sample_stepped hw raw delay d rx (s, c) = Some (s', c') \<and>
    state s' = (if span_ns hw (ref_cnt s) rx < NS_PER_S div 8 \<or> delay < 0 then state s else PTP_SERVO_LOCKED)"
proof (cases "span_ns hw (ref_cnt s) rx < NS_PER_S div 8")
  case False
  let ?T = "span_ns hw (ref_cnt s) rx" and ?m = "(raw - ref_raw s) * NS_PER_S"
  have T: "0 < ?T" using False by (simp add: NS_PER_S_def)
  have m: "\<bar>?m\<bar> \<le> 9000000000 * NS_PER_S" "i64_range (raw - ref_raw s)" "i64_range ?m"
    using assms(7) by (auto simp: NS_PER_S_def i64_range_def abs_le_iff)
  have ppb: "\<bar>s_ppb c\<bar> \<le> PTP_CLOCK_MAX_PPB" using assms(2) by (simp add: servo_inv_def)
  have v: "i64_range (?m sdiv ?T - s_ppb c)"
    using m(1) sdiv_abs_le [of ?m ?T] ppb by (auto simp: i64_range_def PTP_CLOCK_MAX_PPB_def NS_PER_S_def)
  define v where "v = clamped (?m sdiv ?T - s_ppb c)"
  obtain t where t: "rebase hw c = Some (c\<lparr>reads := Suc (reads c), s_base_ns := t, s_base_cnt := hw_cnt hw (reads c)\<rparr>)"
    "\<bar>t\<bar> \<le> 3200000000 * NS_PER_S"
    using rebase_ok [OF assms(1) ppb assms(3) _ assms(4)] by (auto simp: NS_PER_S_def)
  define c1 where "c1 = c\<lparr>reads := Suc (reads c), s_base_ns := t, s_base_cnt := hw_cnt hw (reads c), s_ppb := clamped (- v)\<rparr>"
  have c1: "ptp_clock_adjfreq hw (to_i32 (clamp_ppb (- v))) c = Some c1"
    by (simp add: adjfreq_eq t(1) clamp_ppb_clamped to_i32_clamped c1_def)
  obtain s2 c2 where st: "do_step hw raw d rx (s\<lparr>drift_ppb := v\<rparr>, c1) = Some (s2, c2)"
    using do_step_ok [OF assms(1), of c1 raw d rx "s\<lparr>drift_ppb := v\<rparr>"] t(2) assms(5,6) clamped_le
    by (auto simp: c1_def NS_PER_S_def)
  have n: "neg64 v = Some (- v)" by (simp add: v_def neg_clamped)
  have "div64 ?m ?T = Some (?m sdiv ?T)" by (rule div64_pos [OF T m(3)])
  then have "sample_stepped hw raw delay d rx (s, c) =
     (if delay \<ge> 0 then Some (s2\<lparr>state := PTP_SERVO_LOCKED, last_cnt := rx\<rparr>, c2)
      else Some (s\<lparr>drift_ppb := v, ref_cnt := rx, ref_raw := raw\<rparr>, c1))"
    using False m v n c1 st unfolding sample_stepped_def Let_def
    by (simp add: sub64_def mul64_def i64_def ptp_clock_get_freq_def clamp_ppb_clamped v_def [symmetric])
  then show ?thesis using False by simp
qed (simp add: sample_stepped_def)

text \<open>The next state of the servo, as its header describes it.\<close>

definition servo_next :: "ptp_hw \<Rightarrow> int \<Rightarrow> int \<Rightarrow> u64 \<Rightarrow> PtpServo \<Rightarrow> PtpServoState" where
  "servo_next hw raw delay rx s = (case state s of
     PTP_SERVO_UNLOCKED \<Rightarrow> PTP_SERVO_STEPPED
   | PTP_SERVO_STEPPED \<Rightarrow>
       if span_ns hw (ref_cnt s) rx < NS_PER_S div 8 \<or> delay < 0 then PTP_SERVO_STEPPED else PTP_SERVO_LOCKED
   | PTP_SERVO_LOCKED \<Rightarrow>
       if \<bar>raw - max 0 delay\<bar> > PTP_SERVO_STEP_NS \<and> PTP_SERVO_OUTLIERS \<le> outliers s + 1 then PTP_SERVO_STEPPED
       else PTP_SERVO_LOCKED)"

lemma sample_locked_ok:
  assumes "freq_ok hw" "servo_inv (s, c)" "\<bar>s_base_ns c\<bar> \<le> 3000000000 * NS_PER_S"
    and "near hw (s_base_cnt c) (hw_cnt hw (reads c))" "\<bar>raw - d\<bar> \<le> 2000000000 * NS_PER_S"
    and "state s = PTP_SERVO_LOCKED"
  shows "\<exists>s' c'. sample_locked hw raw d (raw - d) rx (s, c) = Some (s', c') \<and>
    state s' = (if \<bar>raw - d\<bar> > PTP_SERVO_STEP_NS \<and> PTP_SERVO_OUTLIERS \<le> outliers s + 1 then PTP_SERVO_STEPPED
       else PTP_SERVO_LOCKED)"
proof -
  have a: "abs64 (raw - d) = Some \<bar>raw - d\<bar>"
    using assms(5) by (auto simp: abs64_def neg64_def i64_def i64_range_def NS_PER_S_def)
  have b: "\<bar>s_base_ns c\<bar> \<le> 4000000000 * NS_PER_S" using assms(3) by (simp add: NS_PER_S_def)
  have inv0: "servo_inv (s\<lparr>outliers := 0\<rparr>, c)" using assms(2) by (simp add: servo_inv_def PTP_SERVO_OUTLIERS_def)
  consider (pi) "\<bar>raw - d\<bar> \<le> PTP_SERVO_STEP_NS"
    | (out) "\<bar>raw - d\<bar> > PTP_SERVO_STEP_NS" "\<not> PTP_SERVO_OUTLIERS \<le> outliers s + 1"
    | (step) "\<bar>raw - d\<bar> > PTP_SERVO_STEP_NS" "PTP_SERVO_OUTLIERS \<le> outliers s + 1" by linarith
  then show ?thesis
  proof cases
    case pi
    from pi_update_ok [OF assms(1) inv0 b assms(4) pi, of rx] show ?thesis
      using pi assms(6) by (auto simp: sample_locked_def a)
  next
    case out
    then show ?thesis using assms(6) by (simp add: sample_locked_def a)
  next
    case step
    obtain s' c' where "do_step hw raw d rx (s\<lparr>outliers := 0\<rparr>, c) = Some (s', c')"
      using do_step_ok [OF assms(1) _ b assms(4,5), of rx "s\<lparr>outliers := 0\<rparr>"] assms(2) by (auto simp: servo_inv_def)
    then show ?thesis using step by (simp add: sample_locked_def a)
  qed
qed

section \<open>Properties\<close>

text \<open>
  C34: the servo's limits.  From its initial state, after any sequence of samples and restarts on any hardware, the estimated
  drift and the frequency applied to the clock stay within 500 ppm, and fewer than three outliers are pending.
\<close>

theorem ptp_servo_limits:
  assumes "reach servo_start servo_step x"
  shows "\<bar>drift_ppb (fst x)\<bar> \<le> 500000 \<and> \<bar>ptp_clock_get_freq (snd x)\<bar> \<le> 500000 \<and> outliers (fst x) < 3"
  using servo.reach_inv [OF assms]
  by (simp add: servo_inv_def PTP_CLOCK_MAX_PPB_def PTP_SERVO_OUTLIERS_def ptp_clock_get_freq_def)

theorem ptp_servo_limits_witness:
  "reach servo_start servo_step (ptp_servo_init undefined,
     \<lparr>reads = 0, s_base_cnt = 0, s_base_ns = 0, s_ppb = 0, s_epoch = 0\<rparr>) \<and>
   \<bar>drift_ppb (ptp_servo_init undefined)\<bar> \<le> 500000"
proof -
  have r: "reach servo_start servo_step (ptp_servo_init undefined,
     \<lparr>reads = 0, s_base_cnt = 0, s_base_ns = 0, s_ppb = 0, s_epoch = 0\<rparr>)"
    by (rule reach_init) (auto simp: servo_start_def)
  from r ptp_servo_limits [OF r] show ?thesis by simp
qed

text \<open>
  C30: every sample in range is processed.  With a counter frequency of at most 9 GHz, a clock within a hundred years
  of the epoch, counter reads within three years of each other and measurements within thirty years, no arithmetic of
  the servo overflows, except that after a step the drift since the step must stay below nine seconds; and the servo goes
  to the state its description names: a first sample steps the clock, a second one at least an eighth of a second
  later with a known path delay locks it, and only a third outlier in a row gives up the lock.
\<close>

theorem ptp_servo_processes_sample:
  assumes "freq_ok hw" "servo_inv (s, c)" "\<bar>s_base_ns c\<bar> \<le> 3000000000 * NS_PER_S"
    and "near hw (s_base_cnt c) (hw_cnt hw (reads c))" "near hw (hw_cnt hw (reads c)) (hw_cnt hw (Suc (reads c)))"
    and "\<bar>raw\<bar> \<le> 1000000000 * NS_PER_S" "delay \<le> 1000000000 * NS_PER_S"
    and "state s = PTP_SERVO_STEPPED \<longrightarrow> \<bar>raw - ref_raw s\<bar> \<le> 9 * NS_PER_S"
  shows "\<exists>s' c'. ptp_servo_sample hw raw delay rx (s, c) = Some (raw - max 0 delay, s', c') \<and>
    state s' = servo_next hw raw delay rx s"
proof -
  let ?d = "max 0 delay"
  have o: "\<bar>raw - ?d\<bar> \<le> 2000000000 * NS_PER_S" "sub64 raw ?d = Some (raw - ?d)"
    using assms(6,7) by (auto simp: NS_PER_S_def sub64_def i64_def i64_range_def)
  show ?thesis
  proof (cases "state s")
    case PTP_SERVO_UNLOCKED
    obtain s' c' where "do_step hw raw ?d rx (s, c) = Some (s', c')"
      using do_step_ok [OF assms(1) _ _ assms(4) o(1), of rx s] assms(2,3) by (auto simp: servo_inv_def NS_PER_S_def)
    then show ?thesis using PTP_SERVO_UNLOCKED by (simp add: sample_eq o sample_unlocked_def servo_next_def)
  next
    case PTP_SERVO_STEPPED
    with assms(8) have "\<bar>raw - ref_raw s\<bar> \<le> 9 * NS_PER_S" by simp
    from sample_stepped_ok [OF assms(1-5) o(1) this, of delay rx] PTP_SERVO_STEPPED show ?thesis
      by (auto simp: sample_eq o servo_next_def)
  next
    case PTP_SERVO_LOCKED
    from sample_locked_ok [OF assms(1-4) o(1) this, of rx] PTP_SERVO_LOCKED show ?thesis
      by (auto simp: sample_eq o servo_next_def)
  qed
qed

definition sample_servo :: PtpServo where
  "sample_servo = \<lparr>state = PTP_SERVO_STEPPED, drift_ppb = 0, ref_cnt = 1000, ref_raw = 40000, last_cnt = 0, outliers = 0\<rparr>"

definition sample_clock :: ptp_clock where
  "sample_clock = \<lparr>reads = 0, s_base_cnt = 1000, s_base_ns = 1790000000000000000, s_ppb = 0, s_epoch = 1\<rparr>"

theorem ptp_servo_processes_sample_witness:
  "\<exists>s' c'. ptp_servo_sample \<lparr>hw_freq = 54000000, hw_cnt = \<lambda>_. 54001500\<rparr> 77000 40000 54001000
     (sample_servo, sample_clock) = Some (37000, s', c') \<and> state s' = PTP_SERVO_LOCKED"
proof -
  let ?hw = "\<lparr>hw_freq = 54000000, hw_cnt = \<lambda>_. 54001500 :: u64\<rparr>"
  note ev = freq_ok_def servo_inv_def near_def to_i64_def sample_clock_def sample_servo_def NS_PER_S_def
    PTP_CLOCK_MAX_PPB_def PTP_SERVO_OUTLIERS_def
  have "servo_next ?hw 77000 40000 54001000 sample_servo = PTP_SERVO_LOCKED"
    by (simp add: servo_next_def ev span_ns_def ptp_clock_cnt_freq_def)
  with ptp_servo_processes_sample [of ?hw sample_servo sample_clock 77000 40000 54001000] show ?thesis
    by (simp add: ev)
qed

text \<open>
  The slope estimate can overflow.  After a step, a raw offset more than 9.3 seconds away from the reference has no
  defined result: the product with \<^verbatim>\<open>NS_PER_S\<close> does not fit 64 bits.
\<close>

theorem ptp_servo_slope_overflow:
  assumes "state s = PTP_SERVO_STEPPED" "span_ns hw (ref_cnt s) rx \<ge> NS_PER_S div 8" "\<bar>raw - ref_raw s\<bar> > 9300000000"
  shows "ptp_servo_sample hw raw delay rx (s, c) = None"
proof -
  have "\<not> i64_range ((raw - ref_raw s) * NS_PER_S)" using assms(3) by (auto simp: i64_range_def NS_PER_S_def)
  then have "sample_stepped hw raw delay d rx (s, c) = None" for d
    using assms(2) by (simp add: sample_stepped_def Let_def sub64_def mul64_def i64_def)
  then show ?thesis using assms(1) by (cases "sub64 raw (max 0 delay)") (simp_all add: sample_eq)
qed

theorem ptp_servo_slope_overflow_witness:
  "ptp_servo_sample \<lparr>hw_freq = 54000000, hw_cnt = \<lambda>_. 54001500\<rparr> 10000000000 40000 54001000
     (sample_servo, sample_clock) = None"
  by (rule ptp_servo_slope_overflow)
    (simp_all add: sample_servo_def span_ns_def ptp_clock_cnt_freq_def NS_PER_S_def to_i64_def)

end
