(* ===== verification/Ptp_Core.thy ===== *)
theory Ptp_Core
  imports Ptp_Msg Ptp_Servo
begin

text \<open>
  The slave engine of \<^verbatim>\<open>port/ptp/ptp_core.c\<close>: master selection, the Sync and Delay_Req exchanges, the path-delay
  filter and the reports.  The engine's state, the clock and the lines it logs make up the state of the model; the
  hardware counter and the transmit hook are parameters.
\<close>

section \<open>Helpers\<close>

definition PTP_DELAY_WIN :: nat where "PTP_DELAY_WIN = 8"
definition PTP_DELAY_MAX_NS :: int where "PTP_DELAY_MAX_NS = 10000000"
definition PTP_STATS_WIN :: u32 where "PTP_STATS_WIN = 16"
definition ANNOUNCE_LEN_MIN :: nat where "ANNOUNCE_LEN_MIN = 64"
definition DELAY_RESP_LEN :: nat where "DELAY_RESP_LEN = 54"
definition SYNC_LEN :: nat where "SYNC_LEN = 44"
definition FLAG1_UTC_VALID :: u8 where "FLAG1_UTC_VALID = 0x04"
definition FLAG1_PTP_TIMESCALE :: u8 where "FLAG1_PTP_TIMESCALE = 0x08"

definition rd16 :: "u8 list \<Rightarrow> nat \<Rightarrow> u16 ub" where
  "rd16 p i = do { a \<leftarrow> byte_at p i; b \<leftarrow> byte_at p (i + 1); Some (push_bit 8 (ucast a) OR ucast b) }"

definition rd32 :: "u8 list \<Rightarrow> nat \<Rightarrow> u32 ub" where
  "rd32 p i = do {
     a \<leftarrow> byte_at p i; b \<leftarrow> byte_at p (i + 1); c \<leftarrow> byte_at p (i + 2); d \<leftarrow> byte_at p (i + 3);
     Some (((push_bit 24 (ucast a) OR push_bit 16 (ucast b)) OR push_bit 8 (ucast c)) OR ucast d) }"

text \<open>The byte loops of the two readers below are the loop of the 48- and 64-bit readers of \<^verbatim>\<open>ptp_msg.c\<close>.\<close>

definition rd_ts_ns :: "u8 list \<Rightarrow> nat \<Rightarrow> int ub" where
  "rd_ts_ns p i = do {
     secs \<leftarrow> be_loop p i 6 0;
     a \<leftarrow> mul64 (to_i64 secs) NS_PER_S;
     n \<leftarrow> rd32 p (i + 6);
     add64 a (uint n)
   }"

definition rd_corr_ns :: "u8 list \<Rightarrow> int ub" where
  "rd_corr_ns hdr = do { v \<leftarrow> be_loop hdr 8 8 0; div64 (to_i64 v) 65536 }"

fun cmp_bytes :: "u8 list \<Rightarrow> nat \<Rightarrow> u8 list \<Rightarrow> nat \<Rightarrow> nat \<Rightarrow> int ub" where
  "cmp_bytes a i b j 0 = Some 0"
| "cmp_bytes a i b j (Suc n) = do {
     x \<leftarrow> byte_at a i;
     y \<leftarrow> byte_at b j;
     if x \<noteq> y then Some (if x < y then - 1 else 1) else cmp_bytes a (i + 1) b (j + 1) n
   }"

definition copy_bytes :: "u8 list \<Rightarrow> nat \<Rightarrow> nat \<Rightarrow> u8 list ub" where
  "copy_bytes s i n = get_bytes s i n"

text \<open>The digits of a number, last digit first; at most \<open>n\<close> of them.\<close>

fun i64s_digits :: "nat \<Rightarrow> u64 \<Rightarrow> string" where
  "i64s_digits 0 u = []"
| "i64s_digits (Suc n) u =
    (let c = char_of (48 + unat (u mod 10)); u = u div 10 in if u \<noteq> 0 then c # i64s_digits n u else [c])"

definition i64s :: "int \<Rightarrow> string" where
  "i64s v =
    (let u = (if v < 0 then to_u64 (- (v + 1)) + 1 else to_u64 v)
     in (if v < 0 then ''-'' else []) @ rev (i64s_digits 24 u))"

lemma drop_bit2_less: "(b :: u64) \<noteq> 0 \<Longrightarrow> unat (drop_bit 2 b) < unat b"
proof -
  assume "b \<noteq> 0"
  then have "unat b \<noteq> 0" by (simp add: unat_eq_zero)
  moreover have "unat (drop_bit 2 b) = unat b div 4"
    by (simp only: unat_drop_bit_eq) (simp add: drop_bit_eq_div)
  ultimately show ?thesis by simp
qed

function isqrt_start :: "u64 \<Rightarrow> u64 \<Rightarrow> u64" where
  "isqrt_start x bit' = (if bit' > x then isqrt_start x (drop_bit 2 bit') else bit')"
  by auto
termination
proof (relation "measure (\<lambda>(x, b). unat b)")
  fix x b :: u64
  assume "x < b"
  then have "b \<noteq> 0" by auto
  then show "((x, drop_bit 2 b), (x, b)) \<in> measure (\<lambda>(x, b). unat b)" using drop_bit2_less by simp
qed simp

function isqrt_loop :: "u64 \<Rightarrow> u64 \<Rightarrow> u64 \<Rightarrow> u64" where
  "isqrt_loop x r bit' =
    (if bit' \<noteq> 0 then
       if x \<ge> r + bit' then isqrt_loop (x - (r + bit')) (drop_bit 1 r + bit') (drop_bit 2 bit')
       else isqrt_loop x (drop_bit 1 r) (drop_bit 2 bit')
     else r)"
  by auto
termination
  by (relation "measure (\<lambda>(x, r, b). unat b)") (use drop_bit2_less in auto)

declare isqrt_start.simps [simp del] isqrt_loop.simps [simp del]

definition isqrt64 :: "u64 \<Rightarrow> u64" where
  "isqrt64 x = isqrt_loop x 0 (isqrt_start x (push_bit 62 1))"

section \<open>State\<close>

record Dataset =
  prio1 :: u8
  clk_class :: u8
  clk_accuracy :: u8
  prio2 :: u8
  variance :: u16
  steps_removed :: u16
  gm_id :: "u8 list"
  port_id :: "u8 list"

record PtpCore =
  self :: MsgHeader
  self_id :: "u8 list"
  have_master :: bool
  master :: Dataset
  last_announce_ms :: u32
  announce_timeout_ms :: u32
  utc_offset :: int
  flags1 :: u8
  sync_waiting_fup :: bool
  sync_seq :: u16
  t2_cnt :: u64
  t2_ns :: int
  sync_corr :: int
  t2_epoch :: u32
  ms_valid :: bool
  ms_leg :: int
  ms_epoch :: u32
  dreq_due :: bool
  dreq_outstanding :: bool
  dreq_seq :: u16
  t3_ns :: int
  t3_epoch :: u32
  last_dreq_ms :: u32
  now_ms :: u32
  delay_win :: "int list"
  delay_n :: nat
  delay_idx :: nat
  delay_ns :: int
  servo :: PtpServo
  last_offset :: int
  n_sync :: u32
  st_sum :: int
  st_max :: int
  st_sq :: u64
  st_n :: u32

text \<open>The lines the engine logs, with the values they print.\<close>

datatype ptp_log =
    LogInit "u8 list" u8
  | LogMaster bool Dataset
  | LogState PtpServoState PtpServoState string string string string
  | LogOffset u32 string string string string
  | LogStats u32 string string string
  | LogTimeout int

record PtpSys =
  g :: PtpCore
  clk :: ptp_clock
  out :: "ptp_log list"

abbreviation upd_g :: "(PtpCore \<Rightarrow> PtpCore) \<Rightarrow> PtpSys \<Rightarrow> PtpSys" where
  "upd_g f S \<equiv> S\<lparr>g := f (g S)\<rparr>"

definition log :: "ptp_log \<Rightarrow> PtpSys \<Rightarrow> PtpSys" where
  "log l S = S\<lparr>out := out S @ [l]\<rparr>"

section \<open>Master selection\<close>

definition dataset_cmp :: "Dataset \<Rightarrow> Dataset \<Rightarrow> int ub" where
  "dataset_cmp a b =
    (if prio1 a \<noteq> prio1 b then Some (if prio1 a < prio1 b then - 1 else 1)
     else if clk_class a \<noteq> clk_class b then Some (if clk_class a < clk_class b then - 1 else 1)
     else if clk_accuracy a \<noteq> clk_accuracy b then Some (if clk_accuracy a < clk_accuracy b then - 1 else 1)
     else if variance a \<noteq> variance b then Some (if variance a < variance b then - 1 else 1)
     else if prio2 a \<noteq> prio2 b then Some (if prio2 a < prio2 b then - 1 else 1)
     else do {
       c \<leftarrow> cmp_bytes (gm_id a) 0 (gm_id b) 0 8;
       if c \<noteq> 0 then Some c
       else if steps_removed a \<noteq> steps_removed b then Some (if steps_removed a < steps_removed b then - 1 else 1)
       else cmp_bytes (port_id a) 0 (port_id b) 0 10
     })"

definition reset_measurements :: "PtpSys \<Rightarrow> PtpSys" where
  "reset_measurements = upd_g (\<lambda>g. g\<lparr>sync_waiting_fup := False, ms_valid := False, dreq_due := False,
     dreq_outstanding := False, delay_n := 0, delay_idx := 0, delay_ns := - 1, st_n := 0, st_sum := 0, st_sq := 0,
     st_max := 0, servo := ptp_servo_init (servo g)\<rparr>)"

definition log_interval_ms :: "int \<Rightarrow> u32" where
  "log_interval_ms log2s =
    (let log2s = (if log2s < - 7 then - 7 else log2s);
         log2s = (if log2s > 6 then 6 else log2s)
     in if log2s \<ge> 0 then push_bit (nat log2s) 1000 else drop_bit (nat (- log2s)) 1000)"

definition read_dataset :: "u8 list \<Rightarrow> Dataset ub" where
  "read_dataset b = do {
     p1 \<leftarrow> byte_at b 47;
     cl \<leftarrow> byte_at b 48;
     ac \<leftarrow> byte_at b 49;
     va \<leftarrow> rd16 b 50;
     p2 \<leftarrow> byte_at b 52;
     gm \<leftarrow> copy_bytes b 53 8;
     sr \<leftarrow> rd16 b 61;
     po \<leftarrow> copy_bytes b 20 10;
     Some \<lparr>prio1 = p1, clk_class = cl, clk_accuracy = ac, prio2 = p2, variance = va, steps_removed = sr,
       gm_id = gm, port_id = po\<rparr>
   }"

text \<open>The bookkeeping at the end of an accepted Announce.\<close>

definition note_announce :: "u8 list \<Rightarrow> PtpSys \<Rightarrow> PtpSys ub" where
  "note_announce b S = do {
     li \<leftarrow> byte_at b 33;
     uo \<leftarrow> rd16 b 44;
     f1 \<leftarrow> byte_at b 7;
     Some (upd_g (\<lambda>g. g\<lparr>last_announce_ms := now_ms g, announce_timeout_ms := 3 * log_interval_ms (to_i8 li) + 500,
       utc_offset := to_i16 uo, flags1 := f1\<rparr>) S)
   }"

definition handle_announce :: "u8 list \<Rightarrow> nat \<Rightarrow> PtpSys \<Rightarrow> PtpSys ub" where
  "handle_announce b len S =
    (if len < ANNOUNCE_LEN_MIN then Some S
     else do {
       ds \<leftarrow> read_dataset b;
       same \<leftarrow> (if have_master (g S)
               then do { c \<leftarrow> cmp_bytes (port_id ds) 0 (port_id (master (g S))) 0 10; Some (c = 0) }
               else Some False);
       if same then note_announce b (upd_g (\<lambda>g. g\<lparr>master := ds\<rparr>) S)
       else do {
         better \<leftarrow> (if \<not> have_master (g S) then Some True
                   else do { c \<leftarrow> dataset_cmp ds (master (g S)); Some (c < 0) });
         if better then
           (let had = have_master (g S);
                S = upd_g (\<lambda>g. g\<lparr>master := ds, have_master := True\<rparr>) S
            in note_announce b (log (LogMaster had ds) (reset_measurements S)))
         else Some S
       }
     })"

definition from_master :: "u8 list \<Rightarrow> PtpSys \<Rightarrow> bool ub" where
  "from_master b S =
    (if have_master (g S) then do { c \<leftarrow> cmp_bytes b 20 (port_id (master (g S))) 0 10; Some (c = 0) }
     else Some False)"

section \<open>Reporting\<close>

definition ptp_core_utc_now_ns :: "ptp_hw \<Rightarrow> PtpSys \<Rightarrow> (int \<times> PtpSys) ub" where
  "ptp_core_utc_now_ns hw S = do {
     (t, c) \<leftarrow> ptp_clock_now_ns hw (clk S);
     t \<leftarrow> (if flags1 (g S) AND FLAG1_PTP_TIMESCALE \<noteq> 0 \<and> flags1 (g S) AND FLAG1_UTC_VALID \<noteq> 0
          then do { m \<leftarrow> mul64 (utc_offset (g S)) NS_PER_S; sub64 t m } else Some t);
     Some (t, S\<lparr>clk := c\<rparr>)
   }"

text \<open>The last \<open>width\<close> decimal digits of a number.\<close>

fun put_num :: "u32 \<Rightarrow> nat \<Rightarrow> string" where
  "put_num v 0 = []"
| "put_num v (Suc w) = put_num (v div 10) w @ [char_of (48 + unat (v mod 10))]"

text \<open>The civil date of a day number counted from 1970-01-01; every intermediate value is far from the limits of the type.\<close>

definition civil_from_days :: "int \<Rightarrow> int \<times> int \<times> int" where
  "civil_from_days z =
    (let zz = z + 719468;
         era = (if zz \<ge> 0 then zz else zz - 146096) sdiv 146097;
         doe = zz - era * 146097;
         yoe = (doe - doe sdiv 1460 + doe sdiv 36524 - doe sdiv 146096) sdiv 365;
         y = yoe + era * 400;
         doy = doe - (365 * yoe + yoe sdiv 4 - yoe sdiv 100);
         mp = (5 * doy + 2) sdiv 153;
         d = doy - (153 * mp + 2) sdiv 5 + 1;
         m = (if mp < 10 then mp + 3 else mp - 9)
     in ((if m \<le> 2 then y + 1 else y), m, d))"

definition ptp_format_utc :: "int \<Rightarrow> string" where
  "ptp_format_utc utc_ns =
    (let secs = utc_ns sdiv NS_PER_S;
         ns = utc_ns smod NS_PER_S;
         (ns, secs) = (if ns < 0 then (ns + NS_PER_S, secs - 1) else (ns, secs));
         z = (if secs \<ge> 0 then secs sdiv 86400 else (secs - 86399) sdiv 86400);
         sod = secs - z * 86400;
         (y, m, d) = civil_from_days z
     in put_num (to_u32 y) 4 @ ''-'' @ put_num (to_u32 m) 2 @ ''-'' @ put_num (to_u32 d) 2 @ '' '' @
        put_num (to_u32 (sod sdiv 3600)) 2 @ '':'' @ put_num (to_u32 ((sod sdiv 60) smod 60)) 2 @ '':'' @
        put_num (to_u32 (sod smod 60)) 2 @ ''.'' @ put_num (to_u32 (ns sdiv 1000)) 6)"

definition report_stats :: "int \<Rightarrow> PtpSys \<Rightarrow> PtpSys ub" where
  "report_stats offset S = do {
     ao \<leftarrow> abs64 offset;
     sm \<leftarrow> add64 (st_sum (g S)) offset;
     sq \<leftarrow> mul64 ao ao;
     Some (upd_g (\<lambda>g. g\<lparr>st_sum := sm, st_sq := st_sq g + to_u64 sq, st_max := (if ao > st_max g then ao else st_max g),
       st_n := st_n g + 1\<rparr>) S)
   }"

definition flush_stats :: "PtpSys \<Rightarrow> PtpSys ub" where
  "flush_stats S =
    (let n = st_n (g S) in
     if n \<ge> PTP_STATS_WIN then do {
       mean \<leftarrow> div64 (st_sum (g S)) (uint n);
       rms \<leftarrow> Some (isqrt64 (st_sq (g S) div ucast n));
       S \<leftarrow> Some (log (LogStats n (i64s mean) (i64s (to_i64 rms)) (i64s (st_max (g S)))) S);
       Some (upd_g (\<lambda>g. g\<lparr>st_n := 0, st_sum := 0, st_sq := 0, st_max := 0\<rparr>) S)
     } else Some S)"

definition report :: "ptp_hw \<Rightarrow> int \<Rightarrow> PtpServoState \<Rightarrow> PtpSys \<Rightarrow> PtpSys ub" where
  "report hw offset before S = do {
     st \<leftarrow> Some (state (servo (g S)));
     S \<leftarrow> (if st = PTP_SERVO_LOCKED then report_stats offset S else Some S);
     (t, S) \<leftarrow> ptp_core_utc_now_ns hw S;
     when' \<leftarrow> Some (ptp_format_utc t);
     f \<leftarrow> Some (i64s (ptp_clock_get_freq (clk S)));
     S \<leftarrow> Some (log (if before \<noteq> PTP_SERVO_LOCKED
             then LogState before st (i64s offset) (i64s (delay_ns (g S))) f when'
             else LogOffset (n_sync (g S)) (i64s offset) (i64s (delay_ns (g S))) f when') S);
     flush_stats S
   }"

section \<open>Measurements\<close>

text \<open>The insertion sort of the filter: the inner loop moves larger elements up and puts \<open>v\<close> in the gap.\<close>

fun sort_shift :: "int \<Rightarrow> nat \<Rightarrow> int list \<Rightarrow> int list" where
  "sort_shift v 0 s = s[0 := v]"
| "sort_shift v (Suc j) s = (if s ! j > v then sort_shift v j (s[Suc j := s ! j]) else s[Suc j := v])"

fun sort_loop :: "nat \<Rightarrow> nat \<Rightarrow> int list \<Rightarrow> int list" where
  "sort_loop i 0 s = s"
| "sort_loop i (Suc k) s = sort_loop (i + 1) k (sort_shift (s ! i) i s)"

definition delay_filter :: "nat \<Rightarrow> int list \<Rightarrow> int ub" where
  "delay_filter n win =
    (let s = sort_loop 1 (n - 1) (take n win) in
     if n mod 2 = 1 then Some (s ! (n div 2))
     else do { a \<leftarrow> add64 (s ! (n div 2 - 1)) (s ! (n div 2)); div64 a 2 })"

definition delay_add :: "int \<Rightarrow> PtpSys \<Rightarrow> PtpSys ub" where
  "delay_add sample S = do {
     _ \<leftarrow> ub_guard (delay_idx (g S) < length (delay_win (g S)));
     S \<leftarrow> Some (upd_g (\<lambda>g. g\<lparr>delay_win := (delay_win g)[delay_idx g := sample],
       delay_idx := (delay_idx g + 1) mod PTP_DELAY_WIN,
       delay_n := (if delay_n g < PTP_DELAY_WIN then delay_n g + 1 else delay_n g)\<rparr>) S);
     d \<leftarrow> delay_filter (delay_n (g S)) (delay_win (g S));
     Some (upd_g (\<lambda>g. g\<lparr>delay_ns := d\<rparr>) S)
   }"

text \<open>The master-to-slave leg is kept for the delay measurement unless the servo has just stepped.\<close>

definition note_leg :: "int \<Rightarrow> PtpSys \<Rightarrow> PtpSys" where
  "note_leg raw S = (if ptp_clock_epoch (clk S) = t2_epoch (g S)
     then upd_g (\<lambda>g. g\<lparr>ms_leg := raw, ms_epoch := t2_epoch g, ms_valid := True\<rparr>) S
     else upd_g (\<lambda>g. g\<lparr>ms_valid := False\<rparr>) S)"

definition run_servo :: "ptp_hw \<Rightarrow> int \<Rightarrow> PtpSys \<Rightarrow> (int \<times> PtpSys) ub" where
  "run_servo hw raw S = do {
     (offset, sv, c) \<leftarrow> ptp_servo_sample hw raw (delay_ns (g S)) (t2_cnt (g S)) (servo (g S), clk S);
     Some (offset, S\<lparr>g := (g S)\<lparr>servo := sv, last_offset := offset\<rparr>, clk := c\<rparr>)
   }"

definition sync_complete :: "ptp_hw \<Rightarrow> int \<Rightarrow> int \<Rightarrow> PtpSys \<Rightarrow> PtpSys ub" where
  "sync_complete hw t1_ns corr_ns S =
    (let before = state (servo (g S)) in
     if t2_epoch (g S) \<noteq> ptp_clock_epoch (clk S) then Some S
     else do {
       t \<leftarrow> add64 t1_ns corr_ns;
       raw \<leftarrow> sub64 (t2_ns (g S)) t;
       S \<leftarrow> Some (upd_g (\<lambda>g. g\<lparr>n_sync := n_sync g + 1\<rparr>) S);
       (offset, S) \<leftarrow> run_servo hw raw S;
       S \<leftarrow> report hw offset before (note_leg raw S);
       Some (upd_g (\<lambda>g. g\<lparr>dreq_due := True\<rparr>) S)
     })"

definition stamp_sync :: "ptp_hw \<Rightarrow> u8 list \<Rightarrow> u64 \<Rightarrow> PtpSys \<Rightarrow> PtpSys ub" where
  "stamp_sync hw b rx_cnt S = do {
     sq \<leftarrow> rd16 b 30;
     t2 \<leftarrow> ptp_clock_from_cnt hw rx_cnt (clk S);
     co \<leftarrow> rd_corr_ns b;
     Some (upd_g (\<lambda>g. g\<lparr>sync_seq := sq, t2_cnt := rx_cnt, t2_ns := t2, t2_epoch := ptp_clock_epoch (clk S),
       sync_corr := co\<rparr>) S)
   }"

definition handle_sync :: "ptp_hw \<Rightarrow> u8 list \<Rightarrow> nat \<Rightarrow> u64 \<Rightarrow> PtpSys \<Rightarrow> PtpSys ub" where
  "handle_sync hw b len rx_cnt S =
    (if len < SYNC_LEN then Some S
     else do {
       S \<leftarrow> stamp_sync hw b rx_cnt S;
       fl \<leftarrow> byte_at b 6;
       if fl AND 0x02 \<noteq> 0 then Some (upd_g (\<lambda>g. g\<lparr>sync_waiting_fup := True\<rparr>) S)
       else do {
         t1 \<leftarrow> rd_ts_ns b 34;
         sync_complete hw t1 (sync_corr (g S)) (upd_g (\<lambda>g. g\<lparr>sync_waiting_fup := False\<rparr>) S)
       }
     })"

definition handle_follow_up :: "ptp_hw \<Rightarrow> u8 list \<Rightarrow> nat \<Rightarrow> PtpSys \<Rightarrow> PtpSys ub" where
  "handle_follow_up hw b len S =
    (if len < SYNC_LEN \<or> \<not> sync_waiting_fup (g S) then Some S
     else do {
       sq \<leftarrow> rd16 b 30;
       if sq \<noteq> sync_seq (g S) then Some S
       else do {
         S \<leftarrow> Some (upd_g (\<lambda>g. g\<lparr>sync_waiting_fup := False\<rparr>) S);
         t1 \<leftarrow> rd_ts_ns b 34;
         co \<leftarrow> rd_corr_ns b;
         co \<leftarrow> add64 (sync_corr (g S)) co;
         sync_complete hw t1 co S
       }
     })"

definition handle_delay_resp :: "u8 list \<Rightarrow> nat \<Rightarrow> PtpSys \<Rightarrow> PtpSys ub" where
  "handle_delay_resp b len S =
    (if len < DELAY_RESP_LEN \<or> \<not> dreq_outstanding (g S) then Some S
     else do {
       sq \<leftarrow> rd16 b 30;
       mine \<leftarrow> (if sq \<noteq> dreq_seq (g S) then Some False
               else do { c \<leftarrow> cmp_bytes b 44 (self_id (g S)) 0 10; Some (c = 0) });
       if \<not> mine then Some S
       else do {
         S \<leftarrow> Some (upd_g (\<lambda>g. g\<lparr>dreq_outstanding := False\<rparr>) S);
         if t3_epoch (g S) \<noteq> ptp_clock_epoch (clk S) \<or> \<not> ms_valid (g S) \<or> ms_epoch (g S) \<noteq> t3_epoch (g S) then Some S
         else do {
           ts \<leftarrow> rd_ts_ns b 34;
           co \<leftarrow> rd_corr_ns b;
           t4 \<leftarrow> sub64 ts co;
           sm \<leftarrow> sub64 t4 (t3_ns (g S));
           a \<leftarrow> add64 (ms_leg (g S)) sm;
           sample \<leftarrow> div64 a 2;
           m \<leftarrow> abs64 sample;
           if m > PTP_DELAY_MAX_NS then Some S else delay_add sample S
         }
       }
     })"

text \<open>The transmit hook maps the destination port and the message to its success and transmit timestamp.\<close>

type_synonym PtpTxFn = "u16 \<Rightarrow> u8 list \<Rightarrow> bool \<times> u64"

definition transmit :: "ptp_hw \<Rightarrow> PtpTxFn option \<Rightarrow> u8 list \<Rightarrow> PtpSys \<Rightarrow> PtpSys ub" where
  "transmit hw tx buf S = (case tx of
     None \<Rightarrow> Some S
   | Some f \<Rightarrow>
       if fst (f PTP_EVENT_PORT buf) then do {
         t3 \<leftarrow> ptp_clock_from_cnt hw (snd (f PTP_EVENT_PORT buf)) (clk S);
         Some (upd_g (\<lambda>g. g\<lparr>t3_ns := t3, t3_epoch := ptp_clock_epoch (clk S), dreq_outstanding := True\<rparr>) S)
       } else Some S)"

definition send_delay_req :: "ptp_hw \<Rightarrow> PtpTxFn option \<Rightarrow> PtpSys \<Rightarrow> PtpSys ub" where
  "send_delay_req hw tx S = do {
     (now, c) \<leftarrow> ptp_clock_now hw (clk S);
     S \<leftarrow> Some (S\<lparr>clk := c\<rparr>);
     origin \<leftarrow> Some (ptp_internal_to_ts now);
     S \<leftarrow> Some (upd_g (\<lambda>g. g\<lparr>dreq_seq := dreq_seq g + 1\<rparr>) S);
     (n, buf) \<leftarrow> ptp_pack_delay_req (replicate DELAY_REQ_LENGTH 0) (self (g S)) (dreq_seq (g S)) origin;
     S \<leftarrow> transmit hw tx buf S;
     Some (upd_g (\<lambda>g. g\<lparr>last_dreq_ms := now_ms g\<rparr>) S)
   }"

section \<open>Public interface\<close>

definition ptp_core_init :: "u8 list \<Rightarrow> u8 \<Rightarrow> PtpSys \<Rightarrow> PtpSys ub" where
  "ptp_core_init mac domain S =
    (case mac of
       [m0, m1, m2, m3, m4, m5] \<Rightarrow>
         (let id = [m0, m1, m2, 0xFF, 0xFE, m3, m4, m5];
              h = \<lparr>transportSpecific = 0, messageType = 0, versionPTP = 0, messageLength = 0, domainNumber = domain,
                   flagField0 = 0, flagField1 = 0, correction_lsb = 0, correction_msb = 0, clockIdentity = id,
                   portNumber = 1, sequenceId = 0, controlField = 0, logMessageInterval = 0\<rparr>;
              ds = \<lparr>prio1 = 0, clk_class = 0, clk_accuracy = 0, prio2 = 0, variance = 0, steps_removed = 0,
                    gm_id = replicate 8 0, port_id = replicate 10 0\<rparr>;
              c = \<lparr>self = h, self_id = id @ [0, 1], have_master = False, master = ds, last_announce_ms = 0,
                   announce_timeout_ms = 0, utc_offset = 0, flags1 = 0, sync_waiting_fup = False, sync_seq = 0,
                   t2_cnt = 0, t2_ns = 0, sync_corr = 0, t2_epoch = 0, ms_valid = False, ms_leg = 0, ms_epoch = 0,
                   dreq_due = False, dreq_outstanding = False, dreq_seq = 0, t3_ns = 0, t3_epoch = 0, last_dreq_ms = 0,
                   now_ms = 0, delay_win = replicate PTP_DELAY_WIN 0, delay_n = 0, delay_idx = 0, delay_ns = 0,
                   servo = ptp_servo_init (servo (g S)), last_offset = 0, n_sync = 0, st_sum = 0, st_max = 0, st_sq = 0,
                   st_n = 0\<rparr>
          in Some (log (LogInit id domain) (reset_measurements (S\<lparr>g := c\<rparr>))))
     | _ \<Rightarrow> None)"

definition ptp_core_rx :: "ptp_hw \<Rightarrow> u8 list \<Rightarrow> nat \<Rightarrow> u16 \<Rightarrow> u64 \<Rightarrow> PtpSys \<Rightarrow> PtpSys ub" where
  "ptp_core_rx hw buf len port rx_cnt S =
    (if len < PTP_HEADER_LENGTH then Some S
     else do {
       v \<leftarrow> byte_at buf 1;
       if v AND 0x0F \<noteq> 2 then Some S
       else do {
         d \<leftarrow> byte_at buf 4;
         if d \<noteq> domainNumber (self (g S)) then Some S
         else do {
           own \<leftarrow> cmp_bytes buf 20 (self_id (g S)) 0 10;
           if own = 0 then Some S
           else do {
             b0 \<leftarrow> byte_at buf 0;
             type \<leftarrow> Some (b0 AND 0x0F);
             fm \<leftarrow> from_master buf S;
             if port = PTP_EVENT_PORT then
               (if type = PTP_SYNC \<and> fm then handle_sync hw buf len rx_cnt S else Some S)
             else if type = PTP_ANNOUNCE then handle_announce buf len S
             else if type = PTP_FOLLOW_UP \<and> fm then handle_follow_up hw buf len S
             else if type = PTP_DELAY_RESP \<and> fm then handle_delay_resp buf len S
             else Some S
           }
         }
       }
     })"

definition ptp_core_poll :: "ptp_hw \<Rightarrow> PtpTxFn option \<Rightarrow> u32 \<Rightarrow> PtpSys \<Rightarrow> PtpSys ub" where
  "ptp_core_poll hw tx now S =
    (let S = upd_g (\<lambda>g. g\<lparr>now_ms := now\<rparr>) S in
     if have_master (g S) \<and> now - last_announce_ms (g S) > announce_timeout_ms (g S) then
       Some (reset_measurements (upd_g (\<lambda>g. g\<lparr>have_master := False\<rparr>)
         (log (LogTimeout (ptp_clock_get_freq (clk S))) S)))
     else if dreq_due (g S) \<and> state (servo (g S)) \<noteq> PTP_SERVO_UNLOCKED \<and> now - last_dreq_ms (g S) \<ge> 900 then
       send_delay_req hw tx (upd_g (\<lambda>g. g\<lparr>dreq_due := False\<rparr>) S)
     else Some S)"

definition ptp_core_is_locked :: "PtpSys \<Rightarrow> bool" where
  "ptp_core_is_locked S \<longleftrightarrow> state (servo (g S)) = PTP_SERVO_LOCKED"

definition ptp_core_last_offset_ns :: "PtpSys \<Rightarrow> int" where
  "ptp_core_last_offset_ns S = last_offset (g S)"

record PtpStatus =
  ps_have_master :: bool
  ps_locked :: bool
  ps_state :: string
  ps_offset_ns :: int
  ps_delay_ns :: int
  ps_freq_ppb :: int
  ps_n_sync :: u32
  ps_gm_id :: "u8 list"
  ps_utc_offset :: int

definition ptp_core_get_status :: "PtpSys \<Rightarrow> PtpStatus ub" where
  "ptp_core_get_status S = do {
     gm \<leftarrow> copy_bytes (gm_id (master (g S))) 0 8;
     Some \<lparr>ps_have_master = have_master (g S),
       ps_locked = (have_master (g S) \<and> state (servo (g S)) = PTP_SERVO_LOCKED),
       ps_state = (if have_master (g S) then ptp_servo_state_name (state (servo (g S))) else ''LISTENING''),
       ps_offset_ns = last_offset (g S), ps_delay_ns = delay_ns (g S), ps_freq_ppb = ptp_clock_get_freq (clk S),
       ps_n_sync = n_sync (g S), ps_gm_id = gm, ps_utc_offset = utc_offset (g S)\<rparr>
   }"

end
