(* ===== verification/Ptp_Props.thy ===== *)
theory Ptp_Props
  imports Ptp_Core "HOL-Library.Multiset" "HOL-Library.List_Lexorder"
begin

text \<open>
  Correctness of the slave engine of theory \<open>Ptp_Core\<close>: the integer square root, the median filter of the path
  delay, the choice of the best master, and the invariant of the engine's state.
\<close>

section \<open>Integer square root\<close>

definition sq_bit :: "nat \<Rightarrow> nat" where
  "sq_bit m = (case m of 0 \<Rightarrow> 0 | Suc j \<Rightarrow> 4 ^ j)"

lemma unat_drop_bit2: "unat (drop_bit 2 (b :: u64)) = unat b div 4"
  by (simp only: unat_drop_bit_eq) (simp add: drop_bit_eq_div)

lemma unat_drop_bit1: "unat (drop_bit 1 (b :: u64)) = unat b div 2"
  by (simp only: unat_drop_bit_eq) (simp add: drop_bit_eq_div)

lemma sq_bit_next: "unat (b :: u64) = sq_bit (Suc j) \<Longrightarrow> unat (drop_bit 2 b) = sq_bit j"
  by (cases j) (simp_all add: unat_drop_bit2 sq_bit_def)

lemma isqrt_loop_correct:
  assumes "unat b = sq_bit m" "unat r = a * 2 ^ m" "2 ^ m dvd a" "a + 2 ^ m \<le> 2 ^ 32" "unat x + a * a = X"
    and "X < (a + 2 ^ m) * (a + 2 ^ m)"
  shows "unat (isqrt_loop x r b) * unat (isqrt_loop x r b) \<le> X \<and>
    X < (unat (isqrt_loop x r b) + 1) * (unat (isqrt_loop x r b) + 1)"
  using assms
proof (induction m arbitrary: x r b a)
  case 0
  then have "b = 0" by (simp add: sq_bit_def unat_eq_zero)
  then have "isqrt_loop x r b = r" by (subst isqrt_loop.simps) simp
  then show ?case using 0 by (simp add: mult.commute)
next
  case (Suc j)
  define c :: nat where "c = 2 ^ j"
  have b: "unat b = c * c" using Suc.prems(1) by (simp add: sq_bit_def c_def power_mult_distrib [symmetric])
  have r: "unat r = 2 * a * c" using Suc.prems(2) by (simp add: c_def)
  have ca: "c dvd a" "c dvd a + c" using Suc.prems(3) dvd_trans [of c "2 ^ Suc j" a] by (auto simp: c_def)
  have c2: "a + 2 * c \<le> 2 ^ 32" using Suc.prems(4) by (simp add: c_def)
  have sq: "(a + c) * (a + c) = a * a + (2 * a * c + c * c)" by (simp add: algebra_simps)
  have "0 < c" by (simp add: c_def)
  then have ac: "a + c < 2 ^ 32" using c2 by linarith
  have "(a + c) * (a + c) < 2 ^ 32 * 2 ^ 32" by (rule mult_strict_mono [OF ac ac]) simp_all
  then have rb: "unat (r + b) = 2 * a * c + c * c"
    using b r sq unat_add_lem [of r b] by simp
  have nz: "b \<noteq> 0" using b by (auto simp: c_def)
  have d2: "unat (drop_bit 2 b) = sq_bit j" by (rule sq_bit_next [OF Suc.prems(1)])
  have d1: "unat (drop_bit 1 r) = a * c" using unat_drop_bit1 [of r] r by simp
  show ?case
  proof (cases "x \<ge> r + b")
    case True
    then have le: "2 * a * c + c * c \<le> unat x" using rb by (simp add: word_le_nat_alt)
    have "a * c + c * c < 2 ^ 64"
      using \<open>(a + c) * (a + c) < _\<close> sq by simp
    then have r': "unat (drop_bit 1 r + b) = (a + c) * c"
      using d1 b unat_add_lem [of "drop_bit 1 r" b] by (simp add: distrib_right)
    have x': "unat (x - (r + b)) = unat x - (2 * a * c + c * c)" using True rb by (simp add: unat_sub)
    have "unat (x - (r + b)) + (a + c) * (a + c) = X" using x' le sq Suc.prems(5) by simp
    moreover have "X < (a + c + c) * (a + c + c)" using Suc.prems(6) by (simp add: c_def mult_2 add.assoc)
    moreover have "a + c + c \<le> 2 ^ 32" using c2 by simp
    moreover have "isqrt_loop x r b = isqrt_loop (x - (r + b)) (drop_bit 1 r + b) (drop_bit 2 b)"
      using True nz by (subst isqrt_loop.simps) simp
    ultimately show ?thesis using Suc.IH [OF d2, of "drop_bit 1 r + b" "a + c"] r' ca(2) by (simp only: c_def)
  next
    case False
    then have "unat x < 2 * a * c + c * c" using rb by (simp add: word_le_nat_alt)
    then have "X < (a + c) * (a + c)" using Suc.prems(5) sq by simp
    moreover have "a + c \<le> 2 ^ 32" using c2 by simp
    moreover have "isqrt_loop x r b = isqrt_loop x (drop_bit 1 r) (drop_bit 2 b)"
      using False nz by (subst isqrt_loop.simps) simp
    ultimately show ?thesis using Suc.IH [OF d2, of "drop_bit 1 r" a] d1 ca(1) Suc.prems(5) by (simp only: c_def)
  qed
qed

lemma isqrt_start_correct:
  assumes "unat b = sq_bit m" "unat x < 4 ^ m"
  shows "\<exists>j. unat (isqrt_start x b) = sq_bit j \<and> unat x < 4 ^ j \<and> j \<le> m"
  using assms
proof (induction m arbitrary: b)
  case 0
  then have "b = 0" by (simp add: sq_bit_def unat_eq_zero)
  then have "isqrt_start x b = b" by (subst isqrt_start.simps) simp
  then show ?case using 0 by force
next
  case (Suc m)
  show ?case
  proof (cases "b > x")
    case True
    then have "unat x < 4 ^ m" using Suc.prems(1) by (simp add: word_less_nat_alt sq_bit_def)
    from Suc.IH [OF sq_bit_next [OF Suc.prems(1)] this] show ?thesis
      using True by (subst isqrt_start.simps) (auto intro: le_SucI)
  next
    case False
    then show ?thesis using Suc.prems by (subst isqrt_start.simps) auto
  qed
qed

lemma isqrt64_correct:
  "unat (isqrt64 x) * unat (isqrt64 x) \<le> unat x \<and> unat x < (unat (isqrt64 x) + 1) * (unat (isqrt64 x) + 1)"
proof -
  have b: "unat (push_bit 62 1 :: u64) = sq_bit 32" by (simp add: sq_bit_def)
  have "unat x < 4 ^ 32" using unsigned_less [of x] by simp
  from isqrt_start_correct [OF b this] obtain j where
    j: "unat (isqrt_start x (push_bit 62 1)) = sq_bit j" "unat x < 4 ^ j" "j \<le> 32" by blast
  have "(2::nat) ^ j \<le> 2 ^ 32" using j(3) by (rule power_increasing) simp
  moreover have "(4::nat) ^ j = 2 ^ j * 2 ^ j" by (simp add: power_mult_distrib [symmetric])
  ultimately show ?thesis
    unfolding isqrt64_def using j by (intro isqrt_loop_correct [of _ j _ 0]) auto
qed

section \<open>The median filter\<close>

lemma sort_shift_length [simp]: "length (sort_shift v j s) = length s"
  by (induction j arbitrary: s) auto

lemma sort_shift_correct:
  assumes "j < length s" "sorted (take j s)"
  shows "sorted (take (Suc j) (sort_shift v j s)) \<and>
    mset (take (Suc j) (sort_shift v j s)) = add_mset v (mset (take j s)) \<and>
    drop (Suc j) (sort_shift v j s) = drop (Suc j) s"
  using assms
proof (induction j arbitrary: s)
  case 0
  then show ?case by (cases s) auto
next
  case (Suc j)
  have j: "j < length s" "take (Suc j) s = take j s @ [s ! j]" using Suc.prems(1) by (simp_all add: take_Suc_conv_app_nth)
  have srt: "sorted (take j s)" "\<forall>x \<in> set (take j s). x \<le> s ! j" using Suc.prems(2) j(2) by (simp_all add: sorted_append)
  show ?case
  proof (cases "s ! j > v")
    case True
    let ?t = "sort_shift v j (s[Suc j := s ! j])"
    have "take j (s[Suc j := s ! j]) = take j s" by simp
    with Suc.IH [of "s[Suc j := s ! j]"] j(1) srt(1)
    have ih: "sorted (take (Suc j) ?t)" "mset (take (Suc j) ?t) = add_mset v (mset (take j s))"
      "drop (Suc j) ?t = drop (Suc j) (s[Suc j := s ! j])" by simp_all
    have dr: "drop (Suc j) ?t = s ! j # drop (Suc (Suc j)) s"
      using ih(3) Suc.prems(1) by (simp add: Cons_nth_drop_Suc [symmetric])
    have "?t ! Suc j = s ! j" "drop (Suc (Suc j)) ?t = drop (Suc (Suc j)) s"
      using dr Suc.prems(1) by (metis Cons_nth_drop_Suc list.inject sort_shift_length length_list_update)+
    moreover have "take (Suc (Suc j)) ?t = take (Suc j) ?t @ [?t ! Suc j]"
      using Suc.prems(1) by (simp add: take_Suc_conv_app_nth)
    moreover have "\<forall>x \<in> set (take (Suc j) ?t). x \<le> s ! j"
      using True srt(2) ih(2) by (metis less_imp_le set_mset_add_mset_insert set_mset_mset insertE)
    ultimately show ?thesis using True ih j by (simp add: sorted_append)
  next
    case False
    have "take (Suc (Suc j)) (s[Suc j := v]) = take (Suc j) s @ [v]"
      using Suc.prems(1) by (simp add: take_Suc_conv_app_nth)
    moreover have "\<forall>x \<in> set (take (Suc j) s). x \<le> v" using False srt(2) j(2) by auto
    ultimately show ?thesis using False Suc.prems by (simp add: sorted_append)
  qed
qed

lemma sort_loop_correct:
  assumes "i + k = length s" "0 < i" "sorted (take i s)"
  shows "sorted (sort_loop i k s) \<and> mset (sort_loop i k s) = mset s"
  using assms
proof (induction k arbitrary: i s)
  case (Suc k)
  let ?t = "sort_shift (s ! i) i s"
  have i: "i < length s" using Suc.prems(1) by simp
  note sh = sort_shift_correct [OF i Suc.prems(3), of "s ! i"]
  have "mset ?t = mset (take (Suc i) ?t) + mset (drop (Suc i) ?t)" by (metis append_take_drop_id mset_append)
  also have "\<dots> = add_mset (s ! i) (mset (take i s)) + mset (drop (Suc i) s)" using sh by simp
  also have "\<dots> = mset (take (Suc i) s) + mset (drop (Suc i) s)" using i by (simp add: take_Suc_conv_app_nth)
  also have "\<dots> = mset s" by (metis append_take_drop_id mset_append)
  finally have m: "mset ?t = mset s" .
  show ?case using Suc.IH [of "Suc i" ?t] Suc.prems sh m by simp
qed simp

lemma sort_loop_sort: "xs \<noteq> [] \<Longrightarrow> sort_loop 1 (length xs - 1) xs = sort xs"
proof -
  assume "xs \<noteq> []"
  then have "sorted (take 1 xs)" "1 + (length xs - 1) = length xs" by (cases xs; simp)+
  from sort_loop_correct [OF this(2) _ this(1)] show ?thesis by (metis properties_for_sort less_one)
qed

definition median :: "int list \<Rightarrow> int" where
  "median xs = (let s = sort xs; n = length xs in
     if odd n then s ! (n div 2) else (s ! (n div 2 - 1) + s ! (n div 2)) sdiv 2)"

lemma median_mset: "mset xs = mset ys \<Longrightarrow> median xs = median ys"
proof -
  assume m: "mset xs = mset ys"
  then have "sort xs = sort ys" by (intro properties_for_sort) simp_all
  moreover have "length xs = length ys" using m by (rule mset_eq_length)
  ultimately show ?thesis by (simp add: median_def)
qed

text \<open>The ring of the last eight samples; \<open>ys\<close> are all samples since the last reset, oldest first.\<close>

definition ring_ok :: "int list \<Rightarrow> nat \<Rightarrow> nat \<Rightarrow> int list \<Rightarrow> bool" where
  "ring_ok win n idx ys \<longleftrightarrow> length win = 8 \<and> idx < 8 \<and>
     (n < 8 \<and> idx = n \<and> n = length ys \<and> take n win = ys \<or>
      n = 8 \<and> 8 \<le> length ys \<and> drop idx win @ take idx win = drop (length ys - 8) ys)"

lemma ring_mset: "ring_ok win n idx ys \<Longrightarrow> mset (take n win) = mset (drop (length ys - 8) ys)"
proof -
  assume r: "ring_ok win n idx ys"
  have m: "mset (drop idx win @ take idx win) = mset win" by (metis append_take_drop_id mset_append union_commute)
  consider "n = length ys" "n < 8" "take n win = ys" | "n = 8" "length win = 8" "drop idx win @ take idx win = drop (length ys - 8) ys"
    using r by (auto simp: ring_ok_def)
  then show ?thesis
  proof cases
    case 2
    then show ?thesis using m by (metis take_all order_refl)
  qed simp
qed

lemma ring_add:
  assumes "ring_ok win n idx ys"
  shows "ring_ok (win[idx := x]) (if n < 8 then n + 1 else n) ((idx + 1) mod 8) (ys @ [x])"
proof (cases "n < 8")
  case True
  then have a: "length win = 8" "idx = n" "n = length ys" "take n win = ys" using assms by (auto simp: ring_ok_def)
  have t: "take (Suc n) (win[n := x]) = ys @ [x]" using a True by (simp add: take_Suc_conv_app_nth)
  show ?thesis
  proof (cases "n = 7")
    case True
    then have "take 8 (win[n := x]) = ys @ [x]" using t by simp
    then have "win[n := x] = ys @ [x]" using a(1) by simp
    then show ?thesis using a True by (simp add: ring_ok_def)
  next
    case False
    then show ?thesis using a t True by (simp add: ring_ok_def)
  qed
next
  case False
  then have a: "length win = 8" "idx < 8" "n = 8" "8 \<le> length ys" "drop idx win @ take idx win = drop (length ys - 8) ys"
    using assms by (auto simp: ring_ok_def)
  let ?w = "win[idx := x]"
  have "drop idx win = win ! idx # drop (Suc idx) win" using a(1,2) by (simp add: Cons_nth_drop_Suc)
  then have "drop (Suc (length ys - 8)) ys = drop (Suc idx) win @ take idx win"
    using a(5) by (metis append_Cons drop_Suc list.sel(3) tl_drop)
  then have ys: "drop (length (ys @ [x]) - 8) (ys @ [x]) = drop (Suc idx) win @ take idx win @ [x]"
    using a(4) by (simp add: Suc_diff_le [symmetric])
  have t: "take (Suc idx) ?w = take idx win @ [x]" using a(1,2) by (simp add: take_Suc_conv_app_nth)
  show ?thesis
  proof (cases "idx = 7")
    case True
    then have "?w = take (Suc idx) ?w" using a(1) by simp
    then show ?thesis using True a t ys by (simp add: ring_ok_def)
  next
    case False
    then show ?thesis using a t ys by (simp add: ring_ok_def)
  qed
qed

fun delay_adds :: "int list \<Rightarrow> PtpSys \<Rightarrow> PtpSys ub" where
  "delay_adds [] S = Some S"
| "delay_adds (x # xs) S = do { S \<leftarrow> delay_add x S; delay_adds xs S }"

definition filter_ok :: "PtpSys \<Rightarrow> int list \<Rightarrow> bool" where
  "filter_ok S ys \<longleftrightarrow> ring_ok (delay_win (g S)) (delay_n (g S)) (delay_idx (g S)) ys \<and>
     (\<forall>y \<in> set ys. \<bar>y\<bar> \<le> PTP_DELAY_MAX_NS) \<and>
     delay_ns (g S) = (if ys = [] then - 1 else median (drop (length ys - 8) ys))"

lemma nth_sort_bound:
  "\<forall>y \<in> set xs. \<bar>y\<bar> \<le> B \<Longrightarrow> i < length xs \<Longrightarrow> \<bar>sort xs ! i\<bar> \<le> (B :: int)"
  using nth_mem [of i "sort xs"] by simp

lemma delay_add_ok:
  assumes f: "filter_ok S ys" and x: "\<bar>x\<bar> \<le> PTP_DELAY_MAX_NS"
  shows "\<exists>S'. delay_add x S = Some S' \<and> filter_ok S' (ys @ [x])"
proof -
  let ?w = "(delay_win (g S))[delay_idx (g S) := x]" and ?i = "(delay_idx (g S) + 1) mod 8"
    and ?n = "if delay_n (g S) < 8 then delay_n (g S) + 1 else delay_n (g S)"
  let ?t = "take ?n ?w"
  have r0: "ring_ok (delay_win (g S)) (delay_n (g S)) (delay_idx (g S)) ys" using f by (simp add: filter_ok_def)
  note r = ring_add [OF r0, of x]
  have m: "mset ?t = mset (drop (length (ys @ [x]) - 8) (ys @ [x]))" by (rule ring_mset [OF r])
  have len: "length ?t = ?n" "0 < ?n" "?t \<noteq> []" using r by (auto simp: ring_ok_def)
  have in_ys: "set ?t \<subseteq> set (ys @ [x])" using m by (metis set_drop_subset set_mset_mset)
  have b: "\<forall>y \<in> set ?t. \<bar>y\<bar> \<le> PTP_DELAY_MAX_NS" using in_ys f x by (auto simp: filter_ok_def)
  have sl: "sort_loop 1 (?n - 1) ?t = sort ?t" using sort_loop_sort [OF len(3)] len(1) by simp
  have bs: "\<bar>sort ?t ! k\<bar> \<le> PTP_DELAY_MAX_NS" if "k < ?n" for k using nth_sort_bound [OF b] that len(1) by simp
  have md: "delay_filter ?n ?w = Some (median ?t)"
  proof -
    let ?a = "sort ?t ! (?n div 2 - 1)" and ?b = "sort ?t ! (?n div 2)"
    have k: "?n div 2 < ?n" "?n div 2 - 1 < ?n" using len(2) by auto
    have "i64_range (?a + ?b)" using bs [OF k(1)] bs [OF k(2)] by (auto simp: i64_range_def PTP_DELAY_MAX_NS_def abs_le_iff)
    then show ?thesis unfolding median_def Let_def len(1) delay_filter_def sl
      by (simp add: add64_def i64_def div64_pos odd_iff_mod_2_eq_one del: take_update_swap)
  qed
  let ?S = "S\<lparr>g := (g S)\<lparr>delay_win := ?w, delay_idx := ?i, delay_n := ?n, delay_ns := median ?t\<rparr>\<rparr>"
  have "delay_idx (g S) < length (delay_win (g S))" using r0 by (auto simp: ring_ok_def)
  with md have "delay_add x S = Some ?S" by (simp add: delay_add_def PTP_DELAY_WIN_def del: take_update_swap)
  moreover have "median ?t = median (drop (length (ys @ [x]) - 8) (ys @ [x]))" by (rule median_mset [OF m])
  then have "filter_ok ?S (ys @ [x])" using r f x unfolding filter_ok_def by (simp del: take_update_swap)
  ultimately show ?thesis by blast
qed

lemma delay_adds_ok:
  assumes "filter_ok S ys" "\<forall>x \<in> set xs. \<bar>x\<bar> \<le> PTP_DELAY_MAX_NS"
  shows "\<exists>S'. delay_adds xs S = Some S' \<and> filter_ok S' (ys @ xs)"
  using assms
proof (induction xs arbitrary: S ys)
  case (Cons x xs)
  from delay_add_ok [OF Cons.prems(1), of x] Cons.prems(2) obtain S1 where
    "delay_add x S = Some S1" "filter_ok S1 (ys @ [x])" by auto
  with Cons.IH [OF this(2)] Cons.prems(2) show ?case by simp
qed simp

lemma reset_filter_ok: "length (delay_win (g S)) = 8 \<Longrightarrow> filter_ok (reset_measurements S) []"
  by (simp add: filter_ok_def ring_ok_def reset_measurements_def)

section \<open>The best master\<close>

text \<open>Datasets are compared field by field, so as lists of numbers in lexicographic order.\<close>

definition order_of :: "'a::linorder \<Rightarrow> 'a \<Rightarrow> int" where
  "order_of x y = (if x < y then - 1 else if x = y then 0 else 1)"

definition slice :: "u8 list \<Rightarrow> nat \<Rightarrow> nat \<Rightarrow> nat list" where
  "slice b i n = map unat (take n (drop i b))"

lemma slice_Suc: "i < length b \<Longrightarrow> slice b i (Suc n) = unat (b ! i) # slice b (Suc i) n"
  by (simp add: slice_def Cons_nth_drop_Suc [symmetric])

lemma length_slice [simp]: "i + n \<le> length b \<Longrightarrow> length (slice b i n) = n"
  by (simp add: slice_def)

lemma cmp_bytes_lex:
  "i + n \<le> length a \<Longrightarrow> j + n \<le> length b \<Longrightarrow> cmp_bytes a i b j n = Some (order_of (slice a i n) (slice b j n))"
proof (induction n arbitrary: i j)
  case 0
  then show ?case by (simp add: slice_def order_of_def)
next
  case (Suc n)
  then have ij: "i < length a" "j < length b" by simp_all
  have ih: "cmp_bytes a (i + 1) b (j + 1) n = Some (order_of (slice a (Suc i) n) (slice b (Suc j) n))"
    using Suc.IH [of "i + 1" "j + 1"] Suc.prems by simp
  have "unat (a ! i) = unat (b ! j) \<longleftrightarrow> a ! i = b ! j" by (simp add: word_unat_eq_iff)
  then show ?case
    using ih ij by (simp add: byte_at_def slice_Suc order_of_def word_less_nat_alt)
qed

lemma append_less: "length xs = length ys \<Longrightarrow> xs @ us < ys @ vs \<longleftrightarrow> xs < ys \<or> xs = ys \<and> us < (vs :: nat list)"
  by (induction xs ys rule: list_induct2) auto

definition dataset_ok :: "Dataset \<Rightarrow> bool" where
  "dataset_ok d \<longleftrightarrow> length (gm_id d) = 8 \<and> length (port_id d) = 10"

definition dataset_key :: "Dataset \<Rightarrow> nat list" where
  "dataset_key d = [unat (prio1 d), unat (clk_class d), unat (clk_accuracy d), unat (variance d), unat (prio2 d)] @
     map unat (gm_id d) @ [unat (steps_removed d)] @ map unat (port_id d)"

lemma dataset_cmp_lex:
  assumes "dataset_ok a" "dataset_ok b"
  shows "dataset_cmp a b = Some (order_of (dataset_key a) (dataset_key b))"
proof -
  have l: "length (gm_id a) = 8" "length (gm_id b) = 8" "length (port_id a) = 10" "length (port_id b) = 10"
    using assms by (simp_all add: dataset_ok_def)
  have s: "slice (gm_id a) 0 8 = map unat (gm_id a)" "slice (gm_id b) 0 8 = map unat (gm_id b)"
    "slice (port_id a) 0 10 = map unat (port_id a)" "slice (port_id b) 0 10 = map unat (port_id b)"
    using l by (simp_all add: slice_def)
  have c: "cmp_bytes (gm_id a) 0 (gm_id b) 0 8 = Some (order_of (map unat (gm_id a)) (map unat (gm_id b)))"
    "cmp_bytes (port_id a) 0 (port_id b) 0 10 = Some (order_of (map unat (port_id a)) (map unat (port_id b)))"
    using cmp_bytes_lex [of 0 8 "gm_id a" 0 "gm_id b"] cmp_bytes_lex [of 0 10 "port_id a" 0 "port_id b"] l s by simp_all
  have e: "unat x = unat y \<longleftrightarrow> x = y" for x y :: "'b::len word" by (simp add: word_unat_eq_iff)
  let ?G = "map unat (gm_id a) :: nat list" and ?H = "map unat (gm_id b) :: nat list"
  have gl: "length ?G = length ?H" using l by simp
  show ?thesis
    unfolding dataset_cmp_def c dataset_key_def
    by (simp add: order_of_def append_less [OF gl] append_eq_append_conv [OF disjI1 [OF gl]] e word_less_nat_alt)
qed

lemma read_dataset_ok:
  assumes "64 \<le> length b"
  shows "\<exists>d. read_dataset b = Some d \<and> dataset_ok d \<and> port_id d = take 10 (drop 20 b)"
  using assms get_bytes_eq [of 53 8 b] get_bytes_eq [of 20 10 b]
  by (simp add: read_dataset_def byte_at_def rd16_def copy_bytes_def dataset_ok_def)

definition dataset_of :: "u8 list \<Rightarrow> Dataset" where
  "dataset_of b = the (read_dataset b)"

lemma dataset_of:
  assumes "64 \<le> length b"
  shows "read_dataset b = Some (dataset_of b)" "dataset_ok (dataset_of b)" "port_id (dataset_of b) = take 10 (drop 20 b)"
  using read_dataset_ok [OF assms] by (auto simp: dataset_of_def)

definition master_ok :: "PtpSys \<Rightarrow> bool" where
  "master_ok S \<longleftrightarrow> dataset_ok (master (g S)) \<and> length (self_id (g S)) = 10"

lemma order_of_0 [simp]: "order_of x y = 0 \<longleftrightarrow> x = y" "order_of x y < 0 \<longleftrightarrow> x < y"
  by (auto simp: order_of_def)

lemma port_cmp:
  assumes "dataset_ok d" "dataset_ok e"
  shows "cmp_bytes (port_id d) 0 (port_id e) 0 10 = Some (order_of (map unat (port_id d)) (map unat (port_id e) :: nat list))"
  using cmp_bytes_lex [of 0 10 "port_id d" 0 "port_id e"] assms by (simp add: dataset_ok_def slice_def)

text \<open>What an Announce does: it is taken over if there is no master, or it comes from the master, or it is better.\<close>

lemma note_announce_ok:
  assumes "64 \<le> length b"
  shows "\<exists>S'. note_announce b S = Some S' \<and> master (g S') = master (g S) \<and> have_master (g S') = have_master (g S) \<and>
    self (g S') = self (g S) \<and> self_id (g S') = self_id (g S)"
  using assms by (simp add: note_announce_def byte_at_def rd16_def)

lemma handle_announce_ok:
  assumes "64 \<le> length b" "master_ok S"
  shows "\<exists>S'. handle_announce b (length b) S = Some S' \<and> master_ok S' \<and> self (g S') = self (g S) \<and>
    self_id (g S') = self_id (g S) \<and> have_master (g S') \<and>
    master (g S') = (if have_master (g S) \<and> port_id (dataset_of b) \<noteq> port_id (master (g S)) \<and>
        \<not> dataset_key (dataset_of b) < dataset_key (master (g S)) then master (g S) else dataset_of b)"
proof -
  note d = dataset_of [OF assms(1)]
  have m: "dataset_ok (master (g S))" "length (self_id (g S)) = 10" using assms(2) by (simp_all add: master_ok_def)
  let ?same = "have_master (g S) \<and> port_id (dataset_of b) = port_id (master (g S))"
  let ?better = "\<not> have_master (g S) \<or> dataset_key (dataset_of b) < dataset_key (master (g S))"
  have e: "handle_announce b (length b) S =
    (if ?same then note_announce b (upd_g (\<lambda>g. g\<lparr>master := dataset_of b\<rparr>) S)
     else if ?better then note_announce b (log (LogMaster (have_master (g S)) (dataset_of b))
        (reset_measurements (upd_g (\<lambda>g. g\<lparr>master := dataset_of b, have_master := True\<rparr>) S)))
     else Some S)"
    using assms(1) unfolding handle_announce_def d(1)
    by (simp add: ANNOUNCE_LEN_MIN_def port_cmp [OF d(2) m(1)] port_cmp [OF m(1) m(1)] dataset_cmp_lex [OF d(2) m(1)] Let_def)
  consider "?same" | "\<not> ?same" "?better" | "\<not> ?same" "\<not> ?better" by blast
  then show ?thesis
  proof cases
    case 1
    then show ?thesis using note_announce_ok [OF assms(1), of "upd_g (\<lambda>g. g\<lparr>master := dataset_of b\<rparr>) S"] d m
      by (auto simp: e master_ok_def)
  next
    case 2
    then show ?thesis
      using note_announce_ok [OF assms(1), of "log (LogMaster (have_master (g S)) (dataset_of b))
        (reset_measurements (upd_g (\<lambda>g. g\<lparr>master := dataset_of b, have_master := True\<rparr>) S))"] d m
      by (auto simp: e master_ok_def log_def reset_measurements_def)
  next
    case 3
    then show ?thesis using assms(2) by (simp add: e)
  qed
qed

definition is_announce :: "PtpCore \<Rightarrow> u8 list \<Rightarrow> bool" where
  "is_announce c b \<longleftrightarrow> 64 \<le> length b \<and> b ! 0 AND 0x0F = PTP_ANNOUNCE \<and> b ! 1 AND 0x0F = 2 \<and>
     b ! 4 = domainNumber (self c) \<and> take 10 (drop 20 b) \<noteq> self_id c"

lemma rx_announce:
  assumes "is_announce (g S) b" "master_ok S"
  shows "ptp_core_rx hw b (length b) PTP_GENERAL_PORT cnt S = handle_announce b (length b) S"
proof -
  have l: "64 \<le> length b" "length (self_id (g S)) = 10" "length (port_id (master (g S))) = 10"
    using assms by (simp_all add: is_announce_def master_ok_def dataset_ok_def)
  have own: "cmp_bytes b 20 (self_id (g S)) 0 10 = Some (order_of (slice b 20 10) (slice (self_id (g S)) 0 10))"
    "cmp_bytes b 20 (port_id (master (g S))) 0 10 = Some (order_of (slice b 20 10) (slice (port_id (master (g S))) 0 10))"
    using l by (auto intro!: cmp_bytes_lex)
  have "slice b 20 10 \<noteq> slice (self_id (g S)) 0 10"
    using assms(1) l by (auto simp: slice_def is_announce_def dest!: map_injective)
  moreover have "\<exists>f. from_master b S = Some f" by (auto simp: from_master_def own)
  ultimately show ?thesis
    using assms(1) l own
    by (auto simp: ptp_core_rx_def PTP_HEADER_LENGTH_def byte_at_def is_announce_def PTP_GENERAL_PORT_def PTP_EVENT_PORT_def
      PTP_ANNOUNCE_def)
qed

text \<open>A run of messages on the general port.\<close>

fun rx_general :: "ptp_hw \<Rightarrow> (u8 list \<times> u64) list \<Rightarrow> PtpSys \<Rightarrow> PtpSys ub" where
  "rx_general hw [] S = Some S"
| "rx_general hw ((b, cnt) # bs) S = do { S \<leftarrow> ptp_core_rx hw b (length b) PTP_GENERAL_PORT cnt S; rx_general hw bs S }"

lemma announce_run:
  assumes "master_ok S" "have_master (g S)" "\<forall>(b, cnt) \<in> set bs. is_announce (g S) b"
    and "\<forall>d \<in> D. dataset_key (master (g S)) \<le> dataset_key d" "master (g S) \<in> D"
    and "\<forall>d \<in> D \<union> (dataset_of \<circ> fst) ` set bs. \<forall>e \<in> D \<union> (dataset_of \<circ> fst) ` set bs. port_id d = port_id e \<longrightarrow> d = e"
  shows "\<exists>S'. rx_general hw bs S = Some S' \<and> have_master (g S') \<and> master (g S') \<in> D \<union> (dataset_of \<circ> fst) ` set bs \<and>
    (\<forall>d \<in> D \<union> (dataset_of \<circ> fst) ` set bs. dataset_key (master (g S')) \<le> dataset_key d)"
  using assms
proof (induction bs arbitrary: S D)
  case (Cons x bs)
  obtain b cnt where x: "x = (b, cnt)" by (cases x)
  have an: "is_announce (g S) b" "64 \<le> length b" using Cons.prems(3) x by (auto simp: is_announce_def)
  from handle_announce_ok [OF an(2) Cons.prems(1)] obtain S1 where
    S1: "handle_announce b (length b) S = Some S1" "master_ok S1" "self (g S1) = self (g S)" "self_id (g S1) = self_id (g S)"
      "have_master (g S1)" and
    mast: "master (g S1) = (if have_master (g S) \<and> port_id (dataset_of b) \<noteq> port_id (master (g S)) \<and>
        \<not> dataset_key (dataset_of b) < dataset_key (master (g S)) then master (g S) else dataset_of b)" by blast
  let ?D = "insert (dataset_of b) D"
  have same: "port_id (dataset_of b) = port_id (master (g S)) \<Longrightarrow> dataset_of b = master (g S)"
    using Cons.prems(5,6) x by auto
  have min: "\<forall>d \<in> ?D. dataset_key (master (g S1)) \<le> dataset_key d" "master (g S1) \<in> ?D"
    using Cons.prems(2,4,5) mast same by (auto split: if_splits)
  have an': "\<forall>(b, cnt) \<in> set bs. is_announce (g S1) b" using Cons.prems(3) S1(3,4) x by (auto simp: is_announce_def)
  have D: "?D \<union> (dataset_of \<circ> fst) ` set bs = D \<union> (dataset_of \<circ> fst) ` set (x # bs)" using x by auto
  have "\<exists>S'. rx_general hw bs S1 = Some S' \<and> have_master (g S') \<and> master (g S') \<in> ?D \<union> (dataset_of \<circ> fst) ` set bs \<and>
    (\<forall>d \<in> ?D \<union> (dataset_of \<circ> fst) ` set bs. dataset_key (master (g S')) \<le> dataset_key d)"
    by (rule Cons.IH [OF S1(2,5) an' min]) (unfold D, rule Cons.prems(6))
  then show ?case unfolding D using S1(1) x rx_announce [OF an(1) Cons.prems(1)] by simp
qed simp

lemma best_master:
  assumes "master_ok S" "\<not> have_master (g S)" "bs \<noteq> []" "\<forall>(b, cnt) \<in> set bs. is_announce (g S) b"
    and "\<forall>d \<in> (dataset_of \<circ> fst) ` set bs. \<forall>e \<in> (dataset_of \<circ> fst) ` set bs. port_id d = port_id e \<longrightarrow> d = e"
  shows "\<exists>S'. rx_general hw bs S = Some S' \<and> have_master (g S') \<and> master (g S') \<in> (dataset_of \<circ> fst) ` set bs \<and>
    (\<forall>d \<in> (dataset_of \<circ> fst) ` set bs. dataset_key (master (g S')) \<le> dataset_key d)"
proof -
  obtain b cnt cs where bs: "bs = (b, cnt) # cs" using assms(3) by (cases bs) auto
  have an: "is_announce (g S) b" "64 \<le> length b" using assms(4) bs by (auto simp: is_announce_def)
  from handle_announce_ok [OF an(2) assms(1)] obtain S1 where
    S1: "handle_announce b (length b) S = Some S1" "master_ok S1" "self (g S1) = self (g S)" "self_id (g S1) = self_id (g S)"
      "have_master (g S1)" "master (g S1) = dataset_of b" using assms(2) by auto
  have an': "\<forall>(b, cnt) \<in> set cs. is_announce (g S1) b" using assms(4) S1(3,4) bs by (auto simp: is_announce_def)
  have D: "{dataset_of b} \<union> (dataset_of \<circ> fst) ` set cs = (dataset_of \<circ> fst) ` set bs" using bs by auto
  have "\<exists>S'. rx_general hw cs S1 = Some S' \<and> have_master (g S') \<and> master (g S') \<in> {dataset_of b} \<union> (dataset_of \<circ> fst) ` set cs \<and>
    (\<forall>d \<in> {dataset_of b} \<union> (dataset_of \<circ> fst) ` set cs. dataset_key (master (g S')) \<le> dataset_key d)"
    by (rule announce_run [OF S1(2,5) an']) (simp add: S1(6), simp add: S1(6), unfold D, rule assms(5))
  then show ?thesis unfolding D using S1(1) bs rx_announce [OF an(1) assms(1)] by simp
qed

section \<open>The invariant of the engine\<close>

definition idle :: "PtpCore \<Rightarrow> bool" where
  "idle c \<longleftrightarrow> \<not> sync_waiting_fup c \<and> \<not> ms_valid c \<and> \<not> dreq_due c \<and> \<not> dreq_outstanding c \<and> delay_ns c = - 1 \<and>
     state (servo c) = PTP_SERVO_UNLOCKED"

definition core_inv :: "PtpSys \<Rightarrow> bool" where
  "core_inv S \<longleftrightarrow> (\<exists>ys. filter_ok S ys) \<and> servo_inv (servo (g S), clk S) \<and> st_n (g S) < PTP_STATS_WIN \<and> master_ok S \<and>
     (\<not> have_master (g S) \<longrightarrow> idle (g S))"

lemma core_invD:
  assumes "core_inv S"
  shows "\<exists>ys. filter_ok S ys" "servo_inv (servo (g S), clk S)" "st_n (g S) < PTP_STATS_WIN" "master_ok S"
    "\<not> have_master (g S) \<Longrightarrow> idle (g S)"
  using assms by (simp_all add: core_inv_def)

text \<open>Updates of the other fields keep the invariant.\<close>

lemma filter_ok_cong:
  "delay_win (g S') = delay_win (g S) \<Longrightarrow> delay_n (g S') = delay_n (g S) \<Longrightarrow> delay_idx (g S') = delay_idx (g S) \<Longrightarrow>
   delay_ns (g S') = delay_ns (g S) \<Longrightarrow> filter_ok S' ys = filter_ok S ys"
  by (simp add: filter_ok_def)

lemma now_ns_frame: "ptp_clock_now_ns hw c = Some (t, c') \<Longrightarrow> c' = c\<lparr>reads := Suc (reads c)\<rparr>"
  by (auto simp: ptp_clock_now_ns_def ptp_clock_read_cnt_def bind_Some_iff)

lemma utc_frame: "ptp_core_utc_now_ns hw S = Some (t, S') \<Longrightarrow> S' = S\<lparr>clk := (clk S)\<lparr>reads := Suc (reads (clk S))\<rparr>\<rparr>"
  by (auto simp: ptp_core_utc_now_ns_def bind_Some_iff dest!: now_ns_frame)

lemma stats_frame:
  assumes "report_stats off S = Some S'" "st_n (g S) < PTP_STATS_WIN"
  obtains a b c n where "clk S' = clk S" "g S' = (g S)\<lparr>st_sum := a, st_sq := b, st_max := c, st_n := n\<rparr>" "n \<le> PTP_STATS_WIN"
proof -
  have "st_n (g S) + 1 \<le> PTP_STATS_WIN" using assms(2) by (simp add: PTP_STATS_WIN_def inc_le)
  moreover obtain sm sq m where "S' = upd_g (\<lambda>g. g\<lparr>st_sum := sm, st_sq := sq, st_max := m, st_n := st_n g + 1\<rparr>) S"
    using assms(1) by (auto simp: report_stats_def bind_Some_iff)
  ultimately show ?thesis using that [where a = sm and b = sq and c = m and n = "st_n (g S) + 1"] by simp
qed

lemma flush_frame:
  assumes "flush_stats S = Some S'" "st_n (g S) \<le> PTP_STATS_WIN"
  obtains a b c n where "clk S' = clk S" "g S' = (g S)\<lparr>st_sum := a, st_sq := b, st_max := c, st_n := n\<rparr>" "n < PTP_STATS_WIN"
proof (cases "st_n (g S) \<ge> PTP_STATS_WIN")
  case True
  then have "clk S' = clk S" "g S' = (g S)\<lparr>st_sum := 0, st_sq := 0, st_max := 0, st_n := 0\<rparr>"
    using assms(1) by (auto simp: flush_stats_def Let_def bind_Some_iff log_def)
  then show ?thesis using that [where a = 0 and b = 0 and c = 0 and n = 0] by (simp add: PTP_STATS_WIN_def)
next
  case False
  then have "S' = S" using assms(1) by (simp add: flush_stats_def)
  then show ?thesis using that [where a = "st_sum (g S)" and b = "st_sq (g S)" and c = "st_max (g S)" and n = "st_n (g S)"] False by simp
qed

lemma report_frame:
  assumes "report hw off before S = Some S'" "st_n (g S) < PTP_STATS_WIN"
  obtains a b c n where "s_ppb (clk S') = s_ppb (clk S)" "s_epoch (clk S') = s_epoch (clk S)"
    "g S' = (g S)\<lparr>st_sum := a, st_sq := b, st_max := c, st_n := n\<rparr>" "n < PTP_STATS_WIN"
proof -
  from assms(1) obtain S1 t S2 l where
    S1: "(if state (servo (g S)) = PTP_SERVO_LOCKED then report_stats off S else Some S) = Some S1"
    and S2: "ptp_core_utc_now_ns hw S1 = Some (t, S2)" and S': "flush_stats (log l S2) = Some S'"
    by (auto simp: report_def bind_Some_iff)
  obtain a b c n where f1: "clk S1 = clk S" "g S1 = (g S)\<lparr>st_sum := a, st_sq := b, st_max := c, st_n := n\<rparr>" "n \<le> PTP_STATS_WIN"
  proof (cases "state (servo (g S)) = PTP_SERVO_LOCKED")
    case True
    with S1 have "report_stats off S = Some S1" by simp
    then show ?thesis by (rule stats_frame [OF _ assms(2)]) (rule that)
  next
    case False
    then have "S1 = S" using S1 by simp
    then show ?thesis using assms(2) that [where a = "st_sum (g S)" and b = "st_sq (g S)" and c = "st_max (g S)" and n = "st_n (g S)"] by simp
  qed
  have f2: "g (log l S2) = g S1" "s_ppb (clk (log l S2)) = s_ppb (clk S1)" "s_epoch (clk (log l S2)) = s_epoch (clk S1)"
    using utc_frame [OF S2] by (simp_all add: log_def)
  have "st_n (g (log l S2)) \<le> PTP_STATS_WIN" using f1 f2 by simp
  from flush_frame [OF S' this] obtain a' b' c' n' where
    "clk S' = clk (log l S2)" "g S' = (g (log l S2))\<lparr>st_sum := a', st_sq := b', st_max := c', st_n := n'\<rparr>" "n' < PTP_STATS_WIN" .
  then show ?thesis using that [where a = a' and b = b' and c = c' and n = n'] f1 f2 by simp
qed

text \<open>With a master, only the filter, the servo, the statistics and the identities matter.\<close>

definition tracked :: "PtpCore \<Rightarrow> int list \<times> nat \<times> nat \<times> int \<times> Dataset \<times> bool \<times> u8 list" where
  "tracked c = (delay_win c, delay_n c, delay_idx c, delay_ns c, master c, have_master c, self_id c)"

lemma core_invI:
  assumes "core_inv S" "have_master (g S)" "tracked (g S') = tracked (g S)" "servo_inv (servo (g S'), clk S')"
    and "st_n (g S') < PTP_STATS_WIN"
  shows "core_inv S' \<and> have_master (g S')"
  using assms by (auto simp: core_inv_def tracked_def filter_ok_def master_ok_def)

lemma note_leg_frame:
  "tracked (g (note_leg raw S)) = tracked (g S)" "servo (g (note_leg raw S)) = servo (g S)" "clk (note_leg raw S) = clk S"
  "st_n (g (note_leg raw S)) = st_n (g S)"
  by (simp_all add: note_leg_def tracked_def)

lemma run_servo_inv:
  assumes "run_servo hw raw S = Some (off, S')" "servo_inv (servo (g S), clk S)"
  shows "tracked (g S') = tracked (g S)" "st_n (g S') = st_n (g S)" "servo_inv (servo (g S'), clk S')"
  using assms sample_inv [OF assms(2)] by (auto simp: run_servo_def bind_Some_iff tracked_def)

lemma sync_complete_inv:
  assumes inv: "core_inv S" and hm: "have_master (g S)" and eq: "sync_complete hw t1 co S = Some S'"
  shows "core_inv S' \<and> have_master (g S')"
proof (cases "t2_epoch (g S) = ptp_clock_epoch (clk S)")
  case True
  let ?S1 = "upd_g (\<lambda>g. g\<lparr>n_sync := n_sync g + 1\<rparr>) S"
  from eq True obtain raw off S2 S4 where sam: "run_servo hw raw ?S1 = Some (off, S2)"
    and rep: "report hw off (state (servo (g S))) (note_leg raw S2) = Some S4"
    and S': "S' = upd_g (\<lambda>g. g\<lparr>dreq_due := True\<rparr>) S4"
    by (auto simp: sync_complete_def Let_def bind_Some_iff)
  have "servo_inv (servo (g ?S1), clk ?S1)" using core_invD(2) [OF inv] by simp
  note rs = run_servo_inv [OF sam this]
  have "st_n (g (note_leg raw S2)) < PTP_STATS_WIN" using rs core_invD(3) [OF inv] by (simp add: note_leg_frame)
  from report_frame [OF rep this] obtain a b d n where
    r: "s_ppb (clk S4) = s_ppb (clk (note_leg raw S2))"
      "g S4 = (g (note_leg raw S2))\<lparr>st_sum := a, st_sq := b, st_max := d, st_n := n\<rparr>" "n < PTP_STATS_WIN" .
  have "servo_inv (servo (g S'), clk S')" using r rs S' by (simp add: servo_inv_def note_leg_frame)
  moreover have "tracked (g S4) = tracked (g (note_leg raw S2))" using r(2) by (simp add: tracked_def)
  then have "tracked (g S') = tracked (g S)" using rs S' note_leg_frame(1) [of raw S2] by (simp add: tracked_def)
  moreover have "st_n (g S') < PTP_STATS_WIN" using r S' by simp
  ultimately show ?thesis using core_invI [OF inv hm] by blast
next
  case False
  then show ?thesis using eq inv hm by (simp add: sync_complete_def)
qed

lemma handle_sync_inv:
  assumes inv: "core_inv S" and hm: "have_master (g S)" and eq: "handle_sync hw b len rx S = Some S'"
  shows "core_inv S'"
proof (cases "len < SYNC_LEN")
  case False
  with eq obtain S1 where st: "stamp_sync hw b rx S = Some S1"
    and S': "S' = upd_g (\<lambda>g. g\<lparr>sync_waiting_fup := True\<rparr>) S1 \<or>
      (\<exists>t1 co. sync_complete hw t1 co (upd_g (\<lambda>g. g\<lparr>sync_waiting_fup := False\<rparr>) S1) = Some S')"
    by (auto simp: handle_sync_def bind_Some_iff split: if_splits)
  have f: "tracked (g S1) = tracked (g S)" "servo (g S1) = servo (g S)" "clk S1 = clk S" "st_n (g S1) = st_n (g S)"
    using st by (auto simp: stamp_sync_def bind_Some_iff tracked_def)
  have "core_inv (upd_g (\<lambda>g. g\<lparr>sync_waiting_fup := w\<rparr>) S1) \<and> have_master (g (upd_g (\<lambda>g. g\<lparr>sync_waiting_fup := w\<rparr>) S1))" for w
    using f core_invD(2,3) [OF inv] by (intro core_invI [OF inv hm]) (simp_all add: tracked_def)
  with S' sync_complete_inv show ?thesis by blast
qed (use eq inv in \<open>simp add: handle_sync_def\<close>)

lemma handle_follow_up_inv:
  assumes inv: "core_inv S" and hm: "have_master (g S)" and eq: "handle_follow_up hw b len S = Some S'"
  shows "core_inv S'"
proof -
  from eq have "S' = S \<or> (\<exists>t1 co. sync_complete hw t1 co (upd_g (\<lambda>g. g\<lparr>sync_waiting_fup := False\<rparr>) S) = Some S')"
    by (auto simp: handle_follow_up_def bind_Some_iff split: if_splits)
  moreover have "core_inv (upd_g (\<lambda>g. g\<lparr>sync_waiting_fup := False\<rparr>) S) \<and>
    have_master (g (upd_g (\<lambda>g. g\<lparr>sync_waiting_fup := False\<rparr>) S))"
    using core_invD(2,3) [OF inv] by (intro core_invI [OF inv hm]) (simp_all add: tracked_def)
  ultimately show ?thesis using sync_complete_inv inv by blast
qed

lemma delay_add_other:
  assumes "delay_add x S = Some S'"
  shows "servo (g S') = servo (g S)" "clk S' = clk S" "st_n (g S') = st_n (g S)" "master (g S') = master (g S)"
    "have_master (g S') = have_master (g S)" "self_id (g S') = self_id (g S)"
  using assms by (auto simp: delay_add_def bind_Some_iff)

lemma handle_delay_resp_inv:
  assumes inv: "core_inv S" and hm: "have_master (g S)" and eq: "handle_delay_resp b len S = Some S'"
  shows "core_inv S'"
proof -
  let ?S1 = "upd_g (\<lambda>g. g\<lparr>dreq_outstanding := False\<rparr>) S"
  from eq have "S' = S \<or> S' = ?S1 \<or> (\<exists>x. \<bar>x\<bar> \<le> PTP_DELAY_MAX_NS \<and> delay_add x ?S1 = Some S')"
    by (auto simp: handle_delay_resp_def bind_Some_iff abs64_def neg64_def i64_Some_iff split: if_splits)
  moreover have i1: "core_inv ?S1 \<and> have_master (g ?S1)"
    using core_invD(2,3) [OF inv] by (intro core_invI [OF inv hm]) (simp_all add: tracked_def)
  moreover have "core_inv S'" if x: "\<bar>x\<bar> \<le> PTP_DELAY_MAX_NS" and da: "delay_add x ?S1 = Some S'" for x
  proof -
    obtain ys where "filter_ok ?S1 ys" using i1 by (auto simp: core_inv_def)
    from delay_add_ok [OF this x] da have "filter_ok S' (ys @ [x])" by simp
    then show ?thesis using i1 delay_add_other [OF da] by (auto simp: core_inv_def master_ok_def)
  qed
  ultimately show ?thesis using inv by blast
qed

lemma get_bytes_length: "get_bytes p i n = Some xs \<Longrightarrow> length xs = n"
  by (induction n arbitrary: i xs) (auto simp: bind_Some_iff)

lemma read_dataset_wf: "read_dataset b = Some d \<Longrightarrow> dataset_ok d"
  by (auto simp: read_dataset_def copy_bytes_def dataset_ok_def bind_Some_iff dest: get_bytes_length)

lemma reset_inv:
  assumes "core_inv S" "dataset_ok (master c)" "self_id c = self_id (g S)" "delay_win c = delay_win (g S)"
  shows "core_inv (reset_measurements (S\<lparr>g := c\<rparr>))"
proof -
  have l: "length (delay_win (g S)) = 8" using core_invD(1) [OF assms(1)] by (auto simp: filter_ok_def ring_ok_def)
  have "filter_ok (reset_measurements (S\<lparr>g := c\<rparr>)) []" using l assms(4) by (intro reset_filter_ok) simp
  moreover have "servo_inv (ptp_servo_init (servo c), clk S)"
    using core_invD(2) [OF assms(1)]
    by (simp add: servo_inv_def ptp_servo_init_def PTP_CLOCK_MAX_PPB_def PTP_SERVO_OUTLIERS_def)
  ultimately show ?thesis
    using core_invD(4) [OF assms(1)] assms(2,3)
    by (auto simp: core_inv_def reset_measurements_def master_ok_def idle_def ptp_servo_init_def PTP_STATS_WIN_def)
qed

lemma core_inv_cong:
  assumes "tracked (g S') = tracked (g S)" "servo (g S') = servo (g S)" "clk S' = clk S" "st_n (g S') = st_n (g S)"
    and "idle (g S) \<longrightarrow> idle (g S')" "core_inv S"
  shows "core_inv S'"
  using assms unfolding core_inv_def tracked_def filter_ok_def master_ok_def by simp

lemma note_announce_inv:
  assumes "core_inv S" "note_announce b S = Some S'" shows "core_inv S'"
proof (rule core_inv_cong [OF _ _ _ _ _ assms(1)])
  obtain t u f where "S' = upd_g (\<lambda>g. g\<lparr>last_announce_ms := now_ms g, announce_timeout_ms := t, utc_offset := u, flags1 := f\<rparr>) S"
    using assms(2) by (auto simp: note_announce_def bind_Some_iff)
  then show "tracked (g S') = tracked (g S)" "servo (g S') = servo (g S)" "clk S' = clk S" "st_n (g S') = st_n (g S)"
    "idle (g S) \<longrightarrow> idle (g S')" by (simp_all add: tracked_def idle_def)
qed

lemma log_inv [simp]: "core_inv (log l S) = core_inv S" "g (log l S) = g S" "clk (log l S) = clk S"
  by (simp_all add: core_inv_def log_def filter_ok_def master_ok_def)

lemma handle_announce_inv:
  assumes inv: "core_inv S" and eq: "handle_announce b len S = Some S'" shows "core_inv S'"
proof -
  from eq have "S' = S \<or> (\<exists>ds. read_dataset b = Some ds \<and>
    (have_master (g S) \<and> note_announce b (S\<lparr>g := (g S)\<lparr>master := ds\<rparr>\<rparr>) = Some S' \<or>
     (\<exists>l. note_announce b (log l (reset_measurements (S\<lparr>g := (g S)\<lparr>master := ds, have_master := True\<rparr>\<rparr>))) = Some S')))"
    by (auto simp: handle_announce_def bind_Some_iff Let_def split: if_splits)
  then consider "S' = S"
    | ds where "read_dataset b = Some ds" "have_master (g S)" "note_announce b (S\<lparr>g := (g S)\<lparr>master := ds\<rparr>\<rparr>) = Some S'"
    | ds l where "read_dataset b = Some ds"
        "note_announce b (log l (reset_measurements (S\<lparr>g := (g S)\<lparr>master := ds, have_master := True\<rparr>\<rparr>))) = Some S'" by blast
  then show ?thesis
  proof cases
    case 2
    have "core_inv (S\<lparr>g := (g S)\<lparr>master := ds\<rparr>\<rparr>)"
      using inv 2(2) read_dataset_wf [OF 2(1)] by (auto simp: core_inv_def filter_ok_def master_ok_def)
    then show ?thesis using 2(3) by (rule note_announce_inv)
  next
    case 3
    have "core_inv (reset_measurements (S\<lparr>g := (g S)\<lparr>master := ds, have_master := True\<rparr>\<rparr>))"
      using read_dataset_wf [OF 3(1)] by (intro reset_inv [OF inv]) simp_all
    then show ?thesis using 3(2) note_announce_inv by (metis log_inv(1))
  qed (use inv in simp)
qed

lemma from_master_true: "from_master b S = Some True \<Longrightarrow> have_master (g S)"
  by (auto simp: from_master_def split: if_splits)

lemma rx_inv:
  assumes inv: "core_inv S" and eq: "ptp_core_rx hw b len port cnt S = Some S'" shows "core_inv S'"
proof -
  from eq have "S' = S \<or> handle_announce b len S = Some S' \<or> (from_master b S = Some True \<and>
    (handle_sync hw b len cnt S = Some S' \<or> handle_follow_up hw b len S = Some S' \<or> handle_delay_resp b len S = Some S'))"
    by (auto simp: ptp_core_rx_def bind_Some_iff split: if_splits)
  then show ?thesis
    using inv handle_announce_inv [OF inv] handle_sync_inv [OF inv] handle_follow_up_inv [OF inv]
      handle_delay_resp_inv [OF inv] from_master_true by blast
qed

lemma now_frame: "ptp_clock_now hw c = Some (t, c') \<Longrightarrow> s_ppb c' = s_ppb c"
  by (auto simp: ptp_clock_now_def bind_Some_iff dest!: now_ns_frame)

lemma transmit_frame:
  assumes "transmit hw tx buf S = Some S'"
  shows "tracked (g S') = tracked (g S) \<and> servo (g S') = servo (g S) \<and> st_n (g S') = st_n (g S) \<and> clk S' = clk S"
  using assms by (auto simp: transmit_def bind_Some_iff tracked_def split: option.splits if_splits)

lemma send_delay_req_inv:
  assumes inv: "core_inv S" and hm: "have_master (g S)" and eq: "send_delay_req hw tx S = Some S'" shows "core_inv S'"
proof -
  from eq obtain t c buf S1 where "ptp_clock_now hw (clk S) = Some (t, c)"
    and tr: "transmit hw tx buf (S\<lparr>clk := c, g := (g S)\<lparr>dreq_seq := dreq_seq (g S) + 1\<rparr>\<rparr>) = Some S1"
    and S': "S' = upd_g (\<lambda>g. g\<lparr>last_dreq_ms := now_ms g\<rparr>) S1"
    by (auto simp: send_delay_req_def bind_Some_iff)
  then have f: "tracked (g S') = tracked (g S)" "servo (g S') = servo (g S)" "st_n (g S') = st_n (g S)"
    "s_ppb (clk S') = s_ppb (clk S)"
    using transmit_frame [OF tr] now_frame by (auto simp: tracked_def)
  then have "servo_inv (servo (g S'), clk S')" using core_invD(2) [OF inv] by (simp add: servo_inv_def)
  then show ?thesis using core_invI [OF inv hm f(1)] f(3) core_invD(3) [OF inv] by simp
qed

lemma poll_inv:
  assumes inv: "core_inv S" and eq: "ptp_core_poll hw tx now S = Some S'" shows "core_inv S'"
proof -
  let ?S = "S\<lparr>g := (g S)\<lparr>now_ms := now\<rparr>\<rparr>"
  have i1: "core_inv ?S" by (rule core_inv_cong [OF _ _ _ _ _ inv]) (simp_all add: tracked_def idle_def)
  from eq consider
    l where "S' = reset_measurements (S\<lparr>out := l, g := (g S)\<lparr>now_ms := now, have_master := False\<rparr>\<rparr>)"
    | "dreq_due (g S)" "send_delay_req hw tx (S\<lparr>g := (g S)\<lparr>now_ms := now, dreq_due := False\<rparr>\<rparr>) = Some S'"
    | "S' = ?S"
    by (auto simp: ptp_core_poll_def Let_def log_def split: if_splits)
  then show ?thesis
  proof cases
    case 1
    have "core_inv (S\<lparr>out := l\<rparr>)" by (rule core_inv_cong [OF _ _ _ _ _ inv]) simp_all
    from reset_inv [OF this, of "(g S)\<lparr>now_ms := now, have_master := False\<rparr>"] core_invD(4) [OF inv] 1 show ?thesis
      by (simp add: master_ok_def)
  next
    case 2
    have hm: "have_master (g S)" using core_invD(5) [OF inv] 2(1) by (auto simp: idle_def)
    have "core_inv (S\<lparr>g := (g S)\<lparr>now_ms := now, dreq_due := False\<rparr>\<rparr>)"
      by (rule core_inv_cong [OF _ _ _ _ _ inv]) (simp_all add: tracked_def idle_def)
    from send_delay_req_inv [OF this _ 2(2)] hm show ?thesis by simp
  qed (use i1 in simp)
qed

definition core_start :: "PtpSys \<Rightarrow> bool" where
  "core_start S \<longleftrightarrow> (\<exists>mac domain S0. ptp_core_init mac domain S0 = Some S \<and> s_ppb (clk S0) = 0)"

inductive core_step :: "PtpSys \<Rightarrow> PtpSys \<Rightarrow> bool" where
  core_rx: "ptp_core_rx hw buf len port cnt S = Some S' \<Longrightarrow> core_step S S'"
| core_poll: "ptp_core_poll hw tx now S = Some S' \<Longrightarrow> core_step S S'"

lemma init_inv: "core_start S \<Longrightarrow> core_inv S"
proof -
  assume "core_start S"
  then obtain mac domain S0 where i: "ptp_core_init mac domain S0 = Some S" "s_ppb (clk S0) = 0"
    by (auto simp: core_start_def)
  then obtain l c where S: "S = log l (reset_measurements (S0\<lparr>g := c\<rparr>))" and c: "length (delay_win c) = 8"
    "dataset_ok (master c)" "length (self_id c) = 10"
    by (auto simp: ptp_core_init_def PTP_DELAY_WIN_def dataset_ok_def Let_def split: list.splits)
  have "filter_ok (reset_measurements (S0\<lparr>g := c\<rparr>)) []" using c(1) by (intro reset_filter_ok) simp
  then have "core_inv (reset_measurements (S0\<lparr>g := c\<rparr>))"
    using c i(2) by (auto simp: core_inv_def reset_measurements_def master_ok_def idle_def ptp_servo_init_def PTP_STATS_WIN_def
      servo_inv_def PTP_CLOCK_MAX_PPB_def PTP_SERVO_OUTLIERS_def)
  then show ?thesis using S by simp
qed

interpretation ptp_core: safe_system core_start core_step core_inv
  by unfold_locales (auto intro: init_inv rx_inv poll_inv elim: core_step.cases)

section \<open>Properties\<close>


definition sample_sys :: PtpSys where
  "sample_sys = the (ptp_core_init [2, 0, 0x5E, 0, 0, 1] 0
     \<lparr>g = undefined, clk = \<lparr>reads = 0, s_base_cnt = 0, s_base_ns = 0, s_ppb = 0, s_epoch = 0\<rparr>, out = []\<rparr>)"

lemma sample_sys_start: "core_start sample_sys"
  unfolding core_start_def sample_sys_def ptp_core_init_def
  by (intro exI [of _ "[2, 0, 0x5E, 0, 0, 1]"] exI [of _ 0]
    exI [of _ "\<lparr>g = undefined, clk = \<lparr>reads = 0, s_base_cnt = 0, s_base_ns = 0, s_ppb = 0, s_epoch = 0\<rparr>, out = []\<rparr>"]) (simp add: Let_def)



definition sample_announce :: "u8 \<Rightarrow> u8 \<Rightarrow> u8 list" where
  "sample_announce k p = [0x0B, 2] @ replicate 18 0 @ replicate 8 k @ [0, 1] @ replicate 17 0 @ [p] @ replicate 16 0"


text \<open>
  C31: the delay filter.  After any number of accepted samples since the last reset, at most ten milliseconds each, the path
  delay used is the median of the last eight: the ring buffer and the in-place insertion sort compute what sorting
  those samples would give.
\<close>

theorem ptp_delay_median:
  assumes "length (delay_win (g S)) = 8" "\<forall>x \<in> set xs. \<bar>x\<bar> \<le> PTP_DELAY_MAX_NS" "xs \<noteq> []"
  shows "\<exists>S'. delay_adds xs (reset_measurements S) = Some S' \<and> delay_ns (g S') = median (drop (length xs - 8) xs)"
  using delay_adds_ok [OF reset_filter_ok [OF assms(1)] assms(2)] assms(3) by (auto simp: filter_ok_def)

theorem ptp_delay_median_witness:
  "\<exists>S'. delay_adds [50, 10, 9000000, 40] (reset_measurements sample_sys) = Some S' \<and> delay_ns (g S') = 45"
proof -
  have l: "length (delay_win (g sample_sys)) = 8" by code_simp
  have "median [50, 10, 9000000, 40] = 45" by (simp add: median_def signed_divide_int_def)
  with ptp_delay_median [OF l, of "[50, 10, 9000000, 40]"] show ?thesis by (simp add: PTP_DELAY_MAX_NS_def)
qed

text \<open>
  C37: the integer square root used for the reported RMS.  The digit-by-digit routine ends for every 64-bit argument and
  returns the integer part of its square root.
\<close>

theorem ptp_isqrt:
  "unat (isqrt64 x) * unat (isqrt64 x) \<le> unat x \<and> unat x < (unat (isqrt64 x) + 1) * (unat (isqrt64 x) + 1)"
  by (rule isqrt64_correct)

text \<open>
  The squared offset can overflow.  While the servo is locked, reporting an offset beyond about three seconds
  has no defined result, since the signed square does not fit 64 bits.
\<close>

theorem ptp_report_overflow:
  assumes "state (servo (g S)) = PTP_SERVO_LOCKED" "\<bar>offset\<bar> \<ge> 3037000500" "i64_range offset"
  shows "report hw offset before S = None"
proof -
  have "\<bar>offset\<bar> * \<bar>offset\<bar> \<ge> 3037000500 * 3037000500" using assms(2) by (intro mult_mono) auto
  then have "\<not> i64_range (\<bar>offset\<bar> * \<bar>offset\<bar>)" unfolding i64_range_def by auto
  moreover have "abs64 offset = None \<or> abs64 offset = Some \<bar>offset\<bar>"
    by (auto simp: abs64_def neg64_def i64_def)
  ultimately have "report_stats offset S = None"
    by (cases "add64 (st_sum (g S)) offset") (auto simp: report_stats_def mul64_def i64_def)
  then show ?thesis using assms(1) by (simp add: report_def)
qed

theorem ptp_report_overflow_witness:
  "report \<lparr>hw_freq = 54000000, hw_cnt = \<lambda>_. 0\<rparr> 4000000000 PTP_SERVO_LOCKED
     (upd_g (\<lambda>g. g\<lparr>servo := (servo g)\<lparr>state := PTP_SERVO_LOCKED\<rparr>\<rparr>) sample_sys) = None"
  by (rule ptp_report_overflow) (simp_all add: i64_range_def)

end
