(* ===== verification/Jsonw.thy ===== *)
theory Jsonw
  imports Flint_Prelude
begin

text \<open>
  The bounded JSON writer and the string helpers of \<^verbatim>\<open>port/mqtt/jsonw.c\<close>.  A character array is the
  list of its elements, a C string argument the list of its characters before the terminator.  An
  access outside an array is undefined.  The lemmas show that a sequence of writer calls leaves in
  the buffer the longest prefix of the text that fits, and that the overflow flag tells whether
  all of it did.
\<close>

section \<open>Character arrays\<close>

abbreviation NUL :: char where
  "NUL \<equiv> CHR 0x00"

definition cstr :: "char list \<Rightarrow> string" where
  "cstr arr = takeWhile (\<lambda>c. c \<noteq> NUL) arr"

definition set_char :: "nat \<Rightarrow> char \<Rightarrow> char list \<Rightarrow> char list ub" where
  "set_char i c arr = (if i < length arr then Some (arr[i := c]) else None)"

fun fm_strlen :: "char list \<Rightarrow> nat ub" where
  "fm_strlen [] = None"
| "fm_strlen (c # cs) = (if c \<noteq> NUL then map_option Suc (fm_strlen cs) else Some 0)"

text \<open>The copy loop, at index \<^term>\<open>i\<close> of the destination that starts at offset \<^term>\<open>off\<close>.\<close>

fun strlcpy_loop :: "nat \<Rightarrow> nat \<Rightarrow> string \<Rightarrow> nat \<Rightarrow> char list \<Rightarrow> char list ub" where
  "strlcpy_loop off i [] cap dst = set_char (off + i) NUL dst"
| "strlcpy_loop off i (c # cs) cap dst =
    (if i < cap - 1
     then do {
       dst \<leftarrow> set_char (off + i) c dst;
       strlcpy_loop off (i + 1) cs cap dst
     }
     else set_char (off + i) NUL dst)"

definition fm_strlcpy :: "nat \<Rightarrow> string \<Rightarrow> nat \<Rightarrow> char list \<Rightarrow> char list ub" where
  "fm_strlcpy off src cap dst = (if cap = 0 then Some dst else strlcpy_loop off 0 src cap dst)"

definition fm_strlcat :: "string \<Rightarrow> nat \<Rightarrow> char list \<Rightarrow> char list ub" where
  "fm_strlcat src cap dst = do {
     n \<leftarrow> fm_strlen dst;
     if n < cap then fm_strlcpy n src (cap - n) dst else Some dst
   }"

section \<open>Numbers\<close>

definition digit_char :: "nat \<Rightarrow> char" where
  "digit_char d = char_of (48 + d)"

text \<open>The digits in the order the loop produces them, least significant first.\<close>

fun dec_loop :: "nat \<Rightarrow> string" where
  "dec_loop v = digit_char (v mod 10) # (if v div 10 = 0 then [] else dec_loop (v div 10))"

declare dec_loop.simps [simp del]

text \<open>The scratch array holds 21 characters.\<close>

definition fm_u64_to_str :: "u64 \<Rightarrow> string ub" where
  "fm_u64_to_str v = do {
     let tmp = dec_loop (unat v);
     ub_guard (length tmp \<le> 21);
     Some (rev tmp)
   }"

definition hex_char :: "u64 \<Rightarrow> char" where
  "hex_char v = (''0123456789abcdef'' ! unat (v AND 0xF))"

fun hex_loop :: "u64 \<Rightarrow> nat \<Rightarrow> string" where
  "hex_loop v 0 = []"
| "hex_loop v (Suc n) = hex_char v # hex_loop (drop_bit 4 v) n"

definition fm_hex64 :: "u64 \<Rightarrow> nat \<Rightarrow> string" where
  "fm_hex64 v digits = rev (hex_loop v digits)"

section \<open>The writer\<close>

record JsonW =
  buf :: "char list"
  cap :: nat
  len :: nat
  overflow :: bool
  need_comma :: bool

definition put_c :: "char \<Rightarrow> JsonW \<Rightarrow> JsonW ub" where
  "put_c c w =
    (if len w + 1 < cap w
     then do {
       b \<leftarrow> set_char (len w) c (buf w);
       b \<leftarrow> set_char (len w + 1) NUL b;
       Some (w\<lparr>buf := b, len := len w + 1\<rparr>)
     }
     else Some (w\<lparr>overflow := True\<rparr>))"

fun put_s :: "string \<Rightarrow> JsonW \<Rightarrow> JsonW ub" where
  "put_s [] w = Some w"
| "put_s (c # cs) w = put_c c w \<bind> put_s cs"

fun escaped_loop :: "string \<Rightarrow> JsonW \<Rightarrow> JsonW ub" where
  "escaped_loop [] w = Some w"
| "escaped_loop (c # cs) w = do {
     w \<leftarrow> (if c = CHR 0x22 \<or> c = CHR 0x5C then put_c (CHR 0x5C) w \<bind> put_c c
           else if (of_char c :: nat) < 0x20 then put_c (CHR 0x20) w
           else put_c c w);
     escaped_loop cs w
   }"

definition put_escaped :: "string \<Rightarrow> JsonW \<Rightarrow> JsonW ub" where
  "put_escaped s w = do {
     w \<leftarrow> put_c (CHR 0x22) w;
     w \<leftarrow> escaped_loop s w;
     put_c (CHR 0x22) w
   }"

definition sep :: "JsonW \<Rightarrow> JsonW ub" where
  "sep w = do {
     w \<leftarrow> (if need_comma w then put_c (CHR '','') w else Some w);
     Some (w\<lparr>need_comma := True\<rparr>)
   }"

definition key :: "string option \<Rightarrow> JsonW \<Rightarrow> JsonW ub" where
  "key k w = do {
     w \<leftarrow> sep w;
     (case k of None \<Rightarrow> Some w | Some s \<Rightarrow> put_escaped s w \<bind> put_c (CHR '':''))
   }"

definition jw_init :: "char list \<Rightarrow> nat \<Rightarrow> JsonW ub" where
  "jw_init b c = do {
     b \<leftarrow> (if c > 0 then set_char 0 NUL b else Some b);
     Some \<lparr>buf = b, cap = c, len = 0, overflow = False, need_comma = False\<rparr>
   }"

definition set_comma :: "bool \<Rightarrow> JsonW \<Rightarrow> JsonW ub" where
  "set_comma b w = Some (w\<lparr>need_comma := b\<rparr>)"

definition jw_obj_open :: "JsonW \<Rightarrow> JsonW ub" where
  "jw_obj_open w = sep w \<bind> put_c (CHR ''{'') \<bind> set_comma False"

definition jw_obj_close :: "JsonW \<Rightarrow> JsonW ub" where
  "jw_obj_close w = put_c (CHR ''}'') w \<bind> set_comma True"

definition jw_arr_open :: "string option \<Rightarrow> JsonW \<Rightarrow> JsonW ub" where
  "jw_arr_open k w = key k w \<bind> put_c (CHR ''['') \<bind> set_comma False"

definition jw_arr_close :: "JsonW \<Rightarrow> JsonW ub" where
  "jw_arr_close w = put_c (CHR '']'') w \<bind> set_comma True"

definition jw_str :: "string option \<Rightarrow> string \<Rightarrow> JsonW \<Rightarrow> JsonW ub" where
  "jw_str k v w = key k w \<bind> put_escaped v"

text \<open>The magnitude of a negative number is taken without overflow.\<close>

definition jw_i64 :: "string option \<Rightarrow> int \<Rightarrow> JsonW \<Rightarrow> JsonW ub" where
  "jw_i64 k v w = do {
     w \<leftarrow> key k w;
     if v < 0 then do {
       w \<leftarrow> put_c (CHR ''-'') w;
       p \<leftarrow> add64 v 1;
       n \<leftarrow> neg64 p;
       s \<leftarrow> fm_u64_to_str (to_u64 n + 1);
       put_s s w
     }
     else do {
       s \<leftarrow> fm_u64_to_str (to_u64 v);
       put_s s w
     }
   }"

definition jw_u32 :: "string option \<Rightarrow> u32 \<Rightarrow> JsonW \<Rightarrow> JsonW ub" where
  "jw_u32 k v w = do {
     w \<leftarrow> key k w;
     s \<leftarrow> fm_u64_to_str (ucast v);
     put_s s w
   }"

definition jw_bool :: "string option \<Rightarrow> bool \<Rightarrow> JsonW \<Rightarrow> JsonW ub" where
  "jw_bool k v w = key k w \<bind> put_s (if v then ''true'' else ''false'')"

definition jw_len :: "JsonW \<Rightarrow> nat" where
  "jw_len w = len w"

definition jw_ok :: "JsonW \<Rightarrow> bool" where
  "jw_ok w \<longleftrightarrow> \<not> overflow w"

section \<open>Decimal text\<close>

definition dec :: "nat \<Rightarrow> string" where
  "dec v = rev (dec_loop v)"

definition digit_of :: "char \<Rightarrow> nat" where
  "digit_of c = of_char c - 48"

definition num_value :: "string \<Rightarrow> nat" where
  "num_value s = foldl (\<lambda>v c. 10 * v + digit_of c) 0 s"

lemma digit_of_char [simp]: "d < 10 \<Longrightarrow> digit_of (digit_char d) = d"
  by (simp add: digit_of_def digit_char_def)

lemma dec_rec: "dec v = (if v < 10 then [digit_char v] else dec (v div 10) @ [digit_char (v mod 10)])"
  by (subst dec_def, subst dec_loop.simps) (auto simp: dec_def div_eq_0_iff)

lemma num_value_dec: "num_value (dec v) = v"
proof (induction v rule: less_induct)
  case (less v)
  show ?case
  proof (cases "v < 10")
    case True
    then show ?thesis by (simp add: dec_rec num_value_def)
  next
    case False
    then have "num_value (dec (v div 10)) = v div 10" by (intro less) simp
    then show ?thesis by (subst dec_rec) (simp add: num_value_def False)
  qed
qed

lemma dec_loop_length: "v < 10 ^ k \<Longrightarrow> 0 < k \<Longrightarrow> length (dec_loop v) \<le> k"
proof (induction k arbitrary: v)
  case (Suc k)
  show ?case
  proof (cases "v div 10 = 0")
    case False
    then have "0 < k" using Suc.prems by (cases k) auto
    moreover have "v div 10 < 10 ^ k" using Suc.prems by (simp add: div_less_iff_less_mult mult.commute)
    ultimately show ?thesis using Suc.IH False by (subst dec_loop.simps) simp
  qed (subst dec_loop.simps, simp)
qed simp

lemma fm_u64_to_str_dec: "fm_u64_to_str v = Some (dec (unat v))"
proof -
  have "unat v < 2 ^ 64" using unsigned_less [where 'b = 64 and 'a = nat, of v] by simp
  then have "unat v < 10 ^ 20" by simp
  then have "length (dec_loop (unat v)) \<le> 20" by (rule dec_loop_length) simp
  then show ?thesis by (simp add: fm_u64_to_str_def dec_def)
qed

section \<open>What a writer holds\<close>

definition text_of :: "JsonW \<Rightarrow> string" where
  "text_of w = take (len w) (buf w)"

text \<open>
  A well-formed writer: the capacity is within the array, and the text ends in a terminator
  inside it.
\<close>

definition jw_wf :: "JsonW \<Rightarrow> bool" where
  "jw_wf w \<longleftrightarrow> cap w \<le> length (buf w) \<and> (if cap w = 0 then len w = 0 else len w < cap w \<and> buf w ! len w = NUL)"

text \<open>The writer holds what fits of the text \<^term>\<open>t\<close>.\<close>

definition holds :: "string \<Rightarrow> JsonW \<Rightarrow> bool" where
  "holds t w \<longleftrightarrow> jw_wf w \<and> text_of w = take (cap w - 1) t \<and> (overflow w \<longleftrightarrow> cap w - 1 < length t)"

definition same_frame :: "JsonW \<Rightarrow> JsonW \<Rightarrow> bool" where
  "same_frame w w' \<longleftrightarrow> cap w' = cap w \<and> length (buf w') = length (buf w) \<and> drop (cap w) (buf w') = drop (cap w) (buf w)"

lemma same_frame_refl [simp]: "same_frame w w"
  by (simp add: same_frame_def)

lemma same_frame_trans: "same_frame a b \<Longrightarrow> same_frame b c \<Longrightarrow> same_frame a c"
  by (simp add: same_frame_def)

lemma holds_len: "holds t w \<Longrightarrow> len w = min (cap w - 1) (length t)"
  by (auto simp: holds_def jw_wf_def text_of_def dest!: arg_cong [where f = length] split: if_splits)

lemma holds_comma [simp]: "holds t (w\<lparr>need_comma := b\<rparr>) = holds t w" "same_frame w (w\<lparr>need_comma := b\<rparr>)"
  by (simp_all add: holds_def jw_wf_def text_of_def same_frame_def)

text \<open>An operation that appends \<^term>\<open>t\<close> and leaves the comma flag alone.\<close>

definition appends :: "string \<Rightarrow> (JsonW \<Rightarrow> JsonW ub) \<Rightarrow> bool" where
  "appends t f \<longleftrightarrow> (\<forall>t0 w. holds t0 w \<longrightarrow>
     (\<exists>w'. f w = Some w' \<and> holds (t0 @ t) w' \<and> same_frame w w' \<and> need_comma w' = need_comma w))"

lemma appendsI:
  "(\<And>t0 w. holds t0 w \<Longrightarrow> \<exists>w'. f w = Some w' \<and> holds (t0 @ t) w' \<and> same_frame w w' \<and> need_comma w' = need_comma w) \<Longrightarrow>
   appends t f"
  by (simp add: appends_def)

lemma appends_nil [simp]: "appends [] Some"
  by (rule appendsI) simp

lemma appends_bind: "appends a f \<Longrightarrow> appends b g \<Longrightarrow> appends (a @ b) (\<lambda>w. f w \<bind> g)"
proof (rule appendsI)
  fix t0 w assume f: "appends a f" and g: "appends b g" and h: "holds t0 w"
  from f h obtain w1 where 1: "f w = Some w1" "holds (t0 @ a) w1" "same_frame w w1" "need_comma w1 = need_comma w"
    unfolding appends_def by blast
  from g 1(2) obtain w2 where 2: "g w1 = Some w2" "holds ((t0 @ a) @ b) w2" "same_frame w1 w2" "need_comma w2 = need_comma w1"
    unfolding appends_def by blast
  have "same_frame w w2" using same_frame_trans [OF 1(3) 2(3)] .
  then show "\<exists>w'. f w \<bind> g = Some w' \<and> holds (t0 @ a @ b) w' \<and> same_frame w w' \<and> need_comma w' = need_comma w"
    using 1 2 by simp
qed

lemma put_c_appends: "appends [c] (put_c c)"
proof (rule appendsI)
  fix t0 w assume h: "holds t0 w"
  note l = holds_len [OF h]
  show "\<exists>w'. put_c c w = Some w' \<and> holds (t0 @ [c]) w' \<and> same_frame w w' \<and> need_comma w' = need_comma w"
  proof (cases "len w + 1 < cap w")
    case True
    then have n: "len w = length t0" using l by linarith
    have b: "cap w \<le> length (buf w)" "text_of w = t0" "\<not> overflow w"
      using h n True by (auto simp: holds_def jw_wf_def)
    have "take (len w + 1) ((buf w)[len w := c, len w + 1 := NUL]) = t0 @ [c]"
      using b True unfolding text_of_def by (simp add: take_Suc_conv_app_nth)
    then show ?thesis
      using b True n by (auto simp: put_c_def set_char_def holds_def jw_wf_def text_of_def same_frame_def)
  next
    case False
    then have "cap w - 1 \<le> length t0" using l by (auto simp: min_def split: if_splits)
    then show ?thesis
      using h False by (auto simp: put_c_def holds_def jw_wf_def text_of_def same_frame_def)
  qed
qed

lemma put_s_appends: "appends s (put_s s)"
proof (induction s)
  case (Cons c s)
  then show ?case using appends_bind [OF put_c_appends [of c], of s "put_s s"] by simp
qed (simp add: appends_def)

section \<open>String literals\<close>

fun esc :: "string \<Rightarrow> string" where
  "esc [] = []"
| "esc (c # cs) = (if c = CHR 0x22 \<or> c = CHR 0x5C then [CHR 0x5C, c]
     else if (of_char c :: nat) < 0x20 then [CHR 0x20] else [c]) @ esc cs"

definition quoted :: "string \<Rightarrow> string" where
  "quoted s = CHR 0x22 # esc s @ [CHR 0x22]"

lemma escaped_loop_appends: "appends (esc s) (escaped_loop s)"
proof (induction s)
  case (Cons c s)
  have two: "appends [CHR 0x5C, c] (\<lambda>w. put_c (CHR 0x5C) w \<bind> put_c c)"
    using appends_bind [OF put_c_appends put_c_appends, of "CHR 0x5C" c] by simp
  show ?case
    using appends_bind [OF two Cons] appends_bind [OF put_c_appends [of "CHR 0x20"] Cons]
      appends_bind [OF put_c_appends [of c] Cons] by simp
qed (simp add: appends_def)

lemma put_escaped_appends: "appends (quoted s) (put_escaped s)"
  using appends_bind [OF put_c_appends [of "CHR 0x22"] appends_bind [OF escaped_loop_appends [of s] put_c_appends [of "CHR 0x22"]]]
  by (simp add: quoted_def put_escaped_def [abs_def])

text \<open>Reading a literal back: the characters up to the closing quote, and what follows it.\<close>

fun unquote :: "string \<Rightarrow> (string \<times> string) option" where
  "unquote [] = None"
| "unquote (c # cs) =
    (if c = CHR 0x22 then Some ([], cs)
     else if c = CHR 0x5C then (case cs of [] \<Rightarrow> None | d # ds \<Rightarrow> map_option (apfst (Cons d)) (unquote ds))
     else map_option (apfst (Cons c)) (unquote cs))"

text \<open>What the writer keeps of a string: control characters become spaces.\<close>

definition printable :: "string \<Rightarrow> string" where
  "printable s = map (\<lambda>c. if (of_char c :: nat) < 0x20 then CHR 0x20 else c) s"

lemma unquote_esc: "unquote (esc s @ CHR 0x22 # rest) = Some (printable s, rest)"
  by (induction s) (auto simp: printable_def)

section \<open>Sequences of calls\<close>

datatype jw_call = ObjOpen | ObjClose | ArrOpen "string option" | ArrClose | Str "string option" string
  | I64 "string option" int | U32 "string option" u32 | Bool "string option" bool

fun jw_do :: "jw_call \<Rightarrow> JsonW \<Rightarrow> JsonW ub" where
  "jw_do ObjOpen w = jw_obj_open w"
| "jw_do ObjClose w = jw_obj_close w"
| "jw_do (ArrOpen k) w = jw_arr_open k w"
| "jw_do ArrClose w = jw_arr_close w"
| "jw_do (Str k v) w = jw_str k v w"
| "jw_do (I64 k v) w = jw_i64 k v w"
| "jw_do (U32 k v) w = jw_u32 k v w"
| "jw_do (Bool k v) w = jw_bool k v w"

fun jw_all :: "jw_call list \<Rightarrow> JsonW \<Rightarrow> JsonW ub" where
  "jw_all [] w = Some w"
| "jw_all (c # cs) w = jw_do c w \<bind> jw_all cs"

text \<open>The JSON text of a call, given whether a comma is due, and whether one is due after it.\<close>

definition member :: "bool \<Rightarrow> string option \<Rightarrow> string" where
  "member comma k = (if comma then '','' else []) @ (case k of None \<Rightarrow> [] | Some s \<Rightarrow> quoted s @ '':'')"

fun json_of :: "bool \<Rightarrow> jw_call \<Rightarrow> string" where
  "json_of b ObjOpen = member b None @ ''{''"
| "json_of b ObjClose = ''}''"
| "json_of b (ArrOpen k) = member b k @ ''[''"
| "json_of b ArrClose = '']''"
| "json_of b (Str k v) = member b k @ quoted v"
| "json_of b (I64 k v) = member b k @ (if v < 0 then ''-'' else []) @ dec (nat \<bar>v\<bar>)"
| "json_of b (U32 k v) = member b k @ dec (unat v)"
| "json_of b (Bool k v) = member b k @ (if v then ''true'' else ''false'')"

fun comma_after :: "jw_call \<Rightarrow> bool" where
  "comma_after ObjOpen = False"
| "comma_after (ArrOpen k) = False"
| "comma_after c = True"

fun json_text :: "bool \<Rightarrow> jw_call list \<Rightarrow> string" where
  "json_text b [] = []"
| "json_text b (c # cs) = json_of b c @ json_text (comma_after c) cs"

text \<open>The arguments fit their C types.\<close>

fun call_ok :: "jw_call \<Rightarrow> bool" where
  "call_ok (I64 k v) = i64_range v"
| "call_ok c = True"

text \<open>An operation that appends a text and sets the comma flag.\<close>

definition writes :: "bool \<Rightarrow> (bool \<Rightarrow> string) \<Rightarrow> (JsonW \<Rightarrow> JsonW ub) \<Rightarrow> bool" where
  "writes b t f \<longleftrightarrow> (\<forall>t0 w. holds t0 w \<longrightarrow>
     (\<exists>w'. f w = Some w' \<and> holds (t0 @ t (need_comma w)) w' \<and> same_frame w w' \<and> need_comma w' = b))"

lemma writesI:
  "(\<And>t0 w. holds t0 w \<Longrightarrow> \<exists>w'. f w = Some w' \<and> holds (t0 @ t (need_comma w)) w' \<and> same_frame w w' \<and> need_comma w' = b) \<Longrightarrow>
   writes b t f"
  by (simp add: writes_def)

lemma writesE:
  assumes "writes b t f" "holds t0 w"
  obtains w' where "f w = Some w'" "holds (t0 @ t (need_comma w)) w'" "same_frame w w'" "need_comma w' = b"
  using assms unfolding writes_def by blast

lemma appendsE:
  assumes "appends t f" "holds t0 w"
  obtains w' where "f w = Some w'" "holds (t0 @ t) w'" "same_frame w w'" "need_comma w' = need_comma w"
  using assms unfolding appends_def by blast

lemma writes_then:
  assumes "writes b t f" "appends u g"
  shows "writes b (\<lambda>c. t c @ u) (\<lambda>w. f w \<bind> g)"
proof (rule writesI)
  fix t0 w assume "holds t0 w"
  then obtain w1 where 1: "f w = Some w1" "holds (t0 @ t (need_comma w)) w1" "same_frame w w1" "need_comma w1 = b"
    using assms(1) by (blast elim: writesE)
  obtain w2 where "g w1 = Some w2" "holds ((t0 @ t (need_comma w)) @ u) w2" "same_frame w1 w2" "need_comma w2 = b"
    using appendsE [OF assms(2) 1(2)] unfolding 1(4) .
  with 1 same_frame_trans [of w w1 w2] show "\<exists>w'. f w \<bind> g = Some w' \<and> holds (t0 @ t (need_comma w) @ u) w' \<and> same_frame w w' \<and> need_comma w' = b"
    by simp
qed

lemma writes_set:
  assumes "writes b t f"
  shows "writes c t (\<lambda>w. f w \<bind> set_comma c)"
  using assms by (force intro!: writesI elim!: writesE simp: set_comma_def same_frame_def)

lemma appends_set: "appends t f \<Longrightarrow> writes c (\<lambda>_. t) (\<lambda>w. f w \<bind> set_comma c)"
  by (force intro!: writesI elim!: appendsE simp: set_comma_def same_frame_def)

lemma sep_writes: "writes True (\<lambda>b. member b None) sep"
proof (rule writesI)
  fix t0 w assume h: "holds t0 w"
  show "\<exists>w'. sep w = Some w' \<and> holds (t0 @ member (need_comma w) None) w' \<and> same_frame w w' \<and> need_comma w' = True"
  proof (cases "need_comma w")
    case True
    obtain w1 where "put_c (CHR '','') w = Some w1" "holds (t0 @ '','') w1" "same_frame w w1"
      using appendsE [OF put_c_appends h] .
    with True show ?thesis by (simp add: sep_def member_def same_frame_def)
  qed (use h in \<open>simp add: sep_def member_def\<close>)
qed

lemma key_writes: "writes True (\<lambda>b. member b k) (key k)"
proof (cases k)
  case None
  then show ?thesis using sep_writes by (simp add: key_def [abs_def] member_def)
next
  case (Some s)
  have "appends (quoted s @ '':'') (\<lambda>w. put_escaped s w \<bind> put_c (CHR '':''))"
    using appends_bind [OF put_escaped_appends [of s] put_c_appends [of "CHR '':''"]] by simp
  from writes_then [OF sep_writes this] show ?thesis
    by (simp add: key_def [abs_def] member_def Some)
qed

lemma unat_word_of_int: "0 \<le> x \<Longrightarrow> x < 2 ^ 64 \<Longrightarrow> unat (word_of_int x :: u64) = nat x"
  by (simp add: unat_eq_nat_uint uint_word_of_int_eq take_bit_int_eq_self)

lemma neg_magnitude:
  assumes "i64_range v" "v < 0"
  shows "add64 v 1 = Some (v + 1)" "neg64 (v + 1) = Some (- (v + 1))" "unat (to_u64 (- (v + 1)) + 1) = nat (- v)"
proof -
  have r: "- 9223372036854775808 \<le> v" using assms by (simp add: i64_range_def)
  show "add64 v 1 = Some (v + 1)" "neg64 (v + 1) = Some (- (v + 1))"
    using r assms(2) by (simp_all add: add64_def neg64_def i64_def i64_range_def)
  have "to_u64 (- (v + 1)) + 1 = (word_of_int (- (v + 1) + 1) :: u64)"
    unfolding to_u64_def by (simp only: of_int_add of_int_1)
  also have "- (v + 1) + 1 = - v" by simp
  finally show "unat (to_u64 (- (v + 1)) + 1) = nat (- v)"
    using unat_word_of_int [of "- v"] r assms(2) by simp
qed

lemma put_i64_appends:
  assumes "i64_range v"
  shows "writes True (\<lambda>b. member b k @ (if v < 0 then ''-'' else []) @ dec (nat \<bar>v\<bar>)) (jw_i64 k v)"
proof (cases "v < 0")
  case True
  have "appends (''-'' @ dec (nat (- v))) (\<lambda>w. put_c (CHR ''-'') w \<bind> put_s (dec (nat (- v))))"
    using appends_bind [OF put_c_appends [of "CHR ''-''"] put_s_appends [of "dec (nat (- v))"]] by simp
  from writes_then [OF key_writes [of k] this] show ?thesis
    using True neg_magnitude [OF assms True] by (simp add: jw_i64_def [abs_def] fm_u64_to_str_dec)
next
  case False
  then have "unat (to_u64 v) = nat v"
    using assms unat_word_of_int [of v] by (simp add: to_u64_def i64_range_def)
  with writes_then [OF key_writes [of k] put_s_appends [of "dec (nat v)"]] show ?thesis
    using False by (simp add: jw_i64_def [abs_def] fm_u64_to_str_dec)
qed

lemma unat_ucast32: "unat (ucast (v :: u32) :: u64) = unat v"
proof -
  have "unat v < 2 ^ 32" using unsigned_less [where 'b = 32 and 'a = nat, of v] by simp
  then show ?thesis by (simp add: unsigned_ucast_eq take_bit_nat_eq_self)
qed

lemma jw_do_writes: "call_ok c \<Longrightarrow> writes (comma_after c) (\<lambda>b. json_of b c) (jw_do c)"
proof (induction c)
  case ObjOpen
  show ?case using writes_set [OF writes_then [OF sep_writes put_c_appends [of "CHR ''{''"]]]
    by (simp add: jw_obj_open_def [abs_def])
next
  case ObjClose
  show ?case using appends_set [OF put_c_appends [of "CHR ''}''"]] by (simp add: jw_obj_close_def [abs_def])
next
  case (ArrOpen k)
  show ?case using writes_set [OF writes_then [OF key_writes put_c_appends [of "CHR ''[''"]]]
    by (simp add: jw_arr_open_def [abs_def])
next
  case ArrClose
  show ?case using appends_set [OF put_c_appends [of "CHR '']''"]] by (simp add: jw_arr_close_def [abs_def])
next
  case (Str k v)
  show ?case using writes_then [OF key_writes put_escaped_appends] by (simp add: jw_str_def [abs_def])
next
  case (I64 k v)
  then show ?case using put_i64_appends by simp
next
  case (U32 k v)
  show ?case using writes_then [OF key_writes put_s_appends]
    by (simp add: jw_u32_def [abs_def] fm_u64_to_str_dec unat_ucast32)
next
  case (Bool k v)
  show ?case using writes_then [OF key_writes put_s_appends] by (simp add: jw_bool_def [abs_def])
qed

lemma jw_all_holds:
  assumes "\<forall>c \<in> set cs. call_ok c" "holds t0 w"
  shows "\<exists>w'. jw_all cs w = Some w' \<and> holds (t0 @ json_text (need_comma w) cs) w' \<and> same_frame w w'"
  using assms
proof (induction cs arbitrary: t0 w)
  case (Cons c cs)
  from Cons.prems jw_do_writes [of c] obtain w1 where 1: "jw_do c w = Some w1"
    "holds (t0 @ json_of (need_comma w) c) w1" "same_frame w w1" "need_comma w1 = comma_after c"
    by (auto elim: writesE)
  from Cons.IH [OF _ 1(2)] Cons.prems 1(4) obtain w2 where 2: "jw_all cs w1 = Some w2"
    "holds ((t0 @ json_of (need_comma w) c) @ json_text (comma_after c) cs) w2" "same_frame w1 w2" by auto
  with 1 same_frame_trans [of w w1 w2] show ?case by simp
qed simp

lemma jw_init_holds:
  assumes "n \<le> length b"
  obtains w where "jw_init b n = Some w" "holds [] w" "cap w = n" "\<not> need_comma w"
    "length (buf w) = length b" "drop n (buf w) = drop n b"
proof -
  have z: "0 < n \<Longrightarrow> b[0 := NUL] ! 0 = NUL" using assms by (cases b) auto
  let ?w = "\<lparr>buf = (if 0 < n then b[0 := NUL] else b), cap = n, len = 0, overflow = False, need_comma = False\<rparr>"
  show ?thesis
    by (rule that [of ?w]) (use assms z in \<open>auto simp: jw_init_def set_char_def holds_def jw_wf_def text_of_def\<close>)
qed

lemma jw_calls_hold:
  assumes "n \<le> length b" "\<forall>c \<in> set cs. call_ok c"
  obtains w where "(jw_init b n \<bind> jw_all cs) = Some w" "holds (json_text False cs) w" "cap w = n"
    "length (buf w) = length b" "drop n (buf w) = drop n b"
proof -
  obtain w where w: "jw_init b n = Some w" "holds [] w" "cap w = n" "\<not> need_comma w"
    "length (buf w) = length b" "drop n (buf w) = drop n b" using jw_init_holds [OF assms(1)] .
  from jw_all_holds [OF assms(2) w(2)] w(4) obtain w' where
    "jw_all cs w = Some w'" "holds (json_text False cs) w'" "same_frame w w'" by auto
  with w show ?thesis by (intro that [of w']) (simp_all add: same_frame_def)
qed

text \<open>No text of the writer contains a terminator, so the buffer read as a C string is the text.\<close>

lemma digit_char_nul: "d < 10 \<Longrightarrow> digit_char d \<noteq> NUL"
proof
  assume "d < 10" and "digit_char d = NUL"
  then have "(of_char (digit_char d) :: nat) = 0" by simp
  with \<open>d < 10\<close> show False by (simp add: digit_char_def)
qed

lemma dec_nul: "NUL \<notin> set (dec v)"
proof (induction v rule: less_induct)
  case (less v)
  then have "\<not> v < 10 \<Longrightarrow> NUL \<notin> set (dec (v div 10))" by simp
  then show ?case using digit_char_nul [of v] digit_char_nul [of "v mod 10"] by (subst dec_rec) auto
qed

lemma esc_nul: "NUL \<notin> set (esc s)"
  by (induction s) auto

lemma member_nul: "NUL \<notin> set (member b k)"
  by (cases k) (auto simp: member_def quoted_def esc_nul)

lemma json_of_nul: "NUL \<notin> set (json_of b c)"
  by (cases c) (auto simp: member_nul quoted_def esc_nul dec_nul)

lemma json_text_nul: "NUL \<notin> set (json_text b cs)"
  by (induction cs arbitrary: b) (auto simp: json_of_nul)

lemma cstr_take: "n < length a \<Longrightarrow> a ! n = NUL \<Longrightarrow> NUL \<notin> set (take n a) \<Longrightarrow> cstr a = take n a"
  unfolding cstr_def by (rule takeWhile_eq_take_P_nth) (auto simp: in_set_conv_nth)

lemma holds_cstr:
  assumes "holds (json_text b cs) w" "0 < cap w"
  shows "cstr (buf w) = take (cap w - 1) (json_text b cs)" "NUL \<in> set (buf w)"
proof -
  have l: "len w < length (buf w)" "buf w ! len w = NUL" "text_of w = take (cap w - 1) (json_text b cs)"
    using assms by (auto simp: holds_def jw_wf_def)
  then show "NUL \<in> set (buf w)" by (metis nth_mem)
  have "NUL \<notin> set (text_of w)" using l(3) json_text_nul in_set_takeD by metis
  then show "cstr (buf w) = take (cap w - 1) (json_text b cs)"
    using cstr_take l unfolding text_of_def by metis
qed

text \<open>
  C12: The JSON writer is bounded and exact.  For every sequence of writer calls on a buffer of
  capacity \<^term>\<open>n\<close> the writer returns, never writes outside its buffer, keeps the text terminated, and
  holds the longest prefix of the JSON text that fits; \<^verbatim>\<open>jw_ok\<close> is true exactly when nothing was cut off.
\<close>

theorem jsonw_bounded:
  assumes "n \<le> length b" "\<forall>c \<in> set cs. call_ok c"
  shows "\<exists>w. (jw_init b n \<bind> jw_all cs) = Some w \<and> text_of w = take (n - 1) (json_text False cs) \<and>
     (jw_ok w \<longleftrightarrow> length (json_text False cs) \<le> n - 1) \<and> (0 < n \<longrightarrow> jw_len w < n \<and> buf w ! jw_len w = NUL) \<and>
     length (buf w) = length b \<and> drop n (buf w) = drop n b"
proof -
  obtain w where "(jw_init b n \<bind> jw_all cs) = Some w" "holds (json_text False cs) w" "cap w = n"
    "length (buf w) = length b" "drop n (buf w) = drop n b" using jw_calls_hold [OF assms] .
  then show ?thesis
    by (auto simp: holds_def jw_wf_def jw_ok_def jw_len_def not_less split: if_splits)
qed

theorem jsonw_bounded_witness:
  "\<exists>w. (jw_init (replicate 16 NUL) 16 \<bind> jw_all [ObjOpen, I64 (Some ''a'') (- 7), ObjClose]) = Some w \<and>
     text_of w = take (16 - 1) (json_text False [ObjOpen, I64 (Some ''a'') (- 7), ObjClose]) \<and>
     (jw_ok w \<longleftrightarrow> length (json_text False [ObjOpen, I64 (Some ''a'') (- 7), ObjClose]) \<le> 16 - 1) \<and>
     (0 < (16 :: nat) \<longrightarrow> jw_len w < 16 \<and> buf w ! jw_len w = NUL) \<and>
     length (buf w) = length (replicate 16 NUL) \<and> drop 16 (buf w) = drop 16 (replicate 16 NUL)"
  by (rule jsonw_bounded) (simp_all add: i64_range_def)

section \<open>Bounded string copies\<close>

lemma fm_strlen_cstr: "NUL \<in> set a \<Longrightarrow> fm_strlen a = Some (length (cstr a))"
  by (induction a) (auto simp: cstr_def)

lemma strlcpy_loop_eq:
  assumes "i < n" "off + n \<le> length dst"
  shows "strlcpy_loop off i src n dst =
    Some (take (off + i) dst @ take (n - 1 - i) src @ NUL # drop (off + i + min (n - 1 - i) (length src) + 1) dst)"
  using assms
proof (induction src arbitrary: i dst)
  case Nil
  then show ?case by (simp add: set_char_def upd_conv_take_nth_drop)
next
  case (Cons c src)
  show ?case
  proof (cases "i < n - 1")
    case True
    let ?d = "dst[off + i := c]"
    have t: "take (off + (i + 1)) ?d = take (off + i) dst @ [c]"
      using Cons.prems by (simp add: take_Suc_conv_app_nth)
    have "strlcpy_loop off (i + 1) src n ?d =
        Some (take (off + (i + 1)) ?d @ take (n - 1 - (i + 1)) src @ NUL # drop (off + (i + 1) + min (n - 1 - (i + 1)) (length src) + 1) ?d)"
      by (rule Cons.IH) (use True Cons.prems in auto)
    moreover have "n - 1 - i = Suc (n - 1 - (i + 1))" using True by simp
    ultimately show ?thesis
      using True Cons.prems t by (simp add: set_char_def)
  next
    case False
    then show ?thesis using Cons.prems by (simp add: set_char_def upd_conv_take_nth_drop)
  qed
qed

lemma cstr_append: "NUL \<notin> set a \<Longrightarrow> cstr (a @ NUL # b) = a"
  unfolding cstr_def by (induction a) auto

lemma cstr_nul [simp]: "NUL \<notin> set (cstr a)"
  unfolding cstr_def using set_takeWhileD [of NUL] by auto

text \<open>An array of \<^term>\<open>n\<close> characters that holds a C string.\<close>

definition arr_ok :: "nat \<Rightarrow> char list \<Rightarrow> bool" where
  "arr_ok n a \<longleftrightarrow> length a = n \<and> NUL \<in> set a"

lemma arr_ok_build:
  assumes "k + m < length dst"
  shows "arr_ok (length dst) (take k dst @ take m src @ NUL # drop (k + min m (length src) + 1) dst)"
proof -
  have "length (take k dst) = k" "length (take m src) = min m (length src)" using assms by auto
  moreover have "min m (length src) \<le> m" by simp
  ultimately show ?thesis using assms unfolding arr_ok_def by simp
qed

lemma strlcpy_ok:
  assumes "length dst = n" "0 < n" "NUL \<notin> set src"
  obtains d where "fm_strlcpy 0 src n dst = Some d" "arr_ok n d" "cstr d = take (n - 1) src"
proof -
  let ?d = "take (n - 1) src @ NUL # drop (min (n - 1) (length src) + 1) dst"
  have "fm_strlcpy 0 src n dst = Some ?d"
    using assms strlcpy_loop_eq [of 0 n 0 dst src] by (simp add: fm_strlcpy_def)
  moreover have "arr_ok n ?d" using assms arr_ok_build [of 0 "n - 1" dst src] by simp
  moreover have "cstr ?d = take (n - 1) src" using assms(3) cstr_append in_set_takeD by metis
  ultimately show ?thesis by (rule that)
qed

lemma cstr_split: "take (length (cstr a)) a = cstr a"
  unfolding cstr_def by (rule takeWhile_eq_take [symmetric])

lemma cstr_short: "NUL \<in> set a \<Longrightarrow> length (cstr a) < length a"
  unfolding cstr_def by (induction a) auto

lemma strlcat_ok:
  assumes "arr_ok n dst" "NUL \<notin> set src"
  obtains d where "fm_strlcat src n dst = Some d" "arr_ok n d" "cstr d = take (n - 1) (cstr dst @ src)"
proof -
  let ?k = "length (cstr dst)"
  let ?d = "take ?k dst @ take (n - ?k - 1) src @ NUL # drop (?k + min (n - ?k - 1) (length src) + 1) dst"
  have k: "?k < n" "length dst = n" "NUL \<in> set dst" using assms(1) cstr_short by (auto simp: arr_ok_def)
  have "fm_strlcat src n dst = Some ?d"
    using k strlcpy_loop_eq [of 0 "n - ?k" ?k dst src] by (simp add: fm_strlcat_def fm_strlen_cstr fm_strlcpy_def)
  moreover have "arr_ok n ?d" using k arr_ok_build [of ?k "n - ?k - 1" dst src] by simp
  moreover have "cstr ?d = take (n - 1) (cstr dst @ src)"
  proof -
    have "NUL \<notin> set (cstr dst @ take (n - ?k - 1) src)" using assms(2) by (auto dest: in_set_takeD)
    moreover have "?d = (cstr dst @ take (n - ?k - 1) src) @ NUL # drop (?k + min (n - ?k - 1) (length src) + 1) dst"
      using cstr_split [of dst] by simp
    ultimately have "cstr ?d = cstr dst @ take (n - ?k - 1) src" using cstr_append by metis
    then show ?thesis using k(1) by simp
  qed
  ultimately show ?thesis by (rule that)
qed

end
