(* ===== verification/Mqtt.thy ===== *)
theory Mqtt
  imports Jsonw
begin

text \<open>
  The MQTT device application of \<^verbatim>\<open>port/mqtt/flint_mqtt.c\<close>: topics, scheduled publishing, the command
  interpreter and the reconnection state machine.  coreMQTT, the transport and the platform services
  are parameters, collected in a record of functions on the state of the environment.
\<close>

section \<open>Constants\<close>

definition TOPIC_MAX :: nat where "TOPIC_MAX = 64"
definition ID_MAX :: nat where "ID_MAX = 32"
definition HOST_MAX :: nat where "HOST_MAX = 64"
definition CONNECT_TIMEOUT_MS :: u32 where "CONNECT_TIMEOUT_MS = 8000"
definition KEEPALIVE_S :: u16 where "KEEPALIVE_S = 30"
definition PTP_PERIOD_MS :: u32 where "PTP_PERIOD_MS = 1000"
definition STATS_PERIOD_MS :: u32 where "STATS_PERIOD_MS = 10000"
definition BACKOFF_MIN_MS :: u32 where "BACKOFF_MIN_MS = 2000"
definition BACKOFF_MAX_MS :: u32 where "BACKOFF_MAX_MS = 60000"
definition REPLY_MAX :: nat where "REPLY_MAX = 1024"

section \<open>The environment\<close>

datatype MQTTStatus_t = MQTTSuccess | MQTTNeedMoreBytes | MQTTFailure string

record MQTTPublishInfo_t =
  retain :: bool
  pTopicName :: string
  topicNameLength :: u16
  pPayload :: "char list"
  payloadLength :: nat

record MQTTConnectInfo_t =
  cleanSession :: bool
  pClientIdentifier :: string
  clientIdentifierLength :: u16
  keepAliveSeconds :: u16

text \<open>What coreMQTT hands to the event callback: a packet type and the publish it carries, if any.\<close>

record mqtt_event =
  ev_type :: u8
  ev_publish :: "MQTTPublishInfo_t option"

record 'e services =
  fm_plat_ms :: "'e \<Rightarrow> u32 \<times> 'e"
  fm_plat_ip :: "'e \<Rightarrow> string"
  fm_plat_led :: "int \<Rightarrow> 'e \<Rightarrow> int \<times> 'e"
  fm_plat_ptp_json :: "char list \<Rightarrow> nat \<Rightarrow> 'e \<Rightarrow> nat \<times> char list \<times> 'e"
  fm_plat_stats_json :: "char list \<Rightarrow> nat \<Rightarrow> 'e \<Rightarrow> nat \<times> char list \<times> 'e"
  fm_plat_log :: "string \<Rightarrow> 'e \<Rightarrow> 'e"
  mqtt_transport_open :: "string \<Rightarrow> u16 \<Rightarrow> u32 \<Rightarrow> 'e \<Rightarrow> int \<times> 'e"
  mqtt_transport_close :: "'e \<Rightarrow> 'e"
  mqtt_transport_is_up :: "'e \<Rightarrow> bool"
  mqtt_transport_error :: "'e \<Rightarrow> string"
  MQTT_Init :: "'e \<Rightarrow> MQTTStatus_t \<times> 'e"
  MQTT_Connect :: "MQTTConnectInfo_t \<Rightarrow> MQTTPublishInfo_t \<Rightarrow> u32 \<Rightarrow> 'e \<Rightarrow> MQTTStatus_t \<times> 'e"
  MQTT_Subscribe :: "string \<Rightarrow> u16 \<Rightarrow> 'e \<Rightarrow> MQTTStatus_t \<times> 'e"
  MQTT_Publish :: "MQTTPublishInfo_t \<Rightarrow> 'e \<Rightarrow> MQTTStatus_t \<times> 'e"
  MQTT_ProcessLoop :: "'e \<Rightarrow> MQTTStatus_t \<times> mqtt_event list \<times> 'e"
  MQTT_Status_strerror :: "MQTTStatus_t \<Rightarrow> string"
  MQTT_PACKET_TYPE_PUBLISH :: u8
  MQTT_PACKET_TYPE_SUBACK :: u8

section \<open>State\<close>

record FlintMqttStats =
  connects :: u32
  connect_failures :: u32
  published :: u32
  commands :: u32

record FlintMqtt =
  id_buf :: "char list"
  host :: "char list"
  broker_port :: u16
  inited :: bool
  connected :: bool
  next_attempt_ms :: u32
  backoff_ms :: u32
  last_ptp_ms :: u32
  last_stats_ms :: u32
  boot_ms :: u32
  topic_buf :: "char list"
  t_status :: "char list"
  t_ptp :: "char list"
  t_stats :: "char list"
  t_cmd :: "char list"
  t_reply :: "char list"
  reply_pending :: bool
  reply :: "char list"
  scratch :: "char list"
  st :: FlintMqttStats

type_synonym 'e mqtt_state = "FlintMqtt \<times> 'e"

section \<open>Logging and topics\<close>

definition logf2 :: "'e services \<Rightarrow> string \<Rightarrow> string option \<Rightarrow> 'e \<Rightarrow> 'e ub" where
  "logf2 sv a b e = do {
     line \<leftarrow> fm_strlcpy 0 ''[mqtt] '' 160 (replicate 160 NUL);
     line \<leftarrow> fm_strlcat a 160 line;
     line \<leftarrow> (case b of None \<Rightarrow> Some line | Some s \<Rightarrow> fm_strlcat s 160 line);
     Some (fm_plat_log sv (cstr line) e)
   }"

definition make_topic :: "char list \<Rightarrow> string \<Rightarrow> FlintMqtt \<Rightarrow> char list ub" where
  "make_topic dst leaf g = do {
     dst \<leftarrow> fm_strlcpy 0 ''flint/'' TOPIC_MAX dst;
     dst \<leftarrow> fm_strlcat (cstr (id_buf g)) TOPIC_MAX dst;
     dst \<leftarrow> fm_strlcat ''/'' TOPIC_MAX dst;
     fm_strlcat leaf TOPIC_MAX dst
   }"

definition flint_mqtt_topic :: "string \<Rightarrow> FlintMqtt \<Rightarrow> (string \<times> FlintMqtt) ub" where
  "flint_mqtt_topic leaf g = do {
     d \<leftarrow> make_topic (topic_buf g) leaf g;
     Some (cstr d, g\<lparr>topic_buf := d\<rparr>)
   }"

definition flint_mqtt_stats :: "FlintMqtt \<Rightarrow> FlintMqttStats" where
  "flint_mqtt_stats g = st g"

definition flint_mqtt_connected :: "FlintMqtt \<Rightarrow> bool" where
  "flint_mqtt_connected g = connected g"

definition now_ms :: "'e services \<Rightarrow> 'e \<Rightarrow> u32 \<times> 'e" where
  "now_ms sv e = fm_plat_ms sv e"

section \<open>Publishing\<close>

definition publish_info :: "char list \<Rightarrow> char list \<Rightarrow> nat \<Rightarrow> bool \<Rightarrow> MQTTPublishInfo_t ub" where
  "publish_info topic payload n ret = do {
     l \<leftarrow> fm_strlen topic;
     Some \<lparr>retain = ret, pTopicName = cstr topic, topicNameLength = of_nat l,
           pPayload = take n payload, payloadLength = n\<rparr>
   }"

definition publish ::
  "'e services \<Rightarrow> char list \<Rightarrow> char list \<Rightarrow> nat \<Rightarrow> bool \<Rightarrow> 'e mqtt_state \<Rightarrow> (bool \<times> 'e mqtt_state) ub" where
  "publish sv topic payload n ret ge =
    (case ge of (g, e) \<Rightarrow>
       if \<not> connected g then Some (False, g, e)
       else do {
         pi \<leftarrow> publish_info topic payload n ret;
         let (rc, e) = MQTT_Publish sv pi e;
         if rc = MQTTSuccess then Some (True, g\<lparr>st := (st g)\<lparr>published := published (st g) + 1\<rparr>\<rparr>, e)
         else do {
           e \<leftarrow> logf2 sv ''publish failed: '' (Some (MQTT_Status_strerror sv rc)) e;
           Some (False, g, e)
         }
       })"

definition build_status :: "'e services \<Rightarrow> string \<Rightarrow> 'e mqtt_state \<Rightarrow> (JsonW \<times> 'e mqtt_state) ub" where
  "build_status sv state ge =
    (case ge of (g, e) \<Rightarrow> do {
       w \<leftarrow> jw_init (scratch g) REPLY_MAX;
       w \<leftarrow> jw_obj_open w;
       w \<leftarrow> jw_str (Some ''state'') state w;
       w \<leftarrow> jw_str (Some ''id'') (cstr (id_buf g)) w;
       w \<leftarrow> jw_str (Some ''ip'') (fm_plat_ip sv e) w;
       w \<leftarrow> jw_str (Some ''fw'') ''FlintRTOS / lwIP 2.2.0 / coreMQTT 2.3.1'' w;
       let (t, e) = now_ms sv e;
       w \<leftarrow> jw_u32 (Some ''uptime_s'') ((t - boot_ms g) div 1000) w;
       w \<leftarrow> jw_obj_close w;
       Some (w, g\<lparr>scratch := buf w\<rparr>, e)
     })"

definition publish_status_online :: "'e services \<Rightarrow> 'e mqtt_state \<Rightarrow> 'e mqtt_state ub" where
  "publish_status_online sv ge = do {
     (w, ge) \<leftarrow> build_status sv ''online'' ge;
     (_, ge) \<leftarrow> publish sv (t_status (fst ge)) (scratch (fst ge)) (jw_len w) True ge;
     Some ge
   }"

definition publish_ptp :: "'e services \<Rightarrow> 'e mqtt_state \<Rightarrow> 'e mqtt_state ub" where
  "publish_ptp sv ge =
    (case ge of (g, e) \<Rightarrow> do {
       let (n, b, e) = fm_plat_ptp_json sv (scratch g) REPLY_MAX e;
       let g = g\<lparr>scratch := b\<rparr>;
       if n > 0 then map_option snd (publish sv (t_ptp g) (scratch g) n False (g, e)) else Some (g, e)
     })"

definition publish_stats :: "'e services \<Rightarrow> 'e mqtt_state \<Rightarrow> 'e mqtt_state ub" where
  "publish_stats sv ge =
    (case ge of (g, e) \<Rightarrow> do {
       let (n, b, e) = fm_plat_stats_json sv (scratch g) REPLY_MAX e;
       let g = g\<lparr>scratch := b\<rparr>;
       if n > 0 then map_option snd (publish sv (t_stats g) (scratch g) n False (g, e)) else Some (g, e)
     })"

section \<open>Commands\<close>

fun same_chars :: "char list \<Rightarrow> string \<Rightarrow> bool" where
  "same_chars a [] = True"
| "same_chars [] (y # ys) = False"
| "same_chars (x # xs) (y # ys) = (x = y \<and> same_chars xs ys)"

definition word_eq :: "char list \<Rightarrow> nat \<Rightarrow> string \<Rightarrow> bool" where
  "word_eq a alen b = (if alen \<noteq> length b then False else same_chars a b)"

text \<open>A two-member reply object, written into the reply buffer.\<close>

definition set_reply_simple :: "string \<Rightarrow> string \<Rightarrow> string \<Rightarrow> FlintMqtt \<Rightarrow> FlintMqtt ub" where
  "set_reply_simple cmd k v g = do {
     w \<leftarrow> jw_init (reply g) REPLY_MAX;
     w \<leftarrow> jw_obj_open w;
     w \<leftarrow> jw_str (Some ''cmd'') cmd w;
     w \<leftarrow> jw_str (Some k) v w;
     w \<leftarrow> jw_obj_close w;
     Some (g\<lparr>reply := buf w\<rparr>)
   }"

definition is_blank :: "char \<Rightarrow> bool" where
  "is_blank c \<longleftrightarrow> c = CHR 0x20 \<or> c = CHR 0x0A \<or> c = CHR 0x0D \<or> c = CHR 0x09"

function trim_front :: "char list \<Rightarrow> nat \<Rightarrow> nat \<Rightarrow> nat" where
  "trim_front p s e = (if s < e \<and> is_blank (p ! s) then trim_front p (s + 1) e else s)"
  by pat_completeness auto

termination
  by (relation "measure (\<lambda>(p, s, e). e - s)") auto

fun trim_back :: "char list \<Rightarrow> nat \<Rightarrow> nat \<Rightarrow> nat" where
  "trim_back p s e = (if e > s \<and> is_blank (p ! (e - 1)) then trim_back p s (e - 1) else e)"

declare trim_front.simps [simp del] trim_back.simps [simp del]

text \<open>The command word as copied into the local array of 48 characters, without its terminator.\<close>

definition read_command :: "char list \<Rightarrow> string" where
  "read_command p =
     (let s = trim_front p 0 (length p);
          e = trim_back p s (length p);
          n = (if e - s < 48 - 1 then e - s else 48 - 1)
      in map (\<lambda>i. p ! (s + i)) [0..<n])"

definition find_space :: "string \<Rightarrow> nat" where
  "find_space cmd = length (takeWhile (\<lambda>c. c \<noteq> CHR 0x20) cmd)"

definition led_command ::
  "'e services \<Rightarrow> string \<Rightarrow> nat \<Rightarrow> 'e mqtt_state \<Rightarrow> 'e mqtt_state ub" where
  "led_command sv cmd sp ge =
    (case ge of (g, e) \<Rightarrow> do {
       let arg = drop (sp + 1) cmd;
       let al = length cmd - sp - 1;
       let (r, e) = (if word_eq arg al ''on'' then fm_plat_led sv 1 e
                     else if word_eq arg al ''off'' then fm_plat_led sv 0 e
                     else if word_eq arg al ''toggle'' then fm_plat_led sv (- 1) e
                     else (- 2, e));
       g \<leftarrow> (if r = - 2 then set_reply_simple (cstr cmd) ''error'' ''use: led on|off|toggle'' g
             else set_reply_simple (cstr cmd) ''led'' (if r \<noteq> 0 then ''on'' else ''off'') g);
       Some (g, e)
     })"

definition uptime_command :: "'e services \<Rightarrow> string \<Rightarrow> 'e mqtt_state \<Rightarrow> 'e mqtt_state ub" where
  "uptime_command sv cmd ge =
    (case ge of (g, e) \<Rightarrow> do {
       w \<leftarrow> jw_init (reply g) REPLY_MAX;
       w \<leftarrow> jw_obj_open w;
       w \<leftarrow> jw_str (Some ''cmd'') (cstr cmd) w;
       let (t, e) = now_ms sv e;
       w \<leftarrow> jw_u32 (Some ''uptime_s'') ((t - boot_ms g) div 1000) w;
       w \<leftarrow> jw_obj_close w;
       Some (g\<lparr>reply := buf w\<rparr>, e)
     })"

text \<open>A command answered by a platform report, with a fallback when there is none.\<close>

definition report_command :: "(nat \<times> char list \<times> 'e) \<Rightarrow> string \<Rightarrow> string \<Rightarrow> FlintMqtt \<Rightarrow> 'e mqtt_state ub" where
  "report_command rep cmd missing g = do {
     let (n, b, e) = rep;
     let g = g\<lparr>reply := b\<rparr>;
     g \<leftarrow> (if n = 0 then set_reply_simple (cstr cmd) ''error'' missing g else Some g);
     Some (g, e)
   }"

definition run_command :: "'e services \<Rightarrow> string \<Rightarrow> 'e mqtt_state \<Rightarrow> 'e mqtt_state ub" where
  "run_command sv cmd ge =
    (case ge of (g, e) \<Rightarrow>
       let n = length cmd; sp = find_space cmd;
           simple = (\<lambda>k v. map_option (\<lambda>g. (g, e)) (set_reply_simple (cstr cmd) k v g))
       in if word_eq cmd n ''ping'' then simple ''reply'' ''pong''
          else if word_eq cmd n ''uptime'' then uptime_command sv cmd (g, e)
          else if word_eq cmd n ''stats'' then report_command (fm_plat_stats_json sv (reply g) REPLY_MAX e) cmd ''unavailable'' g
          else if word_eq cmd n ''ptp'' then report_command (fm_plat_ptp_json sv (reply g) REPLY_MAX e) cmd ''PTP not running'' g
          else if word_eq cmd sp ''led'' \<and> sp < n then led_command sv cmd sp (g, e)
          else if word_eq cmd n ''help'' then simple ''commands'' ''ping, uptime, stats, ptp, led on|off|toggle, help''
          else simple ''error'' ''unknown command (try: help)'')"

definition handle_command :: "'e services \<Rightarrow> char list \<Rightarrow> 'e mqtt_state \<Rightarrow> 'e mqtt_state ub" where
  "handle_command sv p ge =
    (case ge of (g, e) \<Rightarrow> do {
       let cmd = read_command p;
       let g = g\<lparr>st := (st g)\<lparr>commands := commands (st g) + 1\<rparr>\<rparr>;
       e \<leftarrow> logf2 sv ''cmd: '' (Some (cstr cmd)) e;
       (g, e) \<leftarrow> run_command sv cmd (g, e);
       Some (g\<lparr>reply_pending := True\<rparr>, e)
     })"

definition topic_is :: "MQTTPublishInfo_t \<Rightarrow> char list \<Rightarrow> bool" where
  "topic_is pi topic = word_eq (pTopicName pi) (unat (topicNameLength pi)) (cstr topic)"

definition on_event :: "'e services \<Rightarrow> mqtt_event \<Rightarrow> 'e mqtt_state \<Rightarrow> 'e mqtt_state ub" where
  "on_event sv ev ge =
    (case ge of (g, e) \<Rightarrow>
      if ev_type ev AND 0xF0 = MQTT_PACKET_TYPE_PUBLISH sv \<and> ev_publish ev \<noteq> None
      then (let pi = the (ev_publish ev)
            in if topic_is pi (t_cmd g) then handle_command sv (pPayload pi) (g, e) else Some (g, e))
      else if ev_type ev = MQTT_PACKET_TYPE_SUBACK sv
      then map_option (\<lambda>e. (g, e)) (logf2 sv ''subscribed to '' (Some (cstr (t_cmd g))) e)
      else Some (g, e))"

fun on_events :: "'e services \<Rightarrow> mqtt_event list \<Rightarrow> 'e mqtt_state \<Rightarrow> 'e mqtt_state ub" where
  "on_events sv [] ge = Some ge"
| "on_events sv (ev # evs) ge = on_event sv ev ge \<bind> on_events sv evs"

section \<open>Connection management\<close>

definition next_backoff :: "u32 \<Rightarrow> u32" where
  "next_backoff b = (if b * 2 > BACKOFF_MAX_MS then BACKOFF_MAX_MS else b * 2)"

definition drop_conn :: "'e services \<Rightarrow> string \<Rightarrow> 'e mqtt_state \<Rightarrow> 'e mqtt_state ub" where
  "drop_conn sv why ge =
    (case ge of (g, e) \<Rightarrow> do {
       e \<leftarrow> (if connected g then logf2 sv ''connection lost: '' (Some why) e else Some e);
       let g = g\<lparr>connected := False\<rparr>;
       let e = mqtt_transport_close sv e;
       let (t, e) = now_ms sv e;
       let g = g\<lparr>next_attempt_ms := t + backoff_ms g\<rparr>;
       Some (g\<lparr>backoff_ms := next_backoff (backoff_ms g)\<rparr>, e)
     })"

definition connect_failed :: "'e services \<Rightarrow> string \<Rightarrow> string \<Rightarrow> string \<Rightarrow> 'e mqtt_state \<Rightarrow> 'e mqtt_state ub" where
  "connect_failed sv what detail why ge =
    (case ge of (g, e) \<Rightarrow> do {
       let g = g\<lparr>st := (st g)\<lparr>connect_failures := connect_failures (st g) + 1\<rparr>\<rparr>;
       e \<leftarrow> logf2 sv what (Some detail) e;
       drop_conn sv why (g, e)
     })"

definition will_info :: "FlintMqtt \<Rightarrow> MQTTPublishInfo_t ub" where
  "will_info g = (let k_offline = ''{\"state\":\"offline\"}''
                  in publish_info (t_status g) k_offline (length k_offline) True)"

definition connect_info :: "FlintMqtt \<Rightarrow> MQTTConnectInfo_t ub" where
  "connect_info g = do {
     l \<leftarrow> fm_strlen (id_buf g);
     Some \<lparr>cleanSession = True, pClientIdentifier = cstr (id_buf g), clientIdentifierLength = of_nat l,
           keepAliveSeconds = KEEPALIVE_S\<rparr>
   }"

text \<open>What follows a successful CONNECT.\<close>

definition on_session :: "'e services \<Rightarrow> 'e mqtt_state \<Rightarrow> 'e mqtt_state ub" where
  "on_session sv ge =
    (case ge of (g, e) \<Rightarrow> do {
       let g = g\<lparr>connected := True, backoff_ms := BACKOFF_MIN_MS, st := (st g)\<lparr>connects := connects (st g) + 1\<rparr>\<rparr>;
       e \<leftarrow> logf2 sv ''connected as '' (Some (cstr (id_buf g))) e;
       l \<leftarrow> fm_strlen (t_cmd g);
       let (rc, e) = MQTT_Subscribe sv (cstr (t_cmd g)) (of_nat l) e;
       e \<leftarrow> (if rc \<noteq> MQTTSuccess then logf2 sv ''SUBSCRIBE failed: '' (Some (MQTT_Status_strerror sv rc)) e else Some e);
       (g, e) \<leftarrow> publish_status_online sv (g, e);
       e \<leftarrow> logf2 sv ''topics under flint/'' (Some (cstr (id_buf g))) e;
       let (t1, e) = now_ms sv e;
       let (t2, e) = now_ms sv e;
       Some (g\<lparr>last_ptp_ms := t1, last_stats_ms := t2 - STATS_PERIOD_MS + 2000\<rparr>, e)
     })"

definition try_connect :: "'e services \<Rightarrow> 'e mqtt_state \<Rightarrow> 'e mqtt_state ub" where
  "try_connect sv ge =
    (case ge of (g, e) \<Rightarrow> do {
       e \<leftarrow> logf2 sv ''connecting to '' (Some (cstr (host g))) e;
       let (r, e) = mqtt_transport_open sv (cstr (host g)) (broker_port g) CONNECT_TIMEOUT_MS e;
       if r \<noteq> 0 then connect_failed sv ''TCP/DNS failed: '' (mqtt_transport_error sv e) ''open'' (g, e)
       else do {
         let (rc, e) = MQTT_Init sv e;
         if rc \<noteq> MQTTSuccess then do {
           e \<leftarrow> logf2 sv ''MQTT_Init: '' (Some (MQTT_Status_strerror sv rc)) e;
           drop_conn sv ''init'' (g, e)
         }
         else do {
           ci \<leftarrow> connect_info g;
           will \<leftarrow> will_info g;
           let (rc, e) = MQTT_Connect sv ci will CONNECT_TIMEOUT_MS e;
           if rc \<noteq> MQTTSuccess
           then connect_failed sv ''CONNECT rejected/failed: '' (MQTT_Status_strerror sv rc) ''connect'' (g, e)
           else on_session sv (g, e)
         }
       }
     })"

section \<open>Entry points\<close>

definition flint_mqtt_init :: "'e services \<Rightarrow> string \<Rightarrow> string \<Rightarrow> u16 \<Rightarrow> 'e mqtt_state \<Rightarrow> 'e mqtt_state ub" where
  "flint_mqtt_init sv client_id broker_host port ge =
    (case ge of (g, e) \<Rightarrow> do {
       i \<leftarrow> fm_strlcpy 0 client_id ID_MAX (id_buf g);
       h \<leftarrow> fm_strlcpy 0 broker_host HOST_MAX (host g);
       let g = g\<lparr>id_buf := i, host := h, broker_port := port\<rparr>;
       a \<leftarrow> make_topic (t_status g) ''status'' g;
       b \<leftarrow> make_topic (t_ptp g) ''ptp'' g;
       c \<leftarrow> make_topic (t_stats g) ''stats'' g;
       d \<leftarrow> make_topic (t_cmd g) ''cmd'' g;
       r \<leftarrow> make_topic (t_reply g) ''reply'' g;
       let g = g\<lparr>t_status := a, t_ptp := b, t_stats := c, t_cmd := d, t_reply := r\<rparr>;
       let (t1, e) = now_ms sv e;
       let (t2, e) = now_ms sv e;
       let g = g\<lparr>boot_ms := t1, backoff_ms := BACKOFF_MIN_MS, next_attempt_ms := t2, connected := False, inited := True\<rparr>;
       e \<leftarrow> logf2 sv ''client id '' (Some (cstr (id_buf g))) e;
       Some (g, e)
     })"

definition send_reply :: "'e services \<Rightarrow> 'e mqtt_state \<Rightarrow> 'e mqtt_state ub" where
  "send_reply sv ge =
    (case ge of (g, e) \<Rightarrow>
       if reply_pending g then do {
         let g = g\<lparr>reply_pending := False\<rparr>;
         n \<leftarrow> fm_strlen (reply g);
         (_, ge) \<leftarrow> publish sv (t_reply g) (reply g) n False (g, e);
         Some ge
       }
       else Some (g, e))"

definition ptp_schedule :: "u32 \<Rightarrow> u32 \<Rightarrow> u32" where
  "ptp_schedule t prev = (let nxt = prev + PTP_PERIOD_MS in if t - nxt \<ge> PTP_PERIOD_MS then t else nxt)"

definition publish_due :: "'e services \<Rightarrow> 'e mqtt_state \<Rightarrow> 'e mqtt_state ub" where
  "publish_due sv ge =
    (case ge of (g, e) \<Rightarrow> do {
       let (t, e) = now_ms sv e;
       (g, e) \<leftarrow> (if t - last_ptp_ms g \<ge> PTP_PERIOD_MS
                  then publish_ptp sv (g\<lparr>last_ptp_ms := ptp_schedule t (last_ptp_ms g)\<rparr>, e)
                  else Some (g, e));
       if t - last_stats_ms g \<ge> STATS_PERIOD_MS
       then publish_stats sv (g\<lparr>last_stats_ms := t\<rparr>, e)
       else Some (g, e)
     })"

definition service_connected :: "'e services \<Rightarrow> 'e mqtt_state \<Rightarrow> 'e mqtt_state ub" where
  "service_connected sv ge =
    (case ge of (g, e) \<Rightarrow> do {
       let (rc, evs, e) = MQTT_ProcessLoop sv e;
       (g, e) \<leftarrow> on_events sv evs (g, e);
       if rc \<noteq> MQTTSuccess \<and> rc \<noteq> MQTTNeedMoreBytes then drop_conn sv (MQTT_Status_strerror sv rc) (g, e)
       else if \<not> mqtt_transport_is_up sv e then drop_conn sv (mqtt_transport_error sv e) (g, e)
       else do {
         ge \<leftarrow> send_reply sv (g, e);
         publish_due sv ge
       }
     })"

definition flint_mqtt_service :: "'e services \<Rightarrow> 'e mqtt_state \<Rightarrow> 'e mqtt_state ub" where
  "flint_mqtt_service sv ge =
    (case ge of (g, e) \<Rightarrow>
       if \<not> inited g then Some (g, e)
       else do {
         let (t, e) = now_ms sv e;
         if \<not> connected g
         then if to_i32 (uint (t - next_attempt_ms g)) \<ge> 0 then try_connect sv (g, e) else Some (g, e)
         else service_connected sv (g, e)
       })"

end
