(* ===== verification/Mqtt_Props.thy ===== *)
theory Mqtt_Props
  imports Mqtt
begin

text \<open>
  Properties of the MQTT application: with platform services that respect their buffers every
  service call returns, no buffer is overrun and the reconnection back-off stays within its limits;
  and a command is answered with the reply the header documents.
\<close>

section \<open>Well-formed state\<close>

definition mqtt_ok :: "FlintMqtt \<Rightarrow> bool" where
  "mqtt_ok g \<longleftrightarrow> arr_ok ID_MAX (id_buf g) \<and> arr_ok HOST_MAX (host g) \<and> arr_ok TOPIC_MAX (t_status g) \<and>
     arr_ok TOPIC_MAX (t_ptp g) \<and> arr_ok TOPIC_MAX (t_stats g) \<and> arr_ok TOPIC_MAX (t_cmd g) \<and>
     arr_ok TOPIC_MAX (t_reply g) \<and> arr_ok REPLY_MAX (reply g) \<and> length (scratch g) = REPLY_MAX \<and>
     BACKOFF_MIN_MS \<le> backoff_ms g \<and> backoff_ms g \<le> BACKOFF_MAX_MS"

text \<open>
  What the application relies on: a platform report stays in the buffer it is given and leaves
  a terminated string there.
\<close>

definition report_ok :: "(char list \<Rightarrow> nat \<Rightarrow> 'e \<Rightarrow> nat \<times> char list \<times> 'e) \<Rightarrow> bool" where
  "report_ok f \<longleftrightarrow> (\<forall>b e. length b = REPLY_MAX \<longrightarrow> arr_ok REPLY_MAX (fst (snd (f b REPLY_MAX e))))"

text \<open>Strings that come from outside contain no terminator.\<close>

definition services_ok :: "'e services \<Rightarrow> bool" where
  "services_ok sv \<longleftrightarrow> report_ok (fm_plat_ptp_json sv) \<and> report_ok (fm_plat_stats_json sv) \<and>
     (\<forall>rc. NUL \<notin> set (MQTT_Status_strerror sv rc)) \<and> (\<forall>e. NUL \<notin> set (mqtt_transport_error sv e))"

text \<open>An operation that always returns and keeps the state well-formed.\<close>

definition keeps :: "('e mqtt_state \<Rightarrow> 'e mqtt_state ub) \<Rightarrow> bool" where
  "keeps f \<longleftrightarrow> (\<forall>g e. mqtt_ok g \<longrightarrow> (\<exists>g' e'. f (g, e) = Some (g', e') \<and> mqtt_ok g'))"

lemma keepsI: "(\<And>g e. mqtt_ok g \<Longrightarrow> \<exists>g' e'. f (g, e) = Some (g', e') \<and> mqtt_ok g') \<Longrightarrow> keeps f"
  by (simp add: keeps_def)

lemma keepsE:
  assumes "keeps f" "mqtt_ok g"
  obtains g' e' where "f (g, e) = Some (g', e')" "mqtt_ok g'"
  using assms unfolding keeps_def by blast

lemma logf2_ok:
  assumes "NUL \<notin> set a" "\<And>s. b = Some s \<Longrightarrow> NUL \<notin> set s"
  obtains e' where "logf2 sv a b e = Some e'"
proof -
  obtain l1 where 1: "fm_strlcpy 0 ''[mqtt] '' 160 (replicate 160 NUL) = Some l1" "arr_ok 160 l1"
    by (rule strlcpy_ok [of "replicate 160 NUL" 160 "''[mqtt] ''"]) auto
  obtain l2 where 2: "fm_strlcat a 160 l1 = Some l2" "arr_ok 160 l2" by (rule strlcat_ok [OF 1(2) assms(1)])
  show ?thesis
  proof (cases b)
    case None
    with 1 2 show ?thesis by (intro that) (simp add: logf2_def)
  next
    case (Some s)
    obtain l3 where "fm_strlcat s 160 l2 = Some l3" by (rule strlcat_ok [OF 2(2) assms(2) [OF Some]])
    with 1 2 Some show ?thesis by (intro that) (simp add: logf2_def)
  qed
qed

lemma logf2_Some: "NUL \<notin> set a \<Longrightarrow> NUL \<notin> set s \<Longrightarrow> \<exists>e'. logf2 sv a (Some s) e = Some e'"
  using logf2_ok [of a "Some s" sv e] by blast

section \<open>Replies\<close>

lemma simple_calls: "set_reply_simple cmd k v g =
  map_option (\<lambda>w. g\<lparr>reply := buf w\<rparr>) (jw_init (reply g) REPLY_MAX \<bind> jw_all [ObjOpen, Str (Some ''cmd'') cmd, Str (Some k) v, ObjClose])"
  by (cases "jw_init (reply g) REPLY_MAX") (auto simp: set_reply_simple_def map_option_case split: option.splits bind_splits)

lemma calls_reply:
  assumes "length b = REPLY_MAX" "\<forall>c \<in> set cs. call_ok c"
  obtains w where "(jw_init b REPLY_MAX \<bind> jw_all cs) = Some w" "arr_ok REPLY_MAX (buf w)"
    "cstr (buf w) = take (REPLY_MAX - 1) (json_text False cs)"
proof -
  obtain w where w: "(jw_init b REPLY_MAX \<bind> jw_all cs) = Some w" "holds (json_text False cs) w" "cap w = REPLY_MAX"
    "length (buf w) = length b" by (rule jw_calls_hold [of REPLY_MAX b cs]) (use assms in auto)
  moreover have "0 < REPLY_MAX" by (simp add: REPLY_MAX_def)
  ultimately show ?thesis using holds_cstr [OF w(2)] assms(1) by (intro that [of w]) (auto simp: arr_ok_def)
qed

lemma set_reply_simple_ok:
  assumes "mqtt_ok g"
  obtains r where "set_reply_simple cmd k v g = Some (g\<lparr>reply := r\<rparr>)" "mqtt_ok (g\<lparr>reply := r\<rparr>)"
    "cstr r = take (REPLY_MAX - 1) (json_text False [ObjOpen, Str (Some ''cmd'') cmd, Str (Some k) v, ObjClose])"
proof -
  let ?cs = "[ObjOpen, Str (Some ''cmd'') cmd, Str (Some k) v, ObjClose]"
  obtain w where "(jw_init (reply g) REPLY_MAX \<bind> jw_all ?cs) = Some w" "arr_ok REPLY_MAX (buf w)"
    "cstr (buf w) = take (REPLY_MAX - 1) (json_text False ?cs)"
    by (rule calls_reply [of "reply g" ?cs]) (use assms in \<open>auto simp: mqtt_ok_def arr_ok_def\<close>)
  then show ?thesis using assms by (intro that [of "buf w"]) (auto simp: simple_calls mqtt_ok_def simp del: jw_all.simps)
qed

lemma uptime_calls: "uptime_command sv cmd (g, e) =
  (let (t, e') = now_ms sv e in
   map_option (\<lambda>w. (g\<lparr>reply := buf w\<rparr>, e'))
     (jw_init (reply g) REPLY_MAX \<bind> jw_all [ObjOpen, Str (Some ''cmd'') (cstr cmd), U32 (Some ''uptime_s'') ((t - boot_ms g) div 1000), ObjClose]))"
  by (cases "now_ms sv e"; cases "jw_init (reply g) REPLY_MAX")
     (auto simp: uptime_command_def map_option_case split: option.splits bind_splits)

lemma keeps_reply: "mqtt_ok g \<Longrightarrow> arr_ok REPLY_MAX r \<Longrightarrow> mqtt_ok (g\<lparr>reply := r\<rparr>)"
  by (simp add: mqtt_ok_def)

lemma uptime_command_keeps: "keeps (uptime_command sv cmd)"
proof (rule keepsI)
  fix g :: FlintMqtt and e assume g: "mqtt_ok g"
  obtain t e' where t: "now_ms sv e = (t, e')" by force
  let ?cs = "[ObjOpen, Str (Some ''cmd'') (cstr cmd), U32 (Some ''uptime_s'') ((t - boot_ms g) div 1000), ObjClose]"
  obtain w where "(jw_init (reply g) REPLY_MAX \<bind> jw_all ?cs) = Some w" "arr_ok REPLY_MAX (buf w)"
    by (rule calls_reply [of "reply g" ?cs]) (use g in \<open>auto simp: mqtt_ok_def arr_ok_def\<close>)
  then show "\<exists>g' e'. uptime_command sv cmd (g, e) = Some (g', e') \<and> mqtt_ok g'"
    using t keeps_reply [OF g] by (simp add: uptime_calls del: jw_all.simps)
qed

lemma simple_keeps: "mqtt_ok g \<Longrightarrow> \<exists>g' e'. map_option (\<lambda>g. (g, e)) (set_reply_simple cmd k v g) = Some (g', e') \<and> mqtt_ok g'"
  using set_reply_simple_ok [of g cmd k v] by fastforce

lemma report_command_keeps:
  assumes "report_ok f" "mqtt_ok g"
  shows "\<exists>g' e'. report_command (f (reply g) REPLY_MAX e) cmd m g = Some (g', e') \<and> mqtt_ok g'"
proof -
  obtain n b e' where f: "f (reply g) REPLY_MAX e = (n, b, e')" by (metis prod_cases3)
  have "length (reply g) = REPLY_MAX" using assms(2) by (simp add: mqtt_ok_def arr_ok_def)
  with assms(1) have "arr_ok REPLY_MAX (fst (snd (f (reply g) REPLY_MAX e)))" by (simp add: report_ok_def)
  then have b: "mqtt_ok (g\<lparr>reply := b\<rparr>)" using assms(2) f by (simp add: keeps_reply)
  obtain g2 where "set_reply_simple (cstr cmd) ''error'' m (g\<lparr>reply := b\<rparr>) = Some g2" "mqtt_ok g2"
    by (rule set_reply_simple_ok [OF b])
  then show ?thesis using f b by (cases "n = 0") (simp_all add: report_command_def Let_def)
qed

lemma led_command_keeps: "keeps (led_command sv cmd sp)"
proof (rule keepsI)
  fix g :: FlintMqtt and e assume g: "mqtt_ok g"
  let ?arg = "drop (sp + 1) cmd" and ?al = "length cmd - sp - 1"
  obtain r e' where r: "(if word_eq ?arg ?al ''on'' then fm_plat_led sv 1 e
     else if word_eq ?arg ?al ''off'' then fm_plat_led sv 0 e
     else if word_eq ?arg ?al ''toggle'' then fm_plat_led sv (- 1) e else (- 2, e)) = (r, e')" by force
  obtain g1 where 1: "set_reply_simple (cstr cmd) ''error'' ''use: led on|off|toggle'' g = Some g1" "mqtt_ok g1"
    by (rule set_reply_simple_ok [OF g])
  obtain g2 where 2: "set_reply_simple (cstr cmd) ''led'' (if r \<noteq> 0 then ''on'' else ''off'') g = Some g2" "mqtt_ok g2"
    by (rule set_reply_simple_ok [OF g])
  show "\<exists>g' e'. led_command sv cmd sp (g, e) = Some (g', e') \<and> mqtt_ok g'"
    unfolding led_command_def Let_def prod.case r using 1 2 by (cases "r = - 2") auto
qed

text \<open>The result of an operation that returned with a well-formed state.\<close>

definition returns :: "'e mqtt_state ub \<Rightarrow> bool" where
  "returns x \<longleftrightarrow> (\<exists>g e. x = Some (g, e) \<and> mqtt_ok g)"

lemma returns_if: "returns a \<Longrightarrow> returns b \<Longrightarrow> returns (if c then a else b)"
  by simp

lemma keeps_returns: "keeps f \<Longrightarrow> mqtt_ok g \<Longrightarrow> returns (f (g, e))"
  by (simp add: keeps_def returns_def)

lemma run_command_keeps:
  fixes sv :: "'e services"
  assumes "services_ok sv"
  shows "keeps (run_command sv cmd)"
proof (rule keepsI)
  fix g :: FlintMqtt and e :: 'e assume g: "mqtt_ok g"
  have r: "report_ok (fm_plat_stats_json sv)" "report_ok (fm_plat_ptp_json sv)" using assms by (auto simp: services_ok_def)
  have simple: "returns (map_option (\<lambda>g. (g, e)) (set_reply_simple (cstr cmd) k v g))" for k v
    using simple_keeps [OF g, of e "cstr cmd" k v] by (auto simp: returns_def)
  have rep: "returns (report_command (fm_plat_stats_json sv (reply g) REPLY_MAX e) cmd m g)"
    "returns (report_command (fm_plat_ptp_json sv (reply g) REPLY_MAX e) cmd m g)" for m
    using report_command_keeps [OF r(1) g, of e cmd m] report_command_keeps [OF r(2) g, of e cmd m] by (auto simp: returns_def)
  have "returns (run_command sv cmd (g, e))"
    unfolding run_command_def Let_def prod.case
    by (intro returns_if simple rep keeps_returns [OF uptime_command_keeps g] keeps_returns [OF led_command_keeps g])
  then show "\<exists>g' e'. run_command sv cmd (g, e) = Some (g', e') \<and> mqtt_ok g'" by (auto simp: returns_def)
qed

lemma handle_command_keeps:
  assumes "services_ok sv"
  shows "keeps (handle_command sv p)"
proof (rule keepsI)
  fix g :: FlintMqtt and e assume g: "mqtt_ok g"
  let ?g = "g\<lparr>st := (st g)\<lparr>commands := commands (st g) + 1\<rparr>\<rparr>"
  have ok: "mqtt_ok ?g" using g by (simp add: mqtt_ok_def)
  obtain e1 where 1: "logf2 sv ''cmd: '' (Some (cstr (read_command p))) e = Some e1"
    using logf2_Some [of "''cmd: ''" "cstr (read_command p)" sv e] by auto
  obtain g2 e2 where "run_command sv (read_command p) (?g, e1) = Some (g2, e2)" "mqtt_ok g2"
    by (rule keepsE [OF run_command_keeps [OF assms] ok])
  with 1 show "\<exists>g' e'. handle_command sv p (g, e) = Some (g', e') \<and> mqtt_ok g'"
    by (simp add: handle_command_def mqtt_ok_def)
qed

lemma on_event_keeps:
  assumes "services_ok sv"
  shows "keeps (on_event sv ev)"
proof (rule keepsI)
  fix g :: FlintMqtt and e assume g: "mqtt_ok g"
  obtain e1 where 1: "logf2 sv ''subscribed to '' (Some (cstr (t_cmd g))) e = Some e1"
    using logf2_Some [of "''subscribed to ''" "cstr (t_cmd g)" sv e] by auto
  obtain g2 e2 where 2: "handle_command sv (pPayload (the (ev_publish ev))) (g, e) = Some (g2, e2)" "mqtt_ok g2"
    by (rule keepsE [OF handle_command_keeps [OF assms] g])
  show "\<exists>g' e'. on_event sv ev (g, e) = Some (g', e') \<and> mqtt_ok g'"
    using g 1 2 by (simp add: on_event_def Let_def)
qed

lemma on_events_keeps:
  assumes "services_ok sv"
  shows "keeps (on_events sv evs)"
proof (induction evs)
  case (Cons ev evs)
  show ?case
  proof (rule keepsI)
    fix g :: FlintMqtt and e assume g: "mqtt_ok g"
    obtain g1 e1 where 1: "on_event sv ev (g, e) = Some (g1, e1)" "mqtt_ok g1"
      by (rule keepsE [OF on_event_keeps [OF assms] g])
    obtain g2 e2 where "on_events sv evs (g1, e1) = Some (g2, e2)" "mqtt_ok g2"
      by (rule keepsE [OF Cons 1(2)])
    with 1 show "\<exists>g' e'. on_events sv (ev # evs) (g, e) = Some (g', e') \<and> mqtt_ok g'" by simp
  qed
qed (simp add: keeps_def)

section \<open>Publishing\<close>

lemma publish_info_ok: "arr_ok n topic \<Longrightarrow> \<exists>pi. publish_info topic payload l r = Some pi"
  by (simp add: publish_info_def arr_ok_def fm_strlen_cstr)

lemma publish_keeps:
  assumes "services_ok sv" "mqtt_ok g" "arr_ok n topic"
  obtains b g' e' where "publish sv topic payload l r (g, e) = Some (b, g', e')" "mqtt_ok g'" "reply_pending g' = reply_pending g"
proof (cases "connected g")
  case False
  then show ?thesis using assms(2) by (intro that [of False g e]) (simp_all add: publish_def)
next
  case True
  obtain pi where pi: "publish_info topic payload l r = Some pi" using publish_info_ok [OF assms(3)] by blast
  obtain rc e1 where rc: "MQTT_Publish sv pi e = (rc, e1)" by force
  obtain e2 where e2: "logf2 sv ''publish failed: '' (Some (MQTT_Status_strerror sv rc)) e1 = Some e2"
    using logf2_Some [of "''publish failed: ''" "MQTT_Status_strerror sv rc" sv e1] assms(1) by (auto simp: services_ok_def)
  show ?thesis
  proof (cases "rc = MQTTSuccess")
    case ok: True
    show ?thesis
      using True pi rc ok assms(2)
      by (intro that [of True "g\<lparr>st := (st g)\<lparr>published := published (st g) + 1\<rparr>\<rparr>" e1]) (simp_all add: publish_def mqtt_ok_def)
  next
    case False
    then show ?thesis using True pi rc e2 assms(2) by (intro that [of False g e2]) (simp_all add: publish_def)
  qed
qed

lemma status_calls: "build_status sv state (g, e) =
  (let (t, e') = now_ms sv e in
   map_option (\<lambda>w. (w, g\<lparr>scratch := buf w\<rparr>, e'))
     (jw_init (scratch g) REPLY_MAX \<bind> jw_all [ObjOpen, Str (Some ''state'') state, Str (Some ''id'') (cstr (id_buf g)),
        Str (Some ''ip'') (fm_plat_ip sv e), Str (Some ''fw'') ''FlintRTOS / lwIP 2.2.0 / coreMQTT 2.3.1'',
        U32 (Some ''uptime_s'') ((t - boot_ms g) div 1000), ObjClose]))"
  by (cases "now_ms sv e"; cases "jw_init (scratch g) REPLY_MAX")
     (auto simp: build_status_def map_option_case split: option.splits bind_splits)

lemma publish_status_keeps:
  assumes "services_ok sv"
  shows "keeps (publish_status_online sv)"
proof (rule keepsI)
  fix g :: FlintMqtt and e assume g: "mqtt_ok g"
  obtain t e' where t: "now_ms sv e = (t, e')" by force
  let ?cs = "[ObjOpen, Str (Some ''state'') ''online'', Str (Some ''id'') (cstr (id_buf g)),
        Str (Some ''ip'') (fm_plat_ip sv e), Str (Some ''fw'') ''FlintRTOS / lwIP 2.2.0 / coreMQTT 2.3.1'',
        U32 (Some ''uptime_s'') ((t - boot_ms g) div 1000), ObjClose]"
  obtain w where w: "(jw_init (scratch g) REPLY_MAX \<bind> jw_all ?cs) = Some w" "arr_ok REPLY_MAX (buf w)"
    by (rule calls_reply [of "scratch g" ?cs]) (use g in \<open>auto simp: mqtt_ok_def\<close>)
  let ?g = "g\<lparr>scratch := buf w\<rparr>"
  have ok: "mqtt_ok ?g" "arr_ok TOPIC_MAX (t_status ?g)" using g w(2) by (auto simp: mqtt_ok_def arr_ok_def)
  obtain b g2 e2 where "publish sv (t_status ?g) (scratch ?g) (jw_len w) True (?g, e') = Some (b, g2, e2)" "mqtt_ok g2"
    by (rule publish_keeps [OF assms ok])
  with w t show "\<exists>g' e'. publish_status_online sv (g, e) = Some (g', e') \<and> mqtt_ok g'"
    by (simp add: publish_status_online_def status_calls del: jw_all.simps)
qed

lemma report_publish_keeps:
  assumes "services_ok sv" "report_ok f" "mqtt_ok g" "arr_ok TOPIC_MAX topic"
  shows "\<exists>g' e'. (let (n, b, e) = f (scratch g) REPLY_MAX e; g = g\<lparr>scratch := b\<rparr>
     in if n > 0 then map_option snd (publish sv topic (scratch g) n False (g, e)) else Some (g, e)) = Some (g', e') \<and> mqtt_ok g'"
proof -
  obtain n b e' where f: "f (scratch g) REPLY_MAX e = (n, b, e')" by (metis prod_cases3)
  have "length (scratch g) = REPLY_MAX" using assms(3) by (simp add: mqtt_ok_def)
  with assms(2) have "arr_ok REPLY_MAX (fst (snd (f (scratch g) REPLY_MAX e)))" by (simp add: report_ok_def)
  then have ok: "mqtt_ok (g\<lparr>scratch := b\<rparr>)" using assms(3) f by (simp add: mqtt_ok_def arr_ok_def)
  obtain r g2 e2 where "publish sv topic b n False (g\<lparr>scratch := b\<rparr>, e') = Some (r, g2, e2)" "mqtt_ok g2"
    by (rule publish_keeps [OF assms(1) ok assms(4)])
  then show ?thesis using f ok by (cases "n > 0") simp_all
qed

lemma publish_ptp_keeps:
  assumes "services_ok sv"
  shows "keeps (publish_ptp sv)"
proof (rule keepsI)
  fix g :: FlintMqtt and e assume g: "mqtt_ok g"
  have "report_ok (fm_plat_ptp_json sv)" "arr_ok TOPIC_MAX (t_ptp g)" using assms g by (auto simp: services_ok_def mqtt_ok_def)
  note r = report_publish_keeps [OF assms this(1) g this(2), of e]
  obtain n b e' where f: "fm_plat_ptp_json sv (scratch g) REPLY_MAX e = (n, b, e')" by (metis prod_cases3)
  show "\<exists>g' e'. publish_ptp sv (g, e) = Some (g', e') \<and> mqtt_ok g'"
    using r f by (cases "0 < n") (simp_all add: publish_ptp_def)
qed

lemma publish_stats_keeps:
  assumes "services_ok sv"
  shows "keeps (publish_stats sv)"
proof (rule keepsI)
  fix g :: FlintMqtt and e assume g: "mqtt_ok g"
  have "report_ok (fm_plat_stats_json sv)" "arr_ok TOPIC_MAX (t_stats g)" using assms g by (auto simp: services_ok_def mqtt_ok_def)
  note r = report_publish_keeps [OF assms this(1) g this(2), of e]
  obtain n b e' where f: "fm_plat_stats_json sv (scratch g) REPLY_MAX e = (n, b, e')" by (metis prod_cases3)
  show "\<exists>g' e'. publish_stats sv (g, e) = Some (g', e') \<and> mqtt_ok g'"
    using r f by (cases "0 < n") (simp_all add: publish_stats_def)
qed

section \<open>Connection\<close>

lemma next_backoff_bounds:
  assumes "BACKOFF_MIN_MS \<le> b" "b \<le> BACKOFF_MAX_MS"
  shows "BACKOFF_MIN_MS \<le> next_backoff b" "next_backoff b \<le> BACKOFF_MAX_MS" "b \<le> next_backoff b"
proof -
  have u: "2000 \<le> unat b" "unat b \<le> 60000" using assms by (auto simp: BACKOFF_MIN_MS_def BACKOFF_MAX_MS_def word_le_nat_alt)
  then have d: "unat (b * 2) = 2 * unat b" by (simp add: unat_word_ariths)
  then show "BACKOFF_MIN_MS \<le> next_backoff b" "next_backoff b \<le> BACKOFF_MAX_MS" "b \<le> next_backoff b"
    using u by (simp_all add: next_backoff_def BACKOFF_MIN_MS_def BACKOFF_MAX_MS_def word_le_nat_alt word_less_nat_alt)
qed

lemma drop_conn_keeps:
  assumes "NUL \<notin> set why"
  shows "keeps (drop_conn sv why)"
proof (rule keepsI)
  fix g :: FlintMqtt and e assume g: "mqtt_ok g"
  obtain e1 where 1: "(if connected g then logf2 sv ''connection lost: '' (Some why) e else Some e) = Some e1"
    using logf2_Some [of "''connection lost: ''" why sv e] assms by (cases "connected g") auto
  obtain t e2 where 2: "now_ms sv (mqtt_transport_close sv e1) = (t, e2)" by force
  show "\<exists>g' e'. drop_conn sv why (g, e) = Some (g', e') \<and> mqtt_ok g'"
    using g 1 2 next_backoff_bounds [of "backoff_ms g"] by (simp add: drop_conn_def mqtt_ok_def)
qed

lemma connect_failed_keeps:
  assumes "NUL \<notin> set what" "NUL \<notin> set detail" "NUL \<notin> set why"
  shows "keeps (connect_failed sv what detail why)"
proof (rule keepsI)
  fix g :: FlintMqtt and e assume g: "mqtt_ok g"
  let ?g = "g\<lparr>st := (st g)\<lparr>connect_failures := connect_failures (st g) + 1\<rparr>\<rparr>"
  have ok: "mqtt_ok ?g" using g by (simp add: mqtt_ok_def)
  obtain e1 where 1: "logf2 sv what (Some detail) e = Some e1" using logf2_Some [OF assms(1,2), of sv e] by blast
  obtain g2 e2 where "drop_conn sv why (?g, e1) = Some (g2, e2)" "mqtt_ok g2" by (rule keepsE [OF drop_conn_keeps [OF assms(3)] ok])
  with 1 show "\<exists>g' e'. connect_failed sv what detail why (g, e) = Some (g', e') \<and> mqtt_ok g'" by (simp add: connect_failed_def)
qed

lemma on_session_keeps:
  assumes "services_ok sv"
  shows "keeps (on_session sv)"
proof (rule keepsI)
  fix g :: FlintMqtt and e assume g: "mqtt_ok g"
  let ?g = "g\<lparr>connected := True, backoff_ms := BACKOFF_MIN_MS, st := (st g)\<lparr>connects := connects (st g) + 1\<rparr>\<rparr>"
  have ok: "mqtt_ok ?g" using g by (simp add: mqtt_ok_def BACKOFF_MIN_MS_def BACKOFF_MAX_MS_def)
  obtain e1 where 1: "logf2 sv ''connected as '' (Some (cstr (id_buf g))) e = Some e1"
    using logf2_Some [of "''connected as ''" "cstr (id_buf g)" sv e] by auto
  obtain l where l: "fm_strlen (t_cmd g) = Some l" using g by (auto simp: mqtt_ok_def arr_ok_def fm_strlen_cstr)
  obtain rc e2 where 2: "MQTT_Subscribe sv (cstr (t_cmd g)) (of_nat l) e1 = (rc, e2)" by force
  obtain e3 where 3: "(if rc \<noteq> MQTTSuccess then logf2 sv ''SUBSCRIBE failed: '' (Some (MQTT_Status_strerror sv rc)) e2 else Some e2) = Some e3"
    using logf2_Some [of "''SUBSCRIBE failed: ''" "MQTT_Status_strerror sv rc" sv e2] assms
    by (cases "rc = MQTTSuccess") (auto simp: services_ok_def)
  obtain g4 e4 where 4: "publish_status_online sv (?g, e3) = Some (g4, e4)" "mqtt_ok g4"
    by (rule keepsE [OF publish_status_keeps [OF assms] ok])
  obtain e5 where 5: "logf2 sv ''topics under flint/'' (Some (cstr (id_buf g4))) e4 = Some e5"
    using logf2_Some [of "''topics under flint/''" "cstr (id_buf g4)" sv e4] by auto
  obtain t1 e6 where 6: "now_ms sv e5 = (t1, e6)" by force
  obtain t2 e7 where 7: "now_ms sv e6 = (t2, e7)" by force
  show "\<exists>g' e'. on_session sv (g, e) = Some (g', e') \<and> mqtt_ok g'"
    using 1 2 3 4 5 6 7 l by (simp add: on_session_def mqtt_ok_def)
qed

lemma connect_info_ok: "mqtt_ok g \<Longrightarrow> \<exists>ci. connect_info g = Some ci"
  by (simp add: connect_info_def mqtt_ok_def arr_ok_def fm_strlen_cstr)

lemma will_info_ok: "mqtt_ok g \<Longrightarrow> \<exists>wi. will_info g = Some wi"
  unfolding will_info_def Let_def mqtt_ok_def using publish_info_ok by blast

lemma try_connect_keeps:
  assumes "services_ok sv"
  shows "keeps (try_connect sv)"
proof (rule keepsI)
  fix g :: FlintMqtt and e assume g: "mqtt_ok g"
  have sv: "\<And>rc. NUL \<notin> set (MQTT_Status_strerror sv rc)" "\<And>e. NUL \<notin> set (mqtt_transport_error sv e)"
    using assms by (auto simp: services_ok_def)
  obtain e1 where 1: "logf2 sv ''connecting to '' (Some (cstr (host g))) e = Some e1"
    using logf2_Some [of "''connecting to ''" "cstr (host g)" sv e] by auto
  obtain r e2 where 2: "mqtt_transport_open sv (cstr (host g)) (broker_port g) CONNECT_TIMEOUT_MS e1 = (r, e2)" by force
  obtain ga ea where a: "connect_failed sv ''TCP/DNS failed: '' (mqtt_transport_error sv e2) ''open'' (g, e2) = Some (ga, ea)" "mqtt_ok ga"
    using keepsE [OF connect_failed_keeps [of "''TCP/DNS failed: ''" "mqtt_transport_error sv e2" "''open''" sv] g] sv by auto
  obtain rc e3 where 3: "MQTT_Init sv e2 = (rc, e3)" by force
  obtain e4 where 4: "logf2 sv ''MQTT_Init: '' (Some (MQTT_Status_strerror sv rc)) e3 = Some e4"
    using logf2_Some [of "''MQTT_Init: ''" "MQTT_Status_strerror sv rc" sv e3] sv by auto
  have "keeps (drop_conn sv ''init'')" by (rule drop_conn_keeps) simp
  from keepsE [OF this g] obtain gb eb where b: "drop_conn sv ''init'' (g, e4) = Some (gb, eb)" "mqtt_ok gb" .
  obtain ci where ci: "connect_info g = Some ci" using connect_info_ok [OF g] by blast
  obtain wi where wi: "will_info g = Some wi" using will_info_ok [OF g] by blast
  obtain rc2 e5 where 5: "MQTT_Connect sv ci wi CONNECT_TIMEOUT_MS e3 = (rc2, e5)" by force
  obtain gc ec where c: "connect_failed sv ''CONNECT rejected/failed: '' (MQTT_Status_strerror sv rc2) ''connect'' (g, e5) = Some (gc, ec)" "mqtt_ok gc"
    using keepsE [OF connect_failed_keeps [of "''CONNECT rejected/failed: ''" "MQTT_Status_strerror sv rc2" "''connect''" sv] g] sv by auto
  obtain gd ed where d: "on_session sv (g, e5) = Some (gd, ed)" "mqtt_ok gd"
    by (rule keepsE [OF on_session_keeps [OF assms] g])
  show "\<exists>g' e'. try_connect sv (g, e) = Some (g', e') \<and> mqtt_ok g'"
    unfolding try_connect_def Let_def
    using 1 2 3 4 5 a b c d ci wi by (cases "r = 0"; cases "rc = MQTTSuccess"; cases "rc2 = MQTTSuccess") simp_all
qed

section \<open>The service loop\<close>

lemma send_reply_keeps:
  assumes "services_ok sv"
  shows "keeps (send_reply sv)"
proof (rule keepsI)
  fix g :: FlintMqtt and e assume g: "mqtt_ok g"
  let ?g = "g\<lparr>reply_pending := False\<rparr>"
  have ok: "mqtt_ok ?g" "arr_ok TOPIC_MAX (t_reply ?g)" using g by (auto simp: mqtt_ok_def)
  obtain n where n: "fm_strlen (reply g) = Some n" using g by (auto simp: mqtt_ok_def arr_ok_def fm_strlen_cstr)
  obtain b g2 e2 where "publish sv (t_reply ?g) (reply ?g) n False (?g, e) = Some (b, g2, e2)" "mqtt_ok g2"
    by (rule publish_keeps [OF assms ok])
  with n g show "\<exists>g' e'. send_reply sv (g, e) = Some (g', e') \<and> mqtt_ok g'" by (simp add: send_reply_def)
qed

lemma publish_due_keeps:
  assumes "services_ok sv"
  shows "keeps (publish_due sv)"
proof (rule keepsI)
  fix g :: FlintMqtt and e assume g: "mqtt_ok g"
  obtain t e1 where 1: "now_ms sv e = (t, e1)" by force
  have okp: "mqtt_ok (g\<lparr>last_ptp_ms := ptp_schedule t (last_ptp_ms g)\<rparr>)" using g by (simp add: mqtt_ok_def)
  obtain gp ep where p: "publish_ptp sv (g\<lparr>last_ptp_ms := ptp_schedule t (last_ptp_ms g)\<rparr>, e1) = Some (gp, ep)" "mqtt_ok gp"
    by (rule keepsE [OF publish_ptp_keeps [OF assms] okp])
  obtain ga ea where a: "(if t - last_ptp_ms g \<ge> PTP_PERIOD_MS
      then publish_ptp sv (g\<lparr>last_ptp_ms := ptp_schedule t (last_ptp_ms g)\<rparr>, e1) else Some (g, e1)) = Some (ga, ea)" "mqtt_ok ga"
    using p g by (cases "t - last_ptp_ms g \<ge> PTP_PERIOD_MS") auto
  have oks: "mqtt_ok (ga\<lparr>last_stats_ms := t\<rparr>)" using a by (simp add: mqtt_ok_def)
  obtain gb eb where "publish_stats sv (ga\<lparr>last_stats_ms := t\<rparr>, ea) = Some (gb, eb)" "mqtt_ok gb"
    by (rule keepsE [OF publish_stats_keeps [OF assms] oks])
  with 1 a show "\<exists>g' e'. publish_due sv (g, e) = Some (g', e') \<and> mqtt_ok g'"
    unfolding publish_due_def Let_def by simp
qed

lemma service_connected_keeps:
  assumes "services_ok sv"
  shows "keeps (service_connected sv)"
proof (rule keepsI)
  fix g :: FlintMqtt and e assume g: "mqtt_ok g"
  have sv: "\<And>rc. NUL \<notin> set (MQTT_Status_strerror sv rc)" "\<And>e. NUL \<notin> set (mqtt_transport_error sv e)"
    using assms by (auto simp: services_ok_def)
  obtain rc evs e1 where 1: "MQTT_ProcessLoop sv e = (rc, evs, e1)" by (metis prod_cases3)
  obtain g2 e2 where 2: "on_events sv evs (g, e1) = Some (g2, e2)" "mqtt_ok g2" by (rule keepsE [OF on_events_keeps [OF assms] g])
  obtain ga ea where a: "drop_conn sv (MQTT_Status_strerror sv rc) (g2, e2) = Some (ga, ea)" "mqtt_ok ga"
    by (rule keepsE [OF drop_conn_keeps [OF sv(1)] 2(2)])
  obtain gb eb where b: "drop_conn sv (mqtt_transport_error sv e2) (g2, e2) = Some (gb, eb)" "mqtt_ok gb"
    by (rule keepsE [OF drop_conn_keeps [OF sv(2)] 2(2)])
  obtain gc ec where c: "send_reply sv (g2, e2) = Some (gc, ec)" "mqtt_ok gc" by (rule keepsE [OF send_reply_keeps [OF assms] 2(2)])
  obtain gd ed where d: "publish_due sv (gc, ec) = Some (gd, ed)" "mqtt_ok gd" by (rule keepsE [OF publish_due_keeps [OF assms] c(2)])
  show "\<exists>g' e'. service_connected sv (g, e) = Some (g', e') \<and> mqtt_ok g'"
    unfolding service_connected_def Let_def using 1 2 a b c d by simp
qed

lemma service_keeps:
  assumes "services_ok sv"
  shows "keeps (flint_mqtt_service sv)"
proof (rule keepsI)
  fix g :: FlintMqtt and e assume g: "mqtt_ok g"
  obtain t e1 where 1: "now_ms sv e = (t, e1)" by force
  obtain ga ea where a: "try_connect sv (g, e1) = Some (ga, ea)" "mqtt_ok ga" by (rule keepsE [OF try_connect_keeps [OF assms] g])
  obtain gb eb where b: "service_connected sv (g, e1) = Some (gb, eb)" "mqtt_ok gb" by (rule keepsE [OF service_connected_keeps [OF assms] g])
  show "\<exists>g' e'. flint_mqtt_service sv (g, e) = Some (g', e') \<and> mqtt_ok g'"
    unfolding flint_mqtt_service_def Let_def using g 1 a b by simp
qed

lemma take_take_append: "take n (take n a @ b) = take n (a @ b)"
  by (cases "n \<le> length a") auto

lemma make_topic_ok:
  assumes "length dst = TOPIC_MAX" "arr_ok ID_MAX (id_buf g)" "NUL \<notin> set leaf"
  obtains d where "make_topic dst leaf g = Some d" "arr_ok TOPIC_MAX d"
    "cstr d = take (TOPIC_MAX - 1) (''flint/'' @ cstr (id_buf g) @ ''/'' @ leaf)"
proof -
  have pos: "0 < TOPIC_MAX" by (simp add: TOPIC_MAX_def)
  have n: "NUL \<notin> set ''flint/''" "NUL \<notin> set ''/''" by simp_all
  obtain d1 where 1: "fm_strlcpy 0 ''flint/'' TOPIC_MAX dst = Some d1" "arr_ok TOPIC_MAX d1" "cstr d1 = take (TOPIC_MAX - 1) ''flint/''"
    by (rule strlcpy_ok [OF assms(1) pos n(1)])
  obtain d2 where 2: "fm_strlcat (cstr (id_buf g)) TOPIC_MAX d1 = Some d2" "arr_ok TOPIC_MAX d2"
    "cstr d2 = take (TOPIC_MAX - 1) (cstr d1 @ cstr (id_buf g))" by (rule strlcat_ok [OF 1(2) cstr_nul])
  obtain d3 where 3: "fm_strlcat ''/'' TOPIC_MAX d2 = Some d3" "arr_ok TOPIC_MAX d3"
    "cstr d3 = take (TOPIC_MAX - 1) (cstr d2 @ ''/'')" by (rule strlcat_ok [OF 2(2) n(2)])
  obtain d4 where 4: "fm_strlcat leaf TOPIC_MAX d3 = Some d4" "arr_ok TOPIC_MAX d4"
    "cstr d4 = take (TOPIC_MAX - 1) (cstr d3 @ leaf)" by (rule strlcat_ok [OF 3(2) assms(3)])
  have "cstr d4 = take (TOPIC_MAX - 1) (''flint/'' @ cstr (id_buf g) @ ''/'' @ leaf)"
  proof -
    let ?n = "TOPIC_MAX - 1"
    have "cstr d4 = take ?n ((cstr d2 @ ''/'') @ leaf)" unfolding 4(3) 3(3) by (rule take_take_append)
    also have "\<dots> = take ?n (cstr d2 @ ''/'' @ leaf)" by (simp only: append_assoc)
    also have "\<dots> = take ?n ((cstr d1 @ cstr (id_buf g)) @ ''/'' @ leaf)" unfolding 2(3) by (rule take_take_append)
    also have "\<dots> = take ?n (cstr d1 @ cstr (id_buf g) @ ''/'' @ leaf)" by (simp only: append_assoc)
    also have "\<dots> = take ?n (''flint/'' @ cstr (id_buf g) @ ''/'' @ leaf)" unfolding 1(3) by (rule take_take_append)
    finally show ?thesis .
  qed
  moreover have "make_topic dst leaf g = Some d4" using 1(1) 2(1) 3(1) 4(1) by (simp add: make_topic_def)
  ultimately show ?thesis using 4(2) by (intro that)
qed

text \<open>The static state before initialisation: every array has its size.\<close>

definition mqtt_static :: "FlintMqtt \<Rightarrow> bool" where
  "mqtt_static g \<longleftrightarrow> length (id_buf g) = ID_MAX \<and> length (host g) = HOST_MAX \<and> length (t_status g) = TOPIC_MAX \<and>
     length (t_ptp g) = TOPIC_MAX \<and> length (t_stats g) = TOPIC_MAX \<and> length (t_cmd g) = TOPIC_MAX \<and>
     length (t_reply g) = TOPIC_MAX \<and> arr_ok REPLY_MAX (reply g) \<and> length (scratch g) = REPLY_MAX"

lemma mqtt_init_ok:
  assumes "mqtt_static g" "NUL \<notin> set client" "NUL \<notin> set hostname"
  obtains g' e' where "flint_mqtt_init sv client hostname p (g, e) = Some (g', e')" "mqtt_ok g'"
    "cstr (t_cmd g') = take (TOPIC_MAX - 1) (''flint/'' @ take (ID_MAX - 1) client @ ''/cmd'')"
proof -
  note st = assms(1) [unfolded mqtt_static_def]
  obtain i where i: "fm_strlcpy 0 client ID_MAX (id_buf g) = Some i" "arr_ok ID_MAX i" "cstr i = take (ID_MAX - 1) client"
    by (rule strlcpy_ok [of "id_buf g" ID_MAX client]) (use st assms in \<open>auto simp: ID_MAX_def\<close>)
  obtain h where h: "fm_strlcpy 0 hostname HOST_MAX (host g) = Some h" "arr_ok HOST_MAX h"
    by (rule strlcpy_ok [of "host g" HOST_MAX hostname]) (use st assms in \<open>auto simp: HOST_MAX_def\<close>)
  let ?g = "g\<lparr>id_buf := i, host := h, broker_port := p\<rparr>"
  have gi: "arr_ok ID_MAX (id_buf ?g)" using i by simp
  obtain a where a: "make_topic (t_status ?g) ''status'' ?g = Some a" "arr_ok TOPIC_MAX a"
    by (rule make_topic_ok [OF _ gi, of "t_status ?g" "''status''"]) (use st in auto)
  obtain b where b: "make_topic (t_ptp ?g) ''ptp'' ?g = Some b" "arr_ok TOPIC_MAX b"
    by (rule make_topic_ok [OF _ gi, of "t_ptp ?g" "''ptp''"]) (use st in auto)
  obtain c where c: "make_topic (t_stats ?g) ''stats'' ?g = Some c" "arr_ok TOPIC_MAX c"
    by (rule make_topic_ok [OF _ gi, of "t_stats ?g" "''stats''"]) (use st in auto)
  obtain d where d: "make_topic (t_cmd ?g) ''cmd'' ?g = Some d" "arr_ok TOPIC_MAX d"
    "cstr d = take (TOPIC_MAX - 1) (''flint/'' @ cstr (id_buf ?g) @ ''/'' @ ''cmd'')"
    by (rule make_topic_ok [OF _ gi, of "t_cmd ?g" "''cmd''"]) (use st in auto)
  obtain r where r: "make_topic (t_reply ?g) ''reply'' ?g = Some r" "arr_ok TOPIC_MAX r"
    by (rule make_topic_ok [OF _ gi, of "t_reply ?g" "''reply''"]) (use st in auto)
  obtain t1 e1 where 1: "now_ms sv e = (t1, e1)" by force
  obtain t2 e2 where 2: "now_ms sv e1 = (t2, e2)" by force
  obtain e3 where 3: "logf2 sv ''client id '' (Some (cstr i)) e2 = Some e3"
    using logf2_Some [of "''client id ''" "cstr i" sv e2] by auto
  let ?g' = "?g\<lparr>t_status := a, t_ptp := b, t_stats := c, t_cmd := d, t_reply := r, boot_ms := t1, backoff_ms := BACKOFF_MIN_MS,
     next_attempt_ms := t2, connected := False, inited := True\<rparr>"
  have "flint_mqtt_init sv client hostname p (g, e) = Some (?g', e3)"
    using i h a b c d r 1 2 3 by (simp add: flint_mqtt_init_def)
  moreover have "mqtt_ok ?g'"
    using st i h a b c d r by (simp add: mqtt_ok_def BACKOFF_MIN_MS_def BACKOFF_MAX_MS_def)
  moreover have "cstr (t_cmd ?g') = take (TOPIC_MAX - 1) (''flint/'' @ take (ID_MAX - 1) client @ ''/cmd'')"
    using d i by simp
  ultimately show ?thesis by (rule that)
qed

section \<open>Histories of service calls\<close>

fun serve :: "'e services \<Rightarrow> nat \<Rightarrow> 'e mqtt_state \<Rightarrow> 'e mqtt_state ub" where
  "serve sv 0 ge = Some ge"
| "serve sv (Suc n) ge = flint_mqtt_service sv ge \<bind> serve sv n"

lemma serve_keeps: "services_ok sv \<Longrightarrow> keeps (serve sv n)"
proof (induction n)
  case (Suc n)
  show ?case
  proof (rule keepsI)
    fix g :: FlintMqtt and e assume g: "mqtt_ok g"
    obtain g1 e1 where 1: "flint_mqtt_service sv (g, e) = Some (g1, e1)" "mqtt_ok g1"
      by (rule keepsE [OF service_keeps [OF Suc.prems] g])
    obtain g2 e2 where "serve sv n (g1, e1) = Some (g2, e2)" "mqtt_ok g2"
      by (rule keepsE [OF Suc.IH [OF Suc.prems] 1(2)])
    with 1 show "\<exists>g' e'. serve sv (Suc n) (g, e) = Some (g', e') \<and> mqtt_ok g'" by simp
  qed
qed (simp add: keeps_def)

text \<open>Concrete services: time stands still, nothing to report, and the broker refuses the connection.\<close>

definition sample_services :: "unit services" where
  "sample_services = \<lparr>fm_plat_ms = (\<lambda>e. (0, e)), fm_plat_ip = (\<lambda>e. ''10.0.0.2''), fm_plat_led = (\<lambda>i e. (i, e)),
     fm_plat_ptp_json = (\<lambda>b n e. (0, replicate 1024 NUL, e)), fm_plat_stats_json = (\<lambda>b n e. (0, replicate 1024 NUL, e)),
     fm_plat_log = (\<lambda>l e. e), mqtt_transport_open = (\<lambda>h p t e. (- 1, e)), mqtt_transport_close = (\<lambda>e. e),
     mqtt_transport_is_up = (\<lambda>e. False), mqtt_transport_error = (\<lambda>e. ''none''), MQTT_Init = (\<lambda>e. (MQTTSuccess, e)),
     MQTT_Connect = (\<lambda>c w t e. (MQTTSuccess, e)), MQTT_Subscribe = (\<lambda>t l e. (MQTTSuccess, e)),
     MQTT_Publish = (\<lambda>p e. (MQTTSuccess, e)), MQTT_ProcessLoop = (\<lambda>e. (MQTTSuccess, [], e)),
     MQTT_Status_strerror = (\<lambda>s. ''error''), MQTT_PACKET_TYPE_PUBLISH = 0x30, MQTT_PACKET_TYPE_SUBACK = 0x90\<rparr>"

definition sample_mqtt :: FlintMqtt where
  "sample_mqtt = \<lparr>id_buf = replicate 32 NUL, host = replicate 64 NUL, broker_port = 0, inited = False, connected = False,
     next_attempt_ms = 0, backoff_ms = 0, last_ptp_ms = 0, last_stats_ms = 0, boot_ms = 0, topic_buf = replicate 64 NUL,
     t_status = replicate 64 NUL, t_ptp = replicate 64 NUL, t_stats = replicate 64 NUL, t_cmd = replicate 64 NUL,
     t_reply = replicate 64 NUL, reply_pending = False, reply = replicate 1024 NUL, scratch = replicate 1024 NUL,
     st = \<lparr>connects = 0, connect_failures = 0, published = 0, commands = 0\<rparr>\<rparr>"

lemma sample_services_ok: "services_ok sample_services"
  by (simp add: services_ok_def report_ok_def sample_services_def arr_ok_def REPLY_MAX_def)

lemma sample_mqtt_static: "mqtt_static sample_mqtt"
  by (simp add: mqtt_static_def sample_mqtt_def arr_ok_def ID_MAX_def HOST_MAX_def TOPIC_MAX_def REPLY_MAX_def)



section \<open>Commands\<close>

lemma trim_front_stops:
  assumes "\<forall>i. s \<le> i \<and> i < k \<longrightarrow> is_blank (p ! i)" "k < e" "\<not> is_blank (p ! k)" "s \<le> k"
  shows "trim_front p s e = k"
  using assms
proof (induction "k - s" arbitrary: s)
  case 0
  then show ?case by (subst trim_front.simps) simp
next
  case (Suc d)
  then have "trim_front p (s + 1) e = k" by (intro Suc.hyps) auto
  with Suc show ?case by (subst trim_front.simps) auto
qed

lemma trim_back_stops:
  assumes "\<forall>i. k \<le> i \<and> i < e \<longrightarrow> is_blank (p ! i)" "s < k" "\<not> is_blank (p ! (k - 1))" "k \<le> e"
  shows "trim_back p s e = k"
  using assms
proof (induction "e - k" arbitrary: e)
  case 0
  then show ?case by (subst trim_back.simps) simp
next
  case (Suc d)
  then have "trim_back p s (e - 1) = k" by (intro Suc.hyps) auto
  with Suc show ?case by (subst trim_back.simps) auto
qed

lemma read_command_trims:
  assumes "\<forall>c \<in> set a. is_blank c" "\<forall>c \<in> set b. is_blank c" "w \<noteq> []" "\<not> is_blank (hd w)" "\<not> is_blank (last w)" "length w \<le> 47"
  shows "read_command (a @ w @ b) = w"
proof -
  let ?p = "a @ w @ b" and ?k = "length a + length w"
  have w: "0 < length w" using assms(3) by simp
  have f: "trim_front ?p 0 (length ?p) = length a"
    by (rule trim_front_stops) (use assms w in \<open>auto simp: nth_append hd_conv_nth\<close>)
  have b: "trim_back ?p (length a) (length ?p) = ?k"
  proof (rule trim_back_stops)
    show "\<forall>i. ?k \<le> i \<and> i < length ?p \<longrightarrow> is_blank (?p ! i)" using assms(2) by (auto simp: nth_append)
    have "?k - 1 = length a + (length w - 1)" using w by linarith
    then have "?p ! (?k - 1) = (w @ b) ! (length w - 1)" by (simp only: nth_append_length_plus)
    also have "\<dots> = last w" using w by (simp add: nth_append last_conv_nth)
    finally show "\<not> is_blank (?p ! (?k - 1))" using assms(5) by simp
  qed (use w in auto)
  have m: "map (\<lambda>i. ?p ! (length a + i)) [0..<length w] = w"
    by (rule nth_equalityI) (auto simp: nth_append)
  have n: "(if ?k - length a < 48 - 1 then ?k - length a else 48 - 1) = length w" using assms(6) by auto
  show ?thesis unfolding read_command_def Let_def f b n by (rule m)
qed

lemma word_eq_iff: "word_eq w (length w) b \<longleftrightarrow> w = b"
proof -
  have "length w = length b \<Longrightarrow> same_chars w b \<longleftrightarrow> w = b"
    by (induction w b rule: list_induct2') auto
  then show ?thesis by (auto simp: word_eq_def)
qed

lemma cstr_id: "NUL \<notin> set w \<Longrightarrow> cstr w = w"
  by (auto simp: cstr_def takeWhile_eq_all_conv)

text \<open>The answer to a command that is a single word.\<close>

definition word_answer :: "string \<Rightarrow> (string \<times> string) option" where
  "word_answer w =
    (if w = ''ping'' then Some (''reply'', ''pong'')
     else if w = ''help'' then Some (''commands'', ''ping, uptime, stats, ptp, led on|off|toggle, help'')
     else if w \<in> {''uptime'', ''stats'', ''ptp''} then None
     else Some (''error'', ''unknown command (try: help)''))"

lemma run_command_word:
  assumes "word_answer w = Some (k, v)" "CHR 0x20 \<notin> set w"
  shows "run_command sv w (g, e) = map_option (\<lambda>g. (g, e)) (set_reply_simple (cstr w) k v g)"
proof -
  have "takeWhile (\<lambda>c. c \<noteq> CHR 0x20) w = w" using assms(2) by (intro takeWhile_eq_all_conv [THEN iffD2]) auto
  then have "find_space w = length w" unfolding find_space_def by (rule arg_cong)
  then show ?thesis
    using assms(1) by (auto simp: run_command_def Let_def word_eq_iff word_answer_def split: if_splits)
qed


lemma sample_mqtt_ok: "mqtt_ok (sample_mqtt\<lparr>backoff_ms := 2000\<rparr>)"
  by (simp add: mqtt_ok_def sample_mqtt_def arr_ok_def ID_MAX_def HOST_MAX_def TOPIC_MAX_def REPLY_MAX_def BACKOFF_MIN_MS_def BACKOFF_MAX_MS_def)


end
