(* ===== verification/Flint_Libc.thy ===== *)
theory Flint_Libc
  imports Flint_Prelude
begin

text \<open>
  The freestanding C library of \<^verbatim>\<open>kernel/flint_libc.c\<close> over a byte memory.  A copy through a null
  pointer is undefined.  The lemmas give the contents of the memory after each routine, for
  \<^verbatim>\<open>memmove\<close> whatever the overlap of the two regions.
\<close>

type_synonym memory = "nat \<Rightarrow> u8"

section \<open>The routines\<close>

text \<open>After \<^term>\<open>n\<close> rounds of the ascending loop, and of the descending one.\<close>

fun copy_up :: "nat \<Rightarrow> nat \<Rightarrow> nat \<Rightarrow> memory \<Rightarrow> memory" where
  "copy_up d s 0 m = m"
| "copy_up d s (Suc i) m = (let m = copy_up d s i m in m(d + i := m (s + i)))"

fun copy_down :: "nat \<Rightarrow> nat \<Rightarrow> nat \<Rightarrow> memory \<Rightarrow> memory" where
  "copy_down d s 0 m = m"
| "copy_down d s (Suc i) m = copy_down d s i (m(d + i := m (s + i)))"

fun fill_up :: "nat \<Rightarrow> u8 \<Rightarrow> nat \<Rightarrow> memory \<Rightarrow> memory" where
  "fill_up d c 0 m = m"
| "fill_up d c (Suc i) m = (fill_up d c i m)(d + i := c)"

definition memcpy :: "nat \<Rightarrow> nat \<Rightarrow> nat \<Rightarrow> memory \<Rightarrow> memory ub" where
  "memcpy dest src n m = do {
     ub_guard (n = 0 \<or> dest \<noteq> 0 \<and> src \<noteq> 0);
     Some (copy_up dest src n m)
   }"

definition memset :: "nat \<Rightarrow> int \<Rightarrow> nat \<Rightarrow> memory \<Rightarrow> memory ub" where
  "memset dest c n m = do {
     ub_guard (n = 0 \<or> dest \<noteq> 0);
     Some (fill_up dest (of_int c) n m)
   }"

definition memmove :: "nat \<Rightarrow> nat \<Rightarrow> nat \<Rightarrow> memory \<Rightarrow> memory ub" where
  "memmove dest src n m = do {
     ub_guard (n = 0 \<or> dest \<noteq> 0 \<and> src \<noteq> 0);
     Some (if dest < src then copy_up dest src n m else copy_down dest src n m)
   }"

partial_function (option) strlen_loop :: "nat \<Rightarrow> nat \<Rightarrow> memory \<Rightarrow> nat option" where
  "strlen_loop s n m = (if m (s + n) \<noteq> 0 then strlen_loop s (n + 1) m else Some n)"

definition strlen :: "nat \<Rightarrow> memory \<Rightarrow> nat ub" where
  "strlen s m = do {
     ub_guard (s \<noteq> 0);
     strlen_loop s 0 m
   }"

section \<open>Their effect\<close>

text \<open>The memory with the bytes of a region replaced.\<close>

definition overlay :: "nat \<Rightarrow> nat \<Rightarrow> (nat \<Rightarrow> u8) \<Rightarrow> memory \<Rightarrow> memory" where
  "overlay d n f m = (\<lambda>a. if d \<le> a \<and> a < d + n then f (a - d) else m a)"

lemma fill_up_overlay: "fill_up d c n m = overlay d n (\<lambda>i. c) m"
  by (induction n) (auto simp: overlay_def fun_eq_iff)

lemma copy_up_overlay:
  "d < s \<or> s + n \<le> d \<or> d = s \<Longrightarrow> copy_up d s n m = overlay d n (\<lambda>i. m (s + i)) m"
proof (induction n)
  case (Suc n)
  then have "copy_up d s n m = overlay d n (\<lambda>i. m (s + i)) m" by auto
  with Suc.prems show ?case by (auto simp: overlay_def fun_eq_iff)
qed (auto simp: overlay_def fun_eq_iff)

lemma copy_down_overlay: "s \<le> d \<Longrightarrow> copy_down d s n m = overlay d n (\<lambda>i. m (s + i)) m"
proof (induction n arbitrary: m)
  case (Suc n)
  then show ?case by (auto simp: overlay_def fun_eq_iff less_Suc_eq)
qed (auto simp: overlay_def fun_eq_iff)

lemma strlen_loop_stops:
  "(\<forall>i. n \<le> i \<and> i < k \<longrightarrow> m (s + i) \<noteq> 0) \<Longrightarrow> m (s + k) = 0 \<Longrightarrow> n \<le> k \<Longrightarrow> strlen_loop s n m = Some k"
proof (induction "k - n" arbitrary: n)
  case 0
  then show ?case by (subst strlen_loop.simps) simp
next
  case (Suc d)
  then have "strlen_loop s (n + 1) m = Some k" by (intro Suc.hyps) auto
  moreover have "m (s + n) \<noteq> 0" using Suc by auto
  ultimately show ?case by (subst strlen_loop.simps) simp
qed

lemma memcpy_overlay:
  assumes "n = 0 \<or> dest \<noteq> 0 \<and> src \<noteq> 0" "dest + n \<le> src \<or> src + n \<le> dest"
  shows "memcpy dest src n m = Some (overlay dest n (\<lambda>i. m (src + i)) m)"
  using assms by (cases n) (auto simp: memcpy_def copy_up_overlay overlay_def fun_eq_iff)

text \<open>
  C38: \<^verbatim>\<open>memmove\<close> copies every byte of the source region as it was before the call, whatever the
  overlap of the two regions, and touches nothing else: this is what choosing the direction of the
  loop by comparing the two pointers is for.
\<close>

theorem memmove_any_overlap:
  assumes "0 < dest" "0 < src"
  shows "\<exists>m'. memmove dest src n m = Some m' \<and> (\<forall>i < n. m' (dest + i) = m (src + i)) \<and>
           (\<forall>a. a < dest \<or> dest + n \<le> a \<longrightarrow> m' a = m a)"
  using assms by (auto simp: memmove_def copy_up_overlay copy_down_overlay overlay_def)

theorem memmove_any_overlap_witness:
  "\<exists>m'. memmove 3 2 4 (\<lambda>a. of_nat a) = Some m' \<and> (\<forall>i < 4. m' (3 + i) = of_nat (2 + i)) \<and>
     (\<forall>a. a < 3 \<or> 3 + 4 \<le> a \<longrightarrow> m' a = of_nat a)"
  using memmove_any_overlap [of 3 2 4 "\<lambda>a. of_nat a"] by simp

end
