(* ===== verification/Port.thy ===== *)
theory Port
  imports Flint_Prelude
begin

text \<open>
  The AArch64 port of \<^verbatim>\<open>portable/LLVM_AArch64/port.c\<close> up to its interrupt handler (which is in
  \<^verbatim>\<open>Irq\<close>, since it calls the scheduler): nested critical sections, the initial context frame of a
  task, the generic timer and the GIC-400 distributor.  The memory-mapped registers are a function
  from addresses to their contents.  Lines printed on the console are not part of the state.
\<close>

section \<open>Types and constants\<close>

type_synonym BaseType_t = int

definition pdFALSE :: BaseType_t where "pdFALSE = 0"
definition pdTRUE :: BaseType_t where "pdTRUE = 1"
definition pdPASS :: BaseType_t where "pdPASS = pdTRUE"
definition pdFAIL :: BaseType_t where "pdFAIL = pdFALSE"
definition errQUEUE_EMPTY :: BaseType_t where "errQUEUE_EMPTY = 0"
definition errQUEUE_FULL :: BaseType_t where "errQUEUE_FULL = 0"
definition errCOULD_NOT_ALLOCATE_REQUIRED_MEMORY :: BaseType_t where "errCOULD_NOT_ALLOCATE_REQUIRED_MEMORY = - 1"

definition configTICK_RATE_HZ :: u32 where "configTICK_RATE_HZ = 1000"
definition configMAX_PRIORITIES :: u32 where "configMAX_PRIORITIES = 32"
definition configMINIMAL_STACK_SIZE :: u32 where "configMINIMAL_STACK_SIZE = 1024"
definition configMAX_TASK_NAME_LEN :: nat where "configMAX_TASK_NAME_LEN = 16"

definition GICD_BASE :: nat where "GICD_BASE = 0xFF841000"
definition GICC_BASE :: nat where "GICC_BASE = 0xFF842000"
definition TIMER_IRQ_INTID :: u32 where "TIMER_IRQ_INTID = 30"
definition GENET_IRQ0_INTID :: u32 where "GENET_IRQ0_INTID = 189"
definition GIC_PRIO_TIMESTAMP :: u32 where "GIC_PRIO_TIMESTAMP = 0x80"
definition GIC_PRIO_KERNEL :: u32 where "GIC_PRIO_KERNEL = 0xA0"
definition GICC_PMR_OPEN :: u32 where "GICC_PMR_OPEN = 0xF0"
definition GICC_PMR_REG :: nat where "GICC_PMR_REG = GICC_BASE + 0x004"

definition CTX_SLOTS :: nat where "CTX_SLOTS = 34"
definition CTX_SPSR :: nat where "CTX_SPSR = 31"
definition CTX_ELR :: nat where "CTX_ELR = 32"
definition INITIAL_SPSR :: u64 where "INITIAL_SPSR = 0x345"
definition PORT_MAX_IRQS :: nat where "PORT_MAX_IRQS = 4"

lemmas port_consts = pdFALSE_def pdTRUE_def pdPASS_def pdFAIL_def errQUEUE_EMPTY_def errQUEUE_FULL_def
  errCOULD_NOT_ALLOCATE_REQUIRED_MEMORY_def

section \<open>State\<close>

text \<open>
  A handler is the address of a function.  The slots of \<^verbatim>\<open>xIrqTable\<close> in use, \<^verbatim>\<open>uxIrqSlots\<close> of them, are
  the elements of the list.
\<close>

record PortIrqSlot_t =
  slot_intid :: u32
  slot_handler :: nat
  slot_count :: u32

record port =
  uxCriticalNesting :: u64
  irq_masked :: bool
  ullTimerReloadTicks :: u64
  cntp_tval :: u64
  cntp_ctl :: u64
  mmio :: "nat \<Rightarrow> u32"
  xIrqTable :: "PortIrqSlot_t list"

definition mmio_read32 :: "nat \<Rightarrow> 'a port_scheme \<Rightarrow> u32" where
  "mmio_read32 a s = mmio s a"

definition mmio_write32 :: "nat \<Rightarrow> u32 \<Rightarrow> 'a port_scheme \<Rightarrow> 'a port_scheme" where
  "mmio_write32 a v s = s\<lparr>mmio := (mmio s)(a := v)\<rparr>"

section \<open>Critical sections\<close>

definition portDISABLE_INTERRUPTS :: "'a port_scheme \<Rightarrow> 'a port_scheme" where
  "portDISABLE_INTERRUPTS s = s\<lparr>irq_masked := True\<rparr>"

definition portENABLE_INTERRUPTS :: "'a port_scheme \<Rightarrow> 'a port_scheme" where
  "portENABLE_INTERRUPTS s = s\<lparr>irq_masked := False\<rparr>"

definition vPortEnterCritical :: "'a port_scheme \<Rightarrow> 'a port_scheme" where
  "vPortEnterCritical s =
     (let s = portDISABLE_INTERRUPTS s in s\<lparr>uxCriticalNesting := uxCriticalNesting s + 1\<rparr>)"

definition vPortExitCritical :: "'a port_scheme \<Rightarrow> 'a port_scheme" where
  "vPortExitCritical s =
     (if uxCriticalNesting s > 0
      then (let s = s\<lparr>uxCriticalNesting := uxCriticalNesting s - 1\<rparr>
            in if uxCriticalNesting s = 0 then portENABLE_INTERRUPTS s else s)
      else s)"

section \<open>The initial context of a task\<close>

text \<open>
  The stack memory is a function from the addresses of 8-byte slots.  A frame that would start
  below address 0 is undefined.
\<close>

fun clear_slots :: "nat \<Rightarrow> nat \<Rightarrow> (nat \<Rightarrow> u64) \<Rightarrow> nat \<Rightarrow> u64" where
  "clear_slots sp 0 m = m"
| "clear_slots sp (Suc n) m = (clear_slots sp n m)(sp + 8 * n := 0)"

definition pxPortInitialiseStack ::
  "u64 \<Rightarrow> nat \<Rightarrow> u64 \<Rightarrow> u64 \<Rightarrow> (nat \<Rightarrow> u64) \<Rightarrow> (nat \<times> (nat \<Rightarrow> u64)) ub" where
  "pxPortInitialiseStack vPortTaskExit pxTopOfStack pxCode pvParameters m = do {
     ub_guard (8 * CTX_SLOTS \<le> pxTopOfStack);
     let sp = pxTopOfStack - 8 * CTX_SLOTS;
     let m = clear_slots sp CTX_SLOTS m;
     let m = m(sp := pvParameters);
     let m = m(sp + 8 * 30 := vPortTaskExit);
     let m = m(sp + 8 * CTX_SPSR := INITIAL_SPSR);
     let m = m(sp + 8 * CTX_ELR := pxCode);
     Some (sp, m)
   }"

section \<open>Timer and interrupt controller\<close>

definition arm_timer :: "u64 \<Rightarrow> 'a port_scheme \<Rightarrow> 'a port_scheme" where
  "arm_timer ticks s = s\<lparr>cntp_tval := ticks, cntp_ctl := 1\<rparr>"

definition gicd_set_byte :: "u32 \<Rightarrow> u32 \<Rightarrow> u8 \<Rightarrow> 'a port_scheme \<Rightarrow> 'a port_scheme" where
  "gicd_set_byte bank intid val s =
     (let reg = GICD_BASE + unat bank + unat (intid AND NOT 3);
          shift = unat ((intid mod 4) * 8);
          v = mmio_read32 reg s;
          v = v AND NOT (push_bit shift 0xFF);
          v = v OR push_bit shift (ucast val)
      in mmio_write32 reg v s)"

text \<open>The counter frequency is what \<^verbatim>\<open>cntfrq_el0\<close> holds.\<close>

definition vPortSetupTimerInterrupt :: "u64 \<Rightarrow> 'a port_scheme \<Rightarrow> 'a port_scheme" where
  "vPortSetupTimerInterrupt cntfrq s =
     (let s = s\<lparr>ullTimerReloadTicks := cntfrq div ucast configTICK_RATE_HZ\<rparr>;
          s = portDISABLE_INTERRUPTS s;
          s = mmio_write32 (GICD_BASE + 0x000) 1 s;
          s = mmio_write32 (GICD_BASE + 0x100) (push_bit (unat TIMER_IRQ_INTID) 1) s;
          s = gicd_set_byte 0x400 TIMER_IRQ_INTID (ucast GIC_PRIO_KERNEL) s;
          s = mmio_write32 (GICC_BASE + 0x004) GICC_PMR_OPEN s;
          s = mmio_write32 (GICC_BASE + 0x000) 1 s
      in arm_timer (ullTimerReloadTicks s) s)"

text \<open>The registers an installed interrupt programs.\<close>

definition route_irq :: "u32 \<Rightarrow> u8 \<Rightarrow> 'a port_scheme \<Rightarrow> 'a port_scheme" where
  "route_irq intid priority s =
     (let s = gicd_set_byte 0x400 intid priority s;
          s = gicd_set_byte 0x800 intid 0x01 s;
          reg = GICD_BASE + 0xC00 + unat ((intid div 16) * 4);
          v = mmio_read32 reg s;
          v = v AND NOT (push_bit (unat ((intid mod 16) * 2)) 2);
          s = mmio_write32 reg v s
      in mmio_write32 (GICD_BASE + 0x100 + unat ((intid div 32) * 4)) (push_bit (unat (intid mod 32)) 1) s)"

definition xPortInstallIrq :: "u32 \<Rightarrow> u8 \<Rightarrow> nat \<Rightarrow> 'a port_scheme \<Rightarrow> int \<times> 'a port_scheme" where
  "xPortInstallIrq intid priority handler s =
     (let s = vPortEnterCritical s;
          (result, s) =
            (if length (xIrqTable s) < PORT_MAX_IRQS \<and> handler \<noteq> 0 \<and> intid \<ge> 32 \<and> intid < 1020
             then (0, route_irq intid priority
                        (s\<lparr>xIrqTable := xIrqTable s @ [\<lparr>slot_intid = intid, slot_handler = handler, slot_count = 0\<rparr>]\<rparr>))
             else (- 1, s))
      in (result, vPortExitCritical s))"

fun irq_count :: "PortIrqSlot_t list \<Rightarrow> u32 \<Rightarrow> u32" where
  "irq_count [] intid = 0"
| "irq_count (e # es) intid = (if slot_intid e = intid then slot_count e else irq_count es intid)"

definition ulPortIrqCount :: "u32 \<Rightarrow> 'a port_scheme \<Rightarrow> u32" where
  "ulPortIrqCount intid s = irq_count (xIrqTable s) intid"

end
