(* ===== verification/Tasks.thy ===== *)
theory Tasks
  imports List_Mgmt Heap_4 Port
begin

text \<open>
  The fixed-priority scheduler of \<^verbatim>\<open>kernel/tasks.c\<close>: task creation, the ready, delayed and suspended
  lists, event lists, the tick, the context switch and mutex priority inheritance.  A task is the
  address of its control block; its two list items live in the list store of \<^verbatim>\<open>List_Mgmt\<close>, and the
  control blocks and stacks come from the allocator of \<^verbatim>\<open>Heap_4\<close>.  The scheduler trace is compiled
  out by default and is not modelled.
\<close>

section \<open>State\<close>

datatype titem = StateItem nat | EventItem nat

datatype tlist = Ready nat | Delayed | Suspended | WaitSend nat | WaitRecv nat

record TCB_t =
  pxTopOfStack :: nat
  uxPriority :: u64
  uxBasePriority :: u64
  pxStack :: nat
  uxStackDepth :: u32
  pcTaskName :: string

text \<open>
  The control blocks are a map from their addresses; \<^verbatim>\<open>pxTaskRegistry\<close> holds the
  \<^verbatim>\<open>uxRegisteredTasks\<close> entries in use.
\<close>

record kernel = port +
  ls :: "(titem, tlist, nat) list_store"
  tcb :: "nat \<Rightarrow> TCB_t option"
  stk :: "nat \<Rightarrow> u64"
  hp :: heap4
  pxCurrentTCB :: nat
  uxTopReadyPriority :: u64
  xTickCount :: u32
  uxCurrentNumberOfTasks :: u64
  xSchedulerRunning :: BaseType_t
  xListsInitialised :: BaseType_t
  pxTaskRegistry :: "nat list"
  xInheritEnabled :: BaseType_t

text \<open>What the linker decides: the heap array and the addresses of two functions.\<close>

record image =
  heap_at :: heap_layout
  vPortTaskExit_at :: u64
  prvIdleTask_at :: u64

definition sizeof_TCB :: nat where "sizeof_TCB = 136"
definition configMAX_TASKS :: nat where "configMAX_TASKS = 16"
definition FLINT_STACK_FILL :: u64 where "FLINT_STACK_FILL = 0xA5A5A5A5A5A5A5A5"
definition portBYTE_ALIGNMENT_MASK :: nat where "portBYTE_ALIGNMENT_MASK = 0xF"

text \<open>The array of ready lists has \<^const>\<open>configMAX_PRIORITIES\<close> elements.\<close>

definition xReadyTasksLists :: "u64 \<Rightarrow> tlist ub" where
  "xReadyTasksLists p = (if p < ucast configMAX_PRIORITIES then Some (Ready (unat p)) else None)"

abbreviation set_ls :: "(titem, tlist, nat) list_store \<Rightarrow> 'a kernel_scheme \<Rightarrow> 'a kernel_scheme" where
  "set_ls s k \<equiv> k\<lparr>ls := s\<rparr>"

abbreviation set_tcb :: "nat \<Rightarrow> TCB_t \<Rightarrow> 'a kernel_scheme \<Rightarrow> 'a kernel_scheme" where
  "set_tcb t c k \<equiv> k\<lparr>tcb := (tcb k)(t := Some c)\<rparr>"

section \<open>The stack guard\<close>

text \<open>
  The application's overflow hook halts, so the check does not return when it fails.  Reading a
  guard word of a task is defined for every task with a stack.
\<close>

definition stack_overrun :: "nat \<Rightarrow> 'a kernel_scheme \<Rightarrow> bool ub" where
  "stack_overrun t k = do {
     c \<leftarrow> tcb k t;
     let pxSP = pxTopOfStack c;
     let pxBase = pxStack c;
     Some (pxSP < pxBase \<or> stk k pxBase \<noteq> FLINT_STACK_FILL \<or> stk k (pxBase + 8) \<noteq> FLINT_STACK_FILL)
   }"

definition prvCheckStackOverflow :: "nat \<Rightarrow> 'a kernel_scheme \<Rightarrow> unit ub" where
  "prvCheckStackOverflow t k = do {
     bad \<leftarrow> stack_overrun t k;
     if bad then None else Some ()
   }"

section \<open>Ready lists and task creation\<close>

definition prvAddTaskToReadyList :: "nat \<Rightarrow> 'a kernel_scheme \<Rightarrow> 'a kernel_scheme ub" where
  "prvAddTaskToReadyList t k = do {
     c \<leftarrow> tcb k t;
     let k = (if uxPriority c > uxTopReadyPriority k then k\<lparr>uxTopReadyPriority := uxPriority c\<rparr> else k);
     let s = listSET_LIST_ITEM_VALUE (StateItem t) (ucast (uxPriority c)) (ls k);
     let s = listSET_LIST_ITEM_OWNER (StateItem t) t s;
     l \<leftarrow> xReadyTasksLists (uxPriority c);
     s \<leftarrow> vListInsertEnd l (StateItem t) s;
     Some (set_ls s k)
   }"

fun init_ready_lists :: "nat \<Rightarrow> (titem, tlist, nat) list_store \<Rightarrow> (titem, tlist, nat) list_store" where
  "init_ready_lists 0 s = s"
| "init_ready_lists (Suc n) s = vListInitialise (Ready n) (init_ready_lists n s)"

definition prvInitialiseTaskLists :: "'a kernel_scheme \<Rightarrow> 'a kernel_scheme" where
  "prvInitialiseTaskLists k =
     (let s = init_ready_lists (unat configMAX_PRIORITIES) (ls k);
          s = vListInitialise Delayed s;
          s = vListInitialise Suspended s
      in set_ls s k)"

fun paint_stack :: "nat \<Rightarrow> nat \<Rightarrow> (nat \<Rightarrow> u64) \<Rightarrow> nat \<Rightarrow> u64" where
  "paint_stack a 0 m = m"
| "paint_stack a (Suc n) m = (paint_stack a n m)(a + 8 * n := FLINT_STACK_FILL)"

text \<open>
  The name is copied up to its terminator or the array's size, and the last byte is the
  terminator.  A name is the list of its characters before the terminator.
\<close>

fun copy_name :: "nat \<Rightarrow> string \<Rightarrow> string" where
  "copy_name 0 s = []"
| "copy_name (Suc n) [] = []"
| "copy_name (Suc n) (c # cs) = c # copy_name n cs"

definition task_name :: "string option \<Rightarrow> string" where
  "task_name pcName = (case pcName of None \<Rightarrow> [] | Some s \<Rightarrow>
     take (configMAX_TASK_NAME_LEN - 1) (copy_name configMAX_TASK_NAME_LEN s))"

text \<open>The new control block, with its items outside every list.\<close>

definition init_items :: "nat \<Rightarrow> u64 \<Rightarrow> (titem, tlist, nat) list_store \<Rightarrow> (titem, tlist, nat) list_store" where
  "init_items t prio s =
     (let s = vListInitialiseItem (StateItem t) s;
          s = vListInitialiseItem (EventItem t) s;
          s = listSET_LIST_ITEM_OWNER (StateItem t) t s;
          s = listSET_LIST_ITEM_OWNER (EventItem t) t s
      in listSET_LIST_ITEM_VALUE (EventItem t) (ucast (ucast configMAX_PRIORITIES - prio)) s)"

text \<open>The critical section that publishes a new task.\<close>

definition register_task :: "nat \<Rightarrow> 'a kernel_scheme \<Rightarrow> 'a kernel_scheme ub" where
  "register_task t k = do {
     let k = k\<lparr>uxCurrentNumberOfTasks := uxCurrentNumberOfTasks k + 1\<rparr>;
     let k = (if length (pxTaskRegistry k) < configMAX_TASKS
              then k\<lparr>pxTaskRegistry := pxTaskRegistry k @ [t]\<rparr> else k);
     let k = (if pxCurrentTCB k = 0 then k\<lparr>pxCurrentTCB := t\<rparr> else k);
     prvAddTaskToReadyList t k
   }"

text \<open>
  The part after both allocations succeeded.  A context frame that reaches below the stack is
  undefined: the depth is not checked against the frame size.
\<close>

definition build_task ::
  "image \<Rightarrow> u64 \<Rightarrow> string option \<Rightarrow> u32 \<Rightarrow> u64 \<Rightarrow> u64 \<Rightarrow> nat \<Rightarrow> nat \<Rightarrow> 'a kernel_scheme \<Rightarrow> 'a kernel_scheme ub" where
  "build_task im code pcName usStackDepth pvParameters uxPrio stack t k = do {
     let m = paint_stack stack (unat usStackDepth) (stk k);
     let s = init_items t uxPrio (ls k);
     let top = stack + 8 * (unat usStackDepth - 1);
     let top = top AND sz_not portBYTE_ALIGNMENT_MASK;
     (sp, m) \<leftarrow> pxPortInitialiseStack (vPortTaskExit_at im) top code pvParameters m;
     ub_guard (stack \<le> sp);
     let c = \<lparr>pxTopOfStack = sp, uxPriority = uxPrio, uxBasePriority = uxPrio, pxStack = stack,
              uxStackDepth = usStackDepth, pcTaskName = task_name pcName\<rparr>;
     let k = set_tcb t c (k\<lparr>stk := m, ls := s\<rparr>);
     let k = vPortEnterCritical k;
     k \<leftarrow> register_task t k;
     Some (vPortExitCritical k)
   }"

text \<open>The result is the return code, the handle stored through \<^verbatim>\<open>pxCreatedTask\<close> if any, and the state.\<close>

definition xTaskCreate ::
  "image \<Rightarrow> u64 \<Rightarrow> string option \<Rightarrow> u32 \<Rightarrow> u64 \<Rightarrow> u64 \<Rightarrow> 'a kernel_scheme \<Rightarrow>
     (BaseType_t \<times> nat option \<times> 'a kernel_scheme) ub" where
  "xTaskCreate im code pcName usStackDepth pvParameters uxPrio k = do {
     let uxPrio = (if uxPrio \<ge> ucast configMAX_PRIORITIES then ucast configMAX_PRIORITIES - 1 else uxPrio);
     let k = (if xListsInitialised k = pdFALSE
              then (prvInitialiseTaskLists k)\<lparr>xListsInitialised := pdTRUE\<rparr> else k);
     (stack, h) \<leftarrow> pvPortMalloc (heap_at im) (unat usStackDepth * 8) (hp k);
     let k = k\<lparr>hp := h\<rparr>;
     if stack = 0 then Some (errCOULD_NOT_ALLOCATE_REQUIRED_MEMORY, None, k)
     else do {
       (t, h) \<leftarrow> pvPortMalloc (heap_at im) sizeof_TCB (hp k);
       let k = k\<lparr>hp := h\<rparr>;
       if t = 0 then do {
         h \<leftarrow> vPortFree (heap_at im) stack (hp k);
         Some (errCOULD_NOT_ALLOCATE_REQUIRED_MEMORY, None, k\<lparr>hp := h\<rparr>)
       }
       else do {
         k \<leftarrow> build_task im code pcName usStackDepth pvParameters uxPrio stack t k;
         Some (pdPASS, Some t, k)
       }
     }
   }"

section \<open>Priorities\<close>

definition uxTaskPriorityGet :: "nat \<Rightarrow> 'a kernel_scheme \<Rightarrow> u64 ub" where
  "uxTaskPriorityGet xTask k =
     (let t = (if xTask \<noteq> 0 then xTask else pxCurrentTCB k)
      in if t \<noteq> 0 then map_option uxPriority (tcb k t) else Some 0)"

definition vTaskSetMutexInheritance :: "BaseType_t \<Rightarrow> 'a kernel_scheme \<Rightarrow> 'a kernel_scheme" where
  "vTaskSetMutexInheritance xEnable k = k\<lparr>xInheritEnabled := xEnable\<rparr>"

definition xTaskGetMutexInheritance :: "'a kernel_scheme \<Rightarrow> BaseType_t" where
  "xTaskGetMutexInheritance k = xInheritEnabled k"

definition prvReprioritise :: "nat \<Rightarrow> u64 \<Rightarrow> 'a kernel_scheme \<Rightarrow> 'a kernel_scheme ub" where
  "prvReprioritise t uxNewPriority k = do {
     c \<leftarrow> tcb k t;
     l \<leftarrow> xReadyTasksLists (uxPriority c);
     if listIS_CONTAINED_WITHIN l (StateItem t) (ls k) then do {
       (_, s) \<leftarrow> uxListRemove (StateItem t) (ls k);
       let k = set_ls s k;
       let k = set_tcb t (c\<lparr>uxPriority := uxNewPriority\<rparr>) k;
       prvAddTaskToReadyList t k
     }
     else Some (set_tcb t (c\<lparr>uxPriority := uxNewPriority\<rparr>) k)
   }"

definition vTaskPriorityInherit :: "nat \<Rightarrow> 'a kernel_scheme \<Rightarrow> 'a kernel_scheme ub" where
  "vTaskPriorityInherit xMutexHolder k =
    (if xMutexHolder = 0 \<or> pxCurrentTCB k = 0 then Some k
     else if xInheritEnabled k = pdFALSE then Some k
     else do {
       h \<leftarrow> tcb k xMutexHolder;
       c \<leftarrow> tcb k (pxCurrentTCB k);
       if uxPriority h < uxPriority c then prvReprioritise xMutexHolder (uxPriority c) k else Some k
     })"

definition vTaskPriorityDisinherit :: "nat \<Rightarrow> 'a kernel_scheme \<Rightarrow> (BaseType_t \<times> 'a kernel_scheme) ub" where
  "vTaskPriorityDisinherit xMutexHolder k =
    (if xMutexHolder = 0 then Some (pdFALSE, k)
     else do {
       h \<leftarrow> tcb k xMutexHolder;
       if uxPriority h \<noteq> uxBasePriority h then do {
         k \<leftarrow> prvReprioritise xMutexHolder (uxBasePriority h) k;
         Some (pdTRUE, k)
       }
       else Some (pdFALSE, k)
     })"

section \<open>Context switch\<close>

text \<open>The search for the highest ready list with a task, down to priority 0.\<close>

fun find_ready :: "(titem, tlist, nat) list_store \<Rightarrow> nat \<Rightarrow> nat" where
  "find_ready s 0 = 0"
| "find_ready s (Suc p) = (if listLIST_IS_EMPTY (Ready (Suc p)) s then find_ready s p else Suc p)"

definition vTaskSwitchContext :: "'a kernel_scheme \<Rightarrow> 'a kernel_scheme ub" where
  "vTaskSwitchContext k = do {
     (if pxCurrentTCB k \<noteq> 0 then prvCheckStackOverflow (pxCurrentTCB k) k else Some ());
     ub_guard (uxTopReadyPriority k < ucast configMAX_PRIORITIES);
     let p = find_ready (ls k) (unat (uxTopReadyPriority k));
     let k = k\<lparr>uxTopReadyPriority := of_nat p\<rparr>;
     (ow, s) \<leftarrow> listGET_OWNER_OF_NEXT_ENTRY (Ready p) (ls k);
     Some (k\<lparr>ls := s, pxCurrentTCB := (case ow of None \<Rightarrow> 0 | Some t \<Rightarrow> t)\<rparr>)
   }"

text \<open>
  The assembly entry of \<^verbatim>\<open>svc\<close> and of an interrupt stores the stack pointer of the interrupted
  task in its control block before the switch.
\<close>

definition SAVE_SP_TO_TCB :: "nat \<Rightarrow> 'a kernel_scheme \<Rightarrow> 'a kernel_scheme ub" where
  "SAVE_SP_TO_TCB sp k = do {
     c \<leftarrow> tcb k (pxCurrentTCB k);
     Some (set_tcb (pxCurrentTCB k) (c\<lparr>pxTopOfStack := sp\<rparr>) k)
   }"

definition taskYIELD :: "nat \<Rightarrow> 'a kernel_scheme \<Rightarrow> 'a kernel_scheme ub" where
  "taskYIELD sp k = do {
     k \<leftarrow> SAVE_SP_TO_TCB sp k;
     vTaskSwitchContext k
   }"

section \<open>Blocking and waking\<close>

definition vTaskPlaceOnEventList :: "tlist \<Rightarrow> u32 \<Rightarrow> 'a kernel_scheme \<Rightarrow> 'a kernel_scheme ub" where
  "vTaskPlaceOnEventList l xTicksToWait k = do {
     let t = pxCurrentTCB k;
     (_, s) \<leftarrow> uxListRemove (StateItem t) (ls k);
     s \<leftarrow> vListInsert l (EventItem t) s;
     if xTicksToWait = portMAX_DELAY then do {
       s \<leftarrow> vListInsertEnd Suspended (StateItem t) s;
       Some (set_ls s k)
     }
     else do {
       let s = listSET_LIST_ITEM_VALUE (StateItem t) (xTickCount k + xTicksToWait) s;
       s \<leftarrow> vListInsert Delayed (StateItem t) s;
       Some (set_ls s k)
     }
   }"

text \<open>The control block a list's head entry belongs to.\<close>

definition head_owner :: "tlist \<Rightarrow> (titem, tlist, nat) list_store \<Rightarrow> nat ub" where
  "head_owner l s = do {
     n \<leftarrow> listGET_HEAD_ENTRY l s;
     ow \<leftarrow> node_owner s n;
     ow
   }"

definition xTaskRemoveFromEventList :: "tlist \<Rightarrow> 'a kernel_scheme \<Rightarrow> (BaseType_t \<times> 'a kernel_scheme) ub" where
  "xTaskRemoveFromEventList l k =
    (if listLIST_IS_EMPTY l (ls k) then Some (pdFALSE, k)
     else do {
       t \<leftarrow> head_owner l (ls k);
       (_, s) \<leftarrow> uxListRemove (EventItem t) (ls k);
       (_, s) \<leftarrow> uxListRemove (StateItem t) s;
       k \<leftarrow> prvAddTaskToReadyList t (set_ls s k);
       c \<leftarrow> tcb k t;
       cur \<leftarrow> tcb k (pxCurrentTCB k);
       Some (if uxPriority c > uxPriority cur then pdTRUE else pdFALSE, k)
     })"

text \<open>One task taken off the delayed list, and off the event list it may wait on.\<close>

definition wake_task :: "nat \<Rightarrow> 'a kernel_scheme \<Rightarrow> 'a kernel_scheme ub" where
  "wake_task t k = do {
     (_, s) \<leftarrow> uxListRemove (StateItem t) (ls k);
     s \<leftarrow> (if listGET_LIST_ITEM_CONTAINER (EventItem t) s \<noteq> None
           then map_option snd (uxListRemove (EventItem t) s) else Some s);
     prvAddTaskToReadyList t (set_ls s k)
   }"

partial_function (option) tick_loop :: "'a kernel_scheme \<Rightarrow> 'a kernel_scheme option" where
  "tick_loop k =
    (if listLIST_IS_EMPTY Delayed (ls k) then Some k
     else do {
       v \<leftarrow> listGET_ITEM_VALUE_OF_HEAD_ENTRY Delayed (ls k);
       if v > xTickCount k then Some k
       else do {
         t \<leftarrow> head_owner Delayed (ls k);
         k \<leftarrow> wake_task t k;
         tick_loop k
       }
     })"

definition xTaskIncrementTick :: "'a kernel_scheme \<Rightarrow> 'a kernel_scheme ub" where
  "xTaskIncrementTick k = tick_loop (k\<lparr>xTickCount := xTickCount k + 1\<rparr>)"

definition delay_task :: "u32 \<Rightarrow> 'a kernel_scheme \<Rightarrow> 'a kernel_scheme ub" where
  "delay_task xTicksToDelay k = do {
     let t = pxCurrentTCB k;
     (_, s) \<leftarrow> uxListRemove (StateItem t) (ls k);
     let s = listSET_LIST_ITEM_VALUE (StateItem t) (xTickCount k + xTicksToDelay) s;
     s \<leftarrow> vListInsert Delayed (StateItem t) s;
     Some (set_ls s k)
   }"

definition vTaskDelay :: "nat \<Rightarrow> u32 \<Rightarrow> 'a kernel_scheme \<Rightarrow> 'a kernel_scheme ub" where
  "vTaskDelay sp xTicksToDelay k =
    (if xTicksToDelay > 0
     then do {
       k \<leftarrow> delay_task xTicksToDelay (vPortEnterCritical k);
       taskYIELD sp (vPortExitCritical k)
     }
     else Some k)"

section \<open>Start and queries\<close>

text \<open>
  \<^verbatim>\<open>xPortStartScheduler\<close> is assembly: it loads the context of the current task and does not
  return, so the result is the state in which it is entered.
\<close>

definition vTaskStartScheduler :: "image \<Rightarrow> u64 \<Rightarrow> 'a kernel_scheme \<Rightarrow> 'a kernel_scheme ub" where
  "vTaskStartScheduler im cntfrq k = do {
     (_, _, k) \<leftarrow> xTaskCreate im (prvIdleTask_at im) (Some ''IDLE'') configMINIMAL_STACK_SIZE 0 0 k;
     let k = k\<lparr>xSchedulerRunning := pdTRUE, xTickCount := 0\<rparr>;
     Some (vPortSetupTimerInterrupt cntfrq k)
   }"

definition uxTaskGetNumberOfTasks :: "'a kernel_scheme \<Rightarrow> u64" where
  "uxTaskGetNumberOfTasks k = uxCurrentNumberOfTasks k"

definition xTaskGetTickCount :: "'a kernel_scheme \<Rightarrow> u32" where
  "xTaskGetTickCount k = xTickCount k"

definition xTaskGetCurrentTaskHandle :: "'a kernel_scheme \<Rightarrow> nat" where
  "xTaskGetCurrentTaskHandle k = pxCurrentTCB k"

fun stack_free :: "(nat \<Rightarrow> u64) \<Rightarrow> nat \<Rightarrow> nat \<Rightarrow> nat" where
  "stack_free m a 0 = 0"
| "stack_free m a (Suc d) = (if m a = FLINT_STACK_FILL then Suc (stack_free m (a + 8) d) else 0)"

definition prvStackHighWater :: "TCB_t \<Rightarrow> 'a kernel_scheme \<Rightarrow> u32" where
  "prvStackHighWater c k = of_nat (stack_free (stk k) (pxStack c) (unat (uxStackDepth c)))"

record TaskSnapshot_t =
  snap_pcName :: string
  snap_uxPriority :: u64
  snap_uxBasePriority :: u64
  snap_ulStackDepth :: u32
  snap_ulStackFree :: u32

fun snapshot_loop :: "nat list \<Rightarrow> nat \<Rightarrow> 'a kernel_scheme \<Rightarrow> TaskSnapshot_t list ub" where
  "snapshot_loop [] n k = Some []"
| "snapshot_loop (t # ts) 0 k = Some []"
| "snapshot_loop (t # ts) (Suc n) k = do {
     c \<leftarrow> tcb k t;
     r \<leftarrow> snapshot_loop ts n k;
     Some (\<lparr>snap_pcName = pcTaskName c, snap_uxPriority = uxPriority c, snap_uxBasePriority = uxBasePriority c,
            snap_ulStackDepth = uxStackDepth c, snap_ulStackFree = prvStackHighWater c k\<rparr> # r)
   }"

definition uxTaskGetSnapshot :: "u64 \<Rightarrow> 'a kernel_scheme \<Rightarrow> TaskSnapshot_t list ub" where
  "uxTaskGetSnapshot uxMax k = snapshot_loop (pxTaskRegistry k) (unat uxMax) k"

end
