(* ===== verification/Sched_Inv.thy ===== *)
theory Sched_Inv
  imports Tasks
begin

text \<open>
  The invariant of the scheduler's lists, and that every list operation of \<^verbatim>\<open>kernel/tasks.c\<close>
  keeps it: each task is in exactly the list its state says, the top priority bounds the ready
  tasks, and the delayed list is sorted by wake-up time.
\<close>

section \<open>The invariant\<close>

fun task_of :: "titem \<Rightarrow> nat" where
  "task_of (StateItem t) = t"
| "task_of (EventItem t) = t"

text \<open>The lists in use when the queues \<^term>\<open>Q\<close> exist.\<close>

fun is_list :: "nat set \<Rightarrow> tlist \<Rightarrow> bool" where
  "is_list Q (Ready p) \<longleftrightarrow> p < 32"
| "is_list Q Delayed \<longleftrightarrow> True"
| "is_list Q Suspended \<longleftrightarrow> True"
| "is_list Q (WaitSend q) \<longleftrightarrow> q \<in> Q"
| "is_list Q (WaitRecv q) \<longleftrightarrow> q \<in> Q"

fun is_wait :: "tlist \<Rightarrow> bool" where
  "is_wait (WaitSend q) \<longleftrightarrow> True"
| "is_wait (WaitRecv q) \<longleftrightarrow> True"
| "is_wait _ \<longleftrightarrow> False"

lemma is_wait_ne [simp]: "is_wait l \<Longrightarrow> l \<noteq> Ready p" "is_wait l \<Longrightarrow> l \<noteq> Delayed" "is_wait l \<Longrightarrow> l \<noteq> Suspended"
  by auto

abbreviation klists :: "nat set \<Rightarrow> tlist set" where
  "klists Q \<equiv> Collect (is_list Q)"

text \<open>The list of a task's state item agrees with its priority and its event item.\<close>

fun placed :: "TCB_t \<Rightarrow> tlist option \<Rightarrow> tlist option \<Rightarrow> bool" where
  "placed c (Some (Ready p)) ev \<longleftrightarrow> p = unat (uxPriority c) \<and> ev = None"
| "placed c (Some Delayed) ev \<longleftrightarrow> True"
| "placed c (Some Suspended) ev \<longleftrightarrow> ev \<noteq> None"
| "placed c _ ev \<longleftrightarrow> False"

text \<open>One task; \<^term>\<open>moving\<close> tasks are on their way from one list to another.\<close>

definition task_ok :: "nat set \<Rightarrow> bool \<Rightarrow> (titem, tlist, nat) list_store \<Rightarrow> nat \<Rightarrow> TCB_t \<Rightarrow> bool" where
  "task_ok Q moving s t c \<longleftrightarrow> t \<noteq> 0 \<and> uxPriority c < 32 \<and> uxBasePriority c \<le> uxPriority c \<and>
     pvOwner s (StateItem t) = Some t \<and> pvOwner s (EventItem t) = Some t \<and>
     xItemValue s (Item (EventItem t)) = ucast (32 - uxBasePriority c) \<and>
     (\<forall>l. pxContainer s (EventItem t) = Some l \<longrightarrow> is_wait l \<and> is_list Q l) \<and>
     (\<forall>l. pxContainer s (StateItem t) = Some l \<longrightarrow> \<not> is_wait l \<and> is_list Q l) \<and>
     (\<not> moving \<longrightarrow> placed c (pxContainer s (StateItem t)) (pxContainer s (EventItem t)))"

definition top_ok :: "(titem, tlist, nat) list_store \<Rightarrow> u64 \<Rightarrow> bool" where
  "top_ok s hi \<longleftrightarrow> hi < 32 \<and> (\<forall>t p. pxContainer s (StateItem t) = Some (Ready p) \<longrightarrow> p \<le> unat hi)"

abbreviation wake_time :: "(titem, tlist, nat) list_store \<Rightarrow> titem \<Rightarrow> u32" where
  "wake_time s i \<equiv> xItemValue s (Item i)"

definition sched_ok :: "nat set \<Rightarrow> nat set \<Rightarrow> (titem, tlist, nat) list_store \<Rightarrow> (nat \<Rightarrow> TCB_t option) \<Rightarrow> u64 \<Rightarrow> bool" where
  "sched_ok Q T s cb hi \<longleftrightarrow> store_ok s (klists Q) \<and> finite (dom cb) \<and> card (dom cb) < 2 ^ 62 \<and>
     (\<forall>i l. pxContainer s i = Some l \<longrightarrow> task_of i \<in> dom cb) \<and>
     (\<forall>t c. cb t = Some c \<longrightarrow> task_ok Q (t \<in> T) s t c) \<and> top_ok s hi \<and>
     (\<forall>l. is_list Q l \<longrightarrow> l = Delayed \<or> is_wait l \<longrightarrow> sorted (map (wake_time s) (items s l)))"

lemma sched_okI:
  assumes "store_ok s (klists Q)" "finite (dom cb)" "card (dom cb) < 2 ^ 62"
    "\<And>i l. pxContainer s i = Some l \<Longrightarrow> task_of i \<in> dom cb" "\<And>t c. cb t = Some c \<Longrightarrow> task_ok Q (t \<in> T) s t c"
    "top_ok s hi" "\<And>l. is_list Q l \<Longrightarrow> l = Delayed \<or> is_wait l \<Longrightarrow> sorted (map (wake_time s) (items s l))"
  shows "sched_ok Q T s cb hi"
  using assms unfolding sched_ok_def by blast

lemma sched_okD:
  assumes "sched_ok Q T s cb hi"
  shows "store_ok s (klists Q)" "finite (dom cb)" "card (dom cb) < 2 ^ 62"
    "pxContainer s i = Some l \<Longrightarrow> task_of i \<in> dom cb" "cb t = Some c \<Longrightarrow> task_ok Q (t \<in> T) s t c"
    "top_ok s hi" "is_list Q l' \<Longrightarrow> l' = Delayed \<or> is_wait l' \<Longrightarrow> sorted (map (wake_time s) (items s l'))"
  using assms unfolding sched_ok_def by blast+

lemma task_okD:
  assumes "task_ok Q b s t c"
  shows "t \<noteq> 0" "uxPriority c < 32" "uxBasePriority c \<le> uxPriority c" "pvOwner s (StateItem t) = Some t"
    "pvOwner s (EventItem t) = Some t" "pxContainer s (EventItem t) = Some l \<Longrightarrow> is_wait l \<and> is_list Q l"
    "pxContainer s (StateItem t) = Some l \<Longrightarrow> \<not> is_wait l \<and> is_list Q l"
    "\<not> b \<Longrightarrow> placed c (pxContainer s (StateItem t)) (pxContainer s (EventItem t))"
    "xItemValue s (Item (EventItem t)) = ucast (32 - uxBasePriority c)"
  using assms unfolding task_ok_def by blast+

lemma task_ok_moving: "task_ok Q b s t c \<Longrightarrow> task_ok Q True s t c"
  by (simp add: task_ok_def)

text \<open>The lists are far shorter than their counters allow.\<close>

lemma items_short:
  assumes "sched_ok Q T s cb hi" "is_list Q l"
  shows "length (items s l) + 1 < 2 ^ 64"
proof -
  note ok = store_okD [OF sched_okD(1) [OF assms(1)], of l]
  have l: "list_ok s l (items s l)" using ok assms(2) by simp
  have "set (items s l) \<subseteq> StateItem ` dom cb \<union> EventItem ` dom cb"
  proof
    fix i assume "i \<in> set (items s l)"
    then have "pxContainer s i = Some l" using list_okD(4) [OF l] by blast
    then have "task_of i \<in> dom cb" by (rule sched_okD(4) [OF assms(1)])
    then show "i \<in> StateItem ` dom cb \<union> EventItem ` dom cb" by (cases i) auto
  qed
  then have "card (set (items s l)) \<le> card (StateItem ` dom cb \<union> EventItem ` dom cb)"
    using sched_okD(2) [OF assms(1)] by (intro card_mono) auto
  also have "\<dots> \<le> card (dom cb) + card (dom cb)"
    using sched_okD(2) [OF assms(1)] by (meson add_mono card_Un_le card_image_le le_trans)
  finally have "length (items s l) \<le> 2 * card (dom cb)" using list_ok_distinct [OF l] by (simp add: distinct_card)
  then show ?thesis using sched_okD(3) [OF assms(1)] by simp
qed

section \<open>Moving a task between lists\<close>

text \<open>A move of one item of task \<^term>\<open>t\<close> leaves every other task as it was.\<close>

lemma task_ok_other:
  assumes "task_ok Q b s t' c" "same_payload s s'" "pxContainer s' = (pxContainer s)(i := x)" "task_of i \<noteq> t'"
  shows "task_ok Q b s' t' c"
  using assms by (cases i) (auto simp: task_ok_def same_payload_def)

lemma sched_ok_moved:
  assumes ok: "sched_ok Q T s cb hi" and c: "cb t = Some c"
    and s': "store_ok s' (klists Q)" "same_payload s s'" "pxContainer s' = (pxContainer s)(i := x)" "task_of i = t"
    and t: "task_ok Q (t \<in> T') s' t c" and T: "T' - {t} = T - {t}"
    and r: "\<And>p. i = StateItem t \<Longrightarrow> x = Some (Ready p) \<Longrightarrow> p \<le> unat hi"
    and d: "\<And>l. is_list Q l \<Longrightarrow> l = Delayed \<or> is_wait l \<Longrightarrow> sorted (map (wake_time s) (items s' l))"
  shows "sched_ok Q T' s' cb hi"
proof (rule sched_okI)
  fix j l assume "pxContainer s' j = Some l"
  then show "task_of j \<in> dom cb" using s'(3,4) c sched_okD(4) [OF ok] by (auto split: if_splits)
next
  fix t' c' assume "cb t' = Some c'"
  moreover have "t' \<noteq> t \<Longrightarrow> t' \<in> T' \<longleftrightarrow> t' \<in> T" using T by blast
  ultimately show "task_ok Q (t' \<in> T') s' t' c'"
    using task_ok_other [OF sched_okD(5) [OF ok] s'(2,3)] s'(4) t c by (cases "t' = t") auto
next
  show "top_ok s' hi" using sched_okD(6) [OF ok] r s'(3) s'(4) by (auto simp: top_ok_def split: if_splits)
next
  fix l assume "is_list Q l" "l = Delayed \<or> is_wait l"
  then show "sorted (map (wake_time s') (items s' l))" using d s'(2) by (simp add: same_payload_def)
qed (use s' sched_okD [OF ok] in auto)

lemma sorted_remove1_map: "sorted (map f xs) \<Longrightarrow> sorted (map f (remove1 x xs))"
  by (induction xs) (auto dest: notin_set_remove1 split: if_splits intro: set_remove1_subset [THEN subsetD])

lemma state_list: 
  assumes "sched_ok Q T s cb hi" "cb t = Some c" "t \<notin> T"
  obtains l where "pxContainer s (StateItem t) = Some l" "is_list Q l" "\<not> is_wait l"
  using task_okD(7,8) [OF sched_okD(5) [OF assms(1,2)]] assms(3) by (cases "pxContainer s (StateItem t)") auto

text \<open>Taking an item out of its list.\<close>

lemma take_item:
  assumes ok: "sched_ok Q T s cb hi" and c: "cb t = Some c" and i: "task_of i = t" "pxContainer s i = Some l" "is_list Q l"
  obtains n s' where "uxListRemove i s = Some (n, s')" "sched_ok Q (insert t T) s' cb hi" "same_payload s s'"
    "pxContainer s' = (pxContainer s)(i := None)"
    "\<And>l'. is_list Q l' \<Longrightarrow> items s' l' = (if l' = l then remove1 i (items s l) else items s l')"
    "turns s' l = remove1 i (turns s l)" "\<And>l'. l' \<noteq> l \<Longrightarrow> pxIndex s' l' = pxIndex s l'"
proof -
  have l: "l \<in> klists Q" using i(3) by simp
  obtain s' where s': "uxListRemove i s = Some (of_nat (length (items s' l)), s')" "store_ok s' (klists Q)" "same_payload s s'"
    "\<And>k. k \<noteq> l \<Longrightarrow> pxIndex s' k = pxIndex s k" "pxContainer s' = (pxContainer s)(i := None)"
    "\<And>l'. l' \<in> klists Q \<Longrightarrow> items s' l' = (if l' = l then remove1 i (items s l) else items s l')"
    "turns s' l = remove1 i (turns s l)"
    by (rule remove_ok [OF sched_okD(1) [OF ok] l i(2)]) (rule that; blast)
  have "task_ok Q True s' t c"
    using sched_okD(5) [OF ok c] s'(3,5) by (cases i) (auto simp: task_ok_def same_payload_def)
  moreover have "sorted (map (wake_time s) (items s' k))" if "is_list Q k" "k = Delayed \<or> is_wait k" for k
    using sched_okD(7) [OF ok that] s'(6) [of k] that(1) sorted_remove1_map by auto
  ultimately have "sched_ok Q (insert t T) s' cb hi"
    by (intro sched_ok_moved [OF ok c s'(2,3,5) i(1)]) auto
  then show thesis using that s' by auto
qed

text \<open>Putting an item into a list: at the end, or by its value.\<close>

abbreviation into :: "titem \<Rightarrow> tlist \<Rightarrow> (titem, tlist, nat) list_store \<Rightarrow> (titem, tlist, nat) list_store" where
  "into i l s \<equiv> s\<lparr>pxContainer := (pxContainer s)(i := Some l)\<rparr>"

lemma task_ok_into:
  assumes "task_ok Q b (into i l s) t c" "same_payload s s'" "pxContainer s' = (pxContainer s)(i := Some l)"
  shows "task_ok Q b s' t c"
  using assms by (simp add: task_ok_def same_payload_def)

lemma put_end:
  assumes ok: "sched_ok Q T s cb hi" and c: "cb t = Some c"
    and i: "task_of i = t" "pxContainer s i = None" "is_list Q l" "l \<noteq> Delayed" "\<not> is_wait l"
    and t: "task_ok Q (t \<in> T') (into i l s) t c" and T: "T' - {t} = T - {t}"
    and r: "\<And>p. i = StateItem t \<Longrightarrow> l = Ready p \<Longrightarrow> p \<le> unat hi"
  obtains s' where "vListInsertEnd l i s = Some s'" "sched_ok Q T' s' cb hi" "same_payload s s'"
    "pxContainer s' = (pxContainer s)(i := Some l)" "pxIndex s' = pxIndex s"
    "\<And>l'. is_list Q l' \<Longrightarrow> items s' l' = (if l' = l then put (pxIndex s l) i (items s l) else items s l')"
proof -
  have l: "l \<in> klists Q" using i(3) by simp
  obtain s' where s': "vListInsertEnd l i s = Some s'" "store_ok s' (klists Q)" "same_payload s s'" "pxIndex s' = pxIndex s"
    "pxContainer s' = (pxContainer s)(i := Some l)"
    "\<And>l'. l' \<in> klists Q \<Longrightarrow> items s' l' = (if l' = l then put (pxIndex s l) i (items s l) else items s l')"
    by (rule insert_end_ok [OF sched_okD(1) [OF ok] l i(2) items_short [OF ok i(3)]]) (rule that; blast)
  have "sorted (map (wake_time s) (items s' k))" if "is_list Q k" "k = Delayed \<or> is_wait k" for k
    using sched_okD(7) [OF ok that] s'(6) [of k] that i(4,5) by auto
  then have "sched_ok Q T' s' cb hi"
    using r by (intro sched_ok_moved [OF ok c s'(2,3,5) i(1) task_ok_into [OF t s'(3,5)] T]) auto
  then show thesis using that s' by auto
qed

lemma put_sorted:
  assumes ok: "sched_ok Q T s cb hi" and c: "cb t = Some c"
    and i: "task_of i = t" "pxContainer s i = None" "is_list Q l" "l = Delayed \<or> is_wait l"
    and t: "task_ok Q (t \<in> T') (into i l s) t c" and T: "T' - {t} = T - {t}"
  obtains s' where "vListInsert l i s = Some s'" "sched_ok Q T' s' cb hi" "same_payload s s'"
    "pxContainer s' = (pxContainer s)(i := Some l)" "pxIndex s' = pxIndex s"
    "\<And>l'. is_list Q l' \<Longrightarrow> items s' l' = (if l' = l
       then takeWhile (\<lambda>x. wake_time s x \<le> wake_time s i) (items s l) @ i #
            dropWhile (\<lambda>x. wake_time s x \<le> wake_time s i) (items s l)
       else items s l')"
proof -
  have l: "l \<in> klists Q" using i(3) by simp
  obtain s' where s': "vListInsert l i s = Some s'" "store_ok s' (klists Q)" "same_payload s s'" "pxIndex s' = pxIndex s"
    "pxContainer s' = (pxContainer s)(i := Some l)"
    "\<And>l'. l' \<in> klists Q \<Longrightarrow> items s' l' = (if l' = l
       then takeWhile (\<lambda>x. wake_time s x \<le> wake_time s i) (items s l) @ i #
            dropWhile (\<lambda>x. wake_time s x \<le> wake_time s i) (items s l)
       else items s l')"
    by (rule insert_ok [OF sched_okD(1) [OF ok] l i(2) items_short [OF ok i(3)]]) (rule that; blast)
  have "sorted (map (wake_time s) (items s' k))" if "is_list Q k" "k = Delayed \<or> is_wait k" for k
    using sched_okD(7) [OF ok that] s'(6) [of k] that sorted_insert_position [OF refl, of "wake_time s" "items s l" i]
    by (cases "k = l") auto
  moreover have "l \<noteq> Ready p" for p using i(4) by auto
  ultimately have "sched_ok Q T' s' cb hi"
    by (intro sched_ok_moved [OF ok c s'(2,3,5) i(1) task_ok_into [OF t s'(3,5)] T]) auto
  then show thesis using that s' by auto
qed

section \<open>Operations of the scheduler\<close>

abbreviation kernel_ok :: "nat set \<Rightarrow> nat set \<Rightarrow> 'a kernel_scheme \<Rightarrow> bool" where
  "kernel_ok Q T k \<equiv> sched_ok Q T (ls k) (tcb k) (uxTopReadyPriority k)"

lemma chain_cong: "pxNext s' = pxNext s \<Longrightarrow> chain s' n a = chain s n a"
  by (induction n arbitrary: a) (auto split: option.splits node.splits)

lemma items_set_value [simp]: "items (listSET_LIST_ITEM_VALUE i v s) l = items s l"
  by (simp add: items_def listSET_LIST_ITEM_VALUE_def chain_cong [of "s\<lparr>xItemValue := f\<rparr>" s for f])

lemma set_owner_same: "pvOwner s i = Some w \<Longrightarrow> listSET_LIST_ITEM_OWNER i w s = s"
  by (simp add: listSET_LIST_ITEM_OWNER_def fun_upd_idem)

text \<open>Setting the wake-up time of a task that is in no list.\<close>

lemma set_time:
  assumes ok: "sched_ok Q T s cb hi" and i: "pxContainer s (StateItem t) = None"
  shows "sched_ok Q T (listSET_LIST_ITEM_VALUE (StateItem t) v s) cb hi"
proof (rule sched_okI)
  let ?s = "listSET_LIST_ITEM_VALUE (StateItem t) v s"
  show "store_ok ?s (klists Q)"
  proof (rule store_okI)
    fix l assume "l \<in> klists Q"
    from list_ok_set_value [OF store_okD [OF sched_okD(1) [OF ok] this]] show "\<exists>xs. list_ok ?s l xs" by blast
  qed
  show "task_ok Q (t' \<in> T) ?s t' c" if "cb t' = Some c" for t' c
    using sched_okD(5) [OF ok that] by (auto simp: task_ok_def listSET_LIST_ITEM_VALUE_def)
  show "top_ok ?s hi" using sched_okD(6) [OF ok] by (simp add: top_ok_def listSET_LIST_ITEM_VALUE_def)
  fix l assume l: "is_list Q l" "l = Delayed \<or> is_wait l"
  have "StateItem t \<notin> set (items s l)"
    using store_ok_container [OF sched_okD(1) [OF ok], of l "StateItem t"] i l(1) by simp
  then have m: "map (wake_time ?s) (items s l) = map (wake_time s) (items s l)"
    by (intro map_cong) (auto simp: listSET_LIST_ITEM_VALUE_def)
  show "sorted (map (wake_time ?s) (items ?s l))" unfolding items_set_value m by (rule sched_okD(7) [OF ok l])
qed (use sched_okD(2-4) [OF ok] in \<open>auto simp: listSET_LIST_ITEM_VALUE_def\<close>)

lemma raise_top:
  assumes "sched_ok Q T s cb hi" "p < 32"
  shows "sched_ok Q T s cb (if p > hi then p else hi)"
proof -
  have "unat hi \<le> unat p" if "hi < p" using that by (simp add: word_less_nat_alt)
  then have "top_ok s (if p > hi then p else hi)"
    using sched_okD(6) [OF assms(1)] assms(2) by (auto simp: top_ok_def) (meson le_trans)
  then show ?thesis using assms(1) by (simp add: sched_ok_def)
qed

lemma ready_list: "p < 32 \<Longrightarrow> xReadyTasksLists p = Some (Ready (unat p))"
  by (simp add: xReadyTasksLists_def configMAX_PRIORITIES_def)

lemma unat_32: "(p :: u64) < 32 \<Longrightarrow> unat p < 32"
  by (simp add: word_less_nat_alt)

text \<open>The top priority after \<^term>\<open>c\<close> has become ready.\<close>

definition raised :: "TCB_t \<Rightarrow> 'a kernel_scheme \<Rightarrow> u64" where
  "raised c k = (if uxPriority c > uxTopReadyPriority k then uxPriority c else uxTopReadyPriority k)"

lemma add_ready:
  assumes ok: "sched_ok Q T s (tcb k) (uxTopReadyPriority k)" and c: "tcb k t = Some c"
    and i: "pxContainer s (StateItem t) = None" "pxContainer s (EventItem t) = None"
  obtains s' where "prvAddTaskToReadyList t (k\<lparr>ls := s\<rparr>) = Some (k\<lparr>uxTopReadyPriority := raised c k, ls := s'\<rparr>)"
    "sched_ok Q (T - {t}) s' (tcb k) (raised c k)"
    "pxContainer s' = (pxContainer s)(StateItem t := Some (Ready (unat (uxPriority c))))" "pxIndex s' = pxIndex s"
    "\<And>j. j \<noteq> StateItem t \<Longrightarrow> wake_time s' j = wake_time s j"
    "\<And>l. is_list Q l \<Longrightarrow> items s' l = (if l = Ready (unat (uxPriority c))
       then put (pxIndex s l) (StateItem t) (items s l) else items s l)"
proof -
  let ?s = "listSET_LIST_ITEM_VALUE (StateItem t) (ucast (uxPriority c)) s"
  note tk = sched_okD(5) [OF ok c]
  have p: "uxPriority c < 32" by (rule task_okD(2) [OF tk])
  have ok': "sched_ok Q T ?s (tcb k) (raised c k)" unfolding raised_def by (intro set_time raise_top ok p i(1))
  have same: "pxContainer ?s = pxContainer s" "pvOwner ?s = pvOwner s" "pxIndex ?s = pxIndex s"
    "\<And>j. j \<noteq> StateItem t \<Longrightarrow> wake_time ?s j = wake_time s j"
    by (auto simp: listSET_LIST_ITEM_VALUE_def)
  have t: "task_ok Q (t \<in> T - {t}) (into (StateItem t) (Ready (unat (uxPriority c))) ?s) t c"
    using tk i(2) p unat_32 [OF p] by (auto simp: task_ok_def same)
  have r: "unat (uxPriority c) \<le> unat (raised c k)" by (auto simp: raised_def word_less_nat_alt)
  have l: "is_list Q (Ready (unat (uxPriority c)))" using unat_32 [OF p] by simp
  have i': "pxContainer ?s (StateItem t) = None" using i(1) same by simp
  obtain s' where s': "vListInsertEnd (Ready (unat (uxPriority c))) (StateItem t) ?s = Some s'" "sched_ok Q (T - {t}) s' (tcb k) (raised c k)"
    "same_payload ?s s'" "pxContainer s' = (pxContainer ?s)(StateItem t := Some (Ready (unat (uxPriority c))))"
    "pxIndex s' = pxIndex ?s"
    "\<And>l'. is_list Q l' \<Longrightarrow> items s' l' = (if l' = Ready (unat (uxPriority c))
       then put (pxIndex ?s (Ready (unat (uxPriority c)))) (StateItem t) (items ?s (Ready (unat (uxPriority c)))) else items ?s l')"
    by (rule put_end [OF ok' c _ i' l _ _ t]) (use r in auto)
  have own: "pvOwner ?s (StateItem t) = Some t" using task_okD(4) [OF tk] same by simp
  have "prvAddTaskToReadyList t (k\<lparr>ls := s\<rparr>) = Some (k\<lparr>uxTopReadyPriority := raised c k, ls := s'\<rparr>)"
    using c s'(1) own set_owner_same [OF own] ready_list [OF p] by (simp add: prvAddTaskToReadyList_def raised_def)
  then show thesis
    using that s'(2,4-6) s'(3) same by (auto simp: same_payload_def)
qed

text \<open>The head of a list and the task it belongs to.\<close>

lemma list_empty: "sched_ok Q T s cb hi \<Longrightarrow> is_list Q l \<Longrightarrow> listLIST_IS_EMPTY l s \<longleftrightarrow> items s l = []"
  using list_ok_empty [OF store_okD [OF sched_okD(1)]] by blast

lemma in_list: "sched_ok Q T s cb hi \<Longrightarrow> is_list Q l \<Longrightarrow> i \<in> set (items s l) \<longleftrightarrow> pxContainer s i = Some l"
  using store_ok_container [OF sched_okD(1)] by blast

lemma list_item:
  assumes ok: "sched_ok Q T s cb hi" and l: "is_list Q l" and i: "i \<in> set (items s l)"
  obtains t c where "cb t = Some c" "i = (if is_wait l then EventItem t else StateItem t)" "pvOwner s i = Some t"
proof -
  have con: "pxContainer s i = Some l" using in_list [OF ok l] i by simp
  then obtain c where c: "cb (task_of i) = Some c" using sched_okD(4) [OF ok] by blast
  note tk = sched_okD(5) [OF ok c]
  show thesis
  proof (cases i)
    case (StateItem t)
    then show thesis using that [of t c] c con task_okD(4,7) [OF tk] by auto
  next
    case (EventItem t)
    then show thesis using that [of t c] c con task_okD(5,6) [OF tk] by auto
  qed
qed

lemma list_head:
  assumes ok: "sched_ok Q T s cb hi" and l: "is_list Q l" and h: "items s l = i # xs"
  obtains t c where "cb t = Some c" "i = (if is_wait l then EventItem t else StateItem t)" "pxContainer s i = Some l"
    "head_owner l s = Some t" "listGET_ITEM_VALUE_OF_HEAD_ENTRY l s = Some (wake_time s i)"
proof -
  have mem: "i \<in> set (items s l)" using h by simp
  obtain t c where t: "cb t = Some c" "i = (if is_wait l then EventItem t else StateItem t)" "pvOwner s i = Some t"
    by (rule list_item [OF ok l mem])
  have "ring s l ([] @ i # xs)" using list_okD(1) [OF store_okD [OF sched_okD(1) [OF ok]], of l] l h by simp
  then have "pxNext s (End l) = Some (Item i)" using ring_links by fastforce
  then show thesis using that t in_list [OF ok l] mem
    by (simp add: head_owner_def listGET_HEAD_ENTRY_def listGET_ITEM_VALUE_OF_HEAD_ENTRY_def)
qed

section \<open>Blocking\<close>

text \<open>The task is running: it is in its ready list.\<close>

definition runs :: "'a kernel_scheme \<Rightarrow> nat \<Rightarrow> bool" where
  "runs k t \<longleftrightarrow> (\<exists>c. tcb k t = Some c \<and> pxContainer (ls k) (StateItem t) = Some (Ready (unat (uxPriority c))))"

lemma runsD:
  assumes ok: "kernel_ok Q T k" and r: "runs k t" "t \<notin> T"
  obtains c where "tcb k t = Some c" "pxContainer (ls k) (StateItem t) = Some (Ready (unat (uxPriority c)))"
    "pxContainer (ls k) (EventItem t) = None" "is_list Q (Ready (unat (uxPriority c)))"
proof -
  obtain c where c: "tcb k t = Some c" "pxContainer (ls k) (StateItem t) = Some (Ready (unat (uxPriority c)))"
    using r by (auto simp: runs_def)
  then show thesis using that task_okD(7,8) [OF sched_okD(5) [OF ok c(1)]] r(2) by simp
qed

lemma delay_ok:
  assumes ok: "kernel_ok Q {} k" and r: "runs k (pxCurrentTCB k)"
  obtains s' where "delay_task d k = Some (k\<lparr>ls := s'\<rparr>)" "sched_ok Q {} s' (tcb k) (uxTopReadyPriority k)"
    "pxContainer s' = (pxContainer (ls k))(StateItem (pxCurrentTCB k) := Some Delayed)"
    "wake_time s' = (wake_time (ls k))(StateItem (pxCurrentTCB k) := xTickCount k + d)"
proof -
  let ?t = "pxCurrentTCB k" and ?v = "xTickCount k + d"
  obtain c where c: "tcb k ?t = Some c" "pxContainer (ls k) (StateItem ?t) = Some (Ready (unat (uxPriority c)))"
    "pxContainer (ls k) (EventItem ?t) = None" "is_list Q (Ready (unat (uxPriority c)))"
    by (rule runsD [OF ok r]) auto
  obtain n s1 where s1: "uxListRemove (StateItem ?t) (ls k) = Some (n, s1)" "sched_ok Q (insert ?t {}) s1 (tcb k) (uxTopReadyPriority k)"
    "same_payload (ls k) s1" "pxContainer s1 = (pxContainer (ls k))(StateItem ?t := None)"
    by (rule take_item [OF ok c(1) _ c(2,4)]) (use that in auto)
  let ?s = "listSET_LIST_ITEM_VALUE (StateItem ?t) ?v s1"
  have n: "pxContainer s1 (StateItem ?t) = None" using s1(4) by simp
  have ok2: "sched_ok Q {?t} ?s (tcb k) (uxTopReadyPriority k)" by (rule set_time [OF s1(2) n])
  have n2: "pxContainer ?s (StateItem ?t) = None" using n by (simp add: listSET_LIST_ITEM_VALUE_def)
  have t: "task_ok Q (?t \<in> {}) (into (StateItem ?t) Delayed ?s) ?t c"
    using sched_okD(5) [OF ok2 c(1)] by (auto simp: task_ok_def)
  obtain s' where s': "vListInsert Delayed (StateItem ?t) ?s = Some s'" "sched_ok Q {} s' (tcb k) (uxTopReadyPriority k)"
    "same_payload ?s s'" "pxContainer s' = (pxContainer ?s)(StateItem ?t := Some Delayed)"
    by (rule put_sorted [OF ok2 c(1) _ n2 _ _ t]) (use that in auto)
  have "delay_task d k = Some (k\<lparr>ls := s'\<rparr>)" using s1(1) s'(1) by (simp add: delay_task_def)
  then show thesis using that s' s1(3,4)
    by (auto simp: same_payload_def listSET_LIST_ITEM_VALUE_def fun_eq_iff)
qed

text \<open>A running task waits on an event list, and in the delayed or the suspended list for the time-out.\<close>

lemma place_ok:
  assumes ok: "kernel_ok Q {} k" and r: "runs k (pxCurrentTCB k)" and l: "is_wait l" "is_list Q l"
  obtains s' where "vTaskPlaceOnEventList l d k = Some (k\<lparr>ls := s'\<rparr>)" "sched_ok Q {} s' (tcb k) (uxTopReadyPriority k)"
    "pxContainer s' = (pxContainer (ls k))(EventItem (pxCurrentTCB k) := Some l,
       StateItem (pxCurrentTCB k) := Some (if d = portMAX_DELAY then Suspended else Delayed))"
    "items s' l = takeWhile (\<lambda>x. wake_time (ls k) x \<le> wake_time (ls k) (EventItem (pxCurrentTCB k))) (items (ls k) l) @
       EventItem (pxCurrentTCB k) #
       dropWhile (\<lambda>x. wake_time (ls k) x \<le> wake_time (ls k) (EventItem (pxCurrentTCB k))) (items (ls k) l)"
proof -
  let ?t = "pxCurrentTCB k" and ?hi = "uxTopReadyPriority k"
  obtain c where c: "tcb k ?t = Some c" "pxContainer (ls k) (StateItem ?t) = Some (Ready (unat (uxPriority c)))"
    "pxContainer (ls k) (EventItem ?t) = None" "is_list Q (Ready (unat (uxPriority c)))"
    by (rule runsD [OF ok r]) auto
  have ne: "l \<noteq> Ready p" "l \<noteq> Delayed" "l \<noteq> Suspended" for p using l(1) by auto
  obtain n s1 where s1: "uxListRemove (StateItem ?t) (ls k) = Some (n, s1)" "sched_ok Q (insert ?t {}) s1 (tcb k) ?hi"
    "same_payload (ls k) s1" "pxContainer s1 = (pxContainer (ls k))(StateItem ?t := None)"
    "items s1 l = items (ls k) l"
    by (rule take_item [OF ok c(1) _ c(2,4)]) (use that l ne in auto)
  have n1: "pxContainer s1 (EventItem ?t) = None" using s1(4) c(3) by simp
  have t1: "task_ok Q (?t \<in> {?t}) (into (EventItem ?t) l s1) ?t c"
    using sched_okD(5) [OF s1(2) c(1)] l by (auto simp: task_ok_def)
  obtain s2 where s2: "vListInsert l (EventItem ?t) s1 = Some s2" "sched_ok Q {?t} s2 (tcb k) ?hi"
    "same_payload s1 s2" "pxContainer s2 = (pxContainer s1)(EventItem ?t := Some l)"
    "items s2 l = takeWhile (\<lambda>x. wake_time s1 x \<le> wake_time s1 (EventItem ?t)) (items s1 l) @ EventItem ?t #
       dropWhile (\<lambda>x. wake_time s1 x \<le> wake_time s1 (EventItem ?t)) (items s1 l)"
    by (rule put_sorted [OF s1(2) c(1) _ n1 l(2) _ t1]) (use that l in auto)
  have n2: "pxContainer s2 (StateItem ?t) = None" using s2(4) s1(4) by simp
  have it: "items s2 l = takeWhile (\<lambda>x. wake_time (ls k) x \<le> wake_time (ls k) (EventItem ?t)) (items (ls k) l) @
       EventItem ?t # dropWhile (\<lambda>x. wake_time (ls k) x \<le> wake_time (ls k) (EventItem ?t)) (items (ls k) l)"
    using s2(5) s1(3,5) by (simp add: same_payload_def)
  show thesis
  proof (cases "d = portMAX_DELAY")
    case True
    have t2: "task_ok Q (?t \<in> {}) (into (StateItem ?t) Suspended s2) ?t c"
      using sched_okD(5) [OF s2(2) c(1)] s2(4) by (auto simp: task_ok_def)
    obtain s' where s': "vListInsertEnd Suspended (StateItem ?t) s2 = Some s'" "sched_ok Q {} s' (tcb k) ?hi"
      "pxContainer s' = (pxContainer s2)(StateItem ?t := Some Suspended)" "items s' l = items s2 l"
      by (rule put_end [OF s2(2) c(1) _ n2 _ _ _ t2]) (use that l ne in auto)
    have "vTaskPlaceOnEventList l d k = Some (k\<lparr>ls := s'\<rparr>)"
      using s1(1) s2(1) s'(1) True by (simp add: vTaskPlaceOnEventList_def)
    then show thesis using that [of s'] s'(2-4) s2(4) s1(4) it True by auto
  next
    case False
    let ?s = "listSET_LIST_ITEM_VALUE (StateItem ?t) (xTickCount k + d) s2"
    have ok2: "sched_ok Q {?t} ?s (tcb k) ?hi" by (rule set_time [OF s2(2) n2])
    have n3: "pxContainer ?s (StateItem ?t) = None" using n2 by (simp add: listSET_LIST_ITEM_VALUE_def)
    have t2: "task_ok Q (?t \<in> {}) (into (StateItem ?t) Delayed ?s) ?t c"
      using sched_okD(5) [OF ok2 c(1)] by (auto simp: task_ok_def)
    obtain s' where s': "vListInsert Delayed (StateItem ?t) ?s = Some s'" "sched_ok Q {} s' (tcb k) ?hi"
      "pxContainer s' = (pxContainer ?s)(StateItem ?t := Some Delayed)" "items s' l = items s2 l"
      by (rule put_sorted [OF ok2 c(1) _ n3 _ _ t2]) (use that l ne in auto)
    have "vTaskPlaceOnEventList l d k = Some (k\<lparr>ls := s'\<rparr>)"
      using s1(1) s2(1) s'(1) False by (simp add: vTaskPlaceOnEventList_def)
    then show thesis using that [of s'] s'(2-4) s2(4) s1(4) it False by (auto simp: listSET_LIST_ITEM_VALUE_def)
  qed
qed

section \<open>Waking\<close>

text \<open>A blocked task leaves its lists and becomes ready.\<close>

lemma event_wake_ok:
  assumes ok: "kernel_ok Q {} k" and l: "is_wait l" "is_list Q l" and h: "items (ls k) l = i # xs"
    and cur: "tcb k (pxCurrentTCB k) = Some cur"
  obtains t c s' where "tcb k t = Some c" "i = EventItem t"
    "xTaskRemoveFromEventList l k = Some (if uxPriority c > uxPriority cur then pdTRUE else pdFALSE,
       k\<lparr>uxTopReadyPriority := raised c k, ls := s'\<rparr>)"
    "sched_ok Q {} s' (tcb k) (raised c k)" "items s' l = xs"
    "pxContainer s' = (pxContainer (ls k))(EventItem t := None, StateItem t := Some (Ready (unat (uxPriority c))))"
proof -
  let ?hi = "uxTopReadyPriority k"
  obtain t c where t': "tcb k t = Some c" "i = (if is_wait l then EventItem t else StateItem t)" "pxContainer (ls k) i = Some l"
    "head_owner l (ls k) = Some t"
    by (rule list_head [OF ok l(2) h]) (rule that)
  have t: "tcb k t = Some c" "i = EventItem t" "pxContainer (ls k) (EventItem t) = Some l" "head_owner l (ls k) = Some t"
    using t' l(1) by simp_all
  obtain n1 s1 where s1': "uxListRemove (EventItem t) (ls k) = Some (n1, s1)" "sched_ok Q (insert t {}) s1 (tcb k) ?hi"
    "same_payload (ls k) s1" "pxContainer s1 = (pxContainer (ls k))(EventItem t := None)"
    "\<And>l'. is_list Q l' \<Longrightarrow> items s1 l' = (if l' = l then remove1 (EventItem t) (items (ls k) l) else items (ls k) l')"
    by (rule take_item [OF ok t(1) task_of.simps(2) t(3) l(2)]) (rule that; blast)
  have "items s1 l = xs" using s1'(5) [OF l(2)] h t(2) by simp
  note s1 = s1'(1-4) this
  obtain m where m: "pxContainer (ls k) (StateItem t) = Some m" "is_list Q m" "\<not> is_wait m"
    by (rule state_list [OF ok t(1)]) auto
  have m1: "pxContainer s1 (StateItem t) = Some m" using s1(4) m(1) by simp
  have lm: "l \<noteq> m" using l(1) m(3) by auto
  obtain n2 s2 where s2: "uxListRemove (StateItem t) s1 = Some (n2, s2)" "sched_ok Q (insert t {t}) s2 (tcb k) ?hi"
    "pxContainer s2 = (pxContainer s1)(StateItem t := None)" "items s2 l = xs"
    by (rule take_item [OF s1(2) t(1) _ m1 m(2)]) (use that s1(5) l lm in auto)
  have no: "pxContainer s2 (StateItem t) = None" "pxContainer s2 (EventItem t) = None" using s2(3) s1(4) by simp_all
  obtain s' where s': "prvAddTaskToReadyList t (k\<lparr>ls := s2\<rparr>) = Some (k\<lparr>uxTopReadyPriority := raised c k, ls := s'\<rparr>)"
    "sched_ok Q {} s' (tcb k) (raised c k)"
    "pxContainer s' = (pxContainer s2)(StateItem t := Some (Ready (unat (uxPriority c))))" "items s' l = items s2 l"
    by (rule add_ready [OF s2(2) t(1) no]) (use that l in auto)
  have "\<not> listLIST_IS_EMPTY l (ls k)" using list_empty [OF ok l(2)] h by simp
  then have w: "xTaskRemoveFromEventList l k = Some (if uxPriority c > uxPriority cur then pdTRUE else pdFALSE,
       k\<lparr>uxTopReadyPriority := raised c k, ls := s'\<rparr>)"
    unfolding xTaskRemoveFromEventList_def t(4) s1(1) s2(1)
    by (simp only: if_False bind.bind_lunit prod.case s1(1) s2(1) s'(1) simp_thms) (simp add: t(1) cur)
  have "items s' l = xs" using s'(4) s2(4) by simp
  moreover have "pxContainer s' = (pxContainer (ls k))(EventItem t := None, StateItem t := Some (Ready (unat (uxPriority c))))"
    unfolding s'(3) s2(3) s1(4) by simp
  ultimately show thesis by (rule that [OF t(1,2) w s'(2)])
qed

text \<open>A task of the delayed list, with or without an event it waits for.\<close>

lemma wake_ok:
  assumes ok: "kernel_ok Q {} k" and c: "tcb k t = Some c" and d: "pxContainer (ls k) (StateItem t) = Some Delayed"
  obtains s' where "wake_task t k = Some (k\<lparr>uxTopReadyPriority := raised c k, ls := s'\<rparr>)"
    "sched_ok Q {} s' (tcb k) (raised c k)"
    "pxContainer s' = (pxContainer (ls k))(EventItem t := None, StateItem t := Some (Ready (unat (uxPriority c))))"
    "items s' Delayed = remove1 (StateItem t) (items (ls k) Delayed)"
    "\<And>j. j \<noteq> StateItem t \<Longrightarrow> wake_time s' j = wake_time (ls k) j"
proof -
  let ?hi = "uxTopReadyPriority k"
  obtain n1 s1 where s1: "uxListRemove (StateItem t) (ls k) = Some (n1, s1)" "sched_ok Q (insert t {}) s1 (tcb k) ?hi"
    "same_payload (ls k) s1" "pxContainer s1 = (pxContainer (ls k))(StateItem t := None)"
    "items s1 Delayed = remove1 (StateItem t) (items (ls k) Delayed)"
    by (rule take_item [OF ok c _ d]) (use that in auto)
  obtain s2 where s2: "(if listGET_LIST_ITEM_CONTAINER (EventItem t) s1 \<noteq> None
      then map_option snd (uxListRemove (EventItem t) s1) else Some s1) = Some s2" "sched_ok Q {t} s2 (tcb k) ?hi"
    "same_payload s1 s2" "pxContainer s2 = (pxContainer s1)(EventItem t := None)" "items s2 Delayed = items s1 Delayed"
  proof (cases "pxContainer s1 (EventItem t)")
    case None
    then show thesis using that [of s1] s1(2)
      by (simp add: listGET_LIST_ITEM_CONTAINER_def same_payload_def fun_upd_idem)
  next
    case (Some m)
    have m: "is_list Q m" "m \<noteq> Delayed" using task_okD(6) [OF sched_okD(5) [OF s1(2) c] Some] by auto
    obtain n2 s2 where "uxListRemove (EventItem t) s1 = Some (n2, s2)" "sched_ok Q (insert t {t}) s2 (tcb k) ?hi"
      "same_payload s1 s2" "pxContainer s2 = (pxContainer s1)(EventItem t := None)" "items s2 Delayed = items s1 Delayed"
      by (rule take_item [OF s1(2) c _ Some m(1)]) (use that m in auto)
    then show thesis using that [of s2] Some by (simp add: listGET_LIST_ITEM_CONTAINER_def)
  qed
  have no: "pxContainer s2 (StateItem t) = None" "pxContainer s2 (EventItem t) = None" using s2(4) s1(4) by simp_all
  obtain s' where s': "prvAddTaskToReadyList t (k\<lparr>ls := s2\<rparr>) = Some (k\<lparr>uxTopReadyPriority := raised c k, ls := s'\<rparr>)"
    "sched_ok Q {} s' (tcb k) (raised c k)"
    "pxContainer s' = (pxContainer s2)(StateItem t := Some (Ready (unat (uxPriority c))))" "items s' Delayed = items s2 Delayed"
    "\<And>j. j \<noteq> StateItem t \<Longrightarrow> wake_time s' j = wake_time s2 j"
    by (rule add_ready [OF s2(2) c no]) (use that in auto)
  have w: "wake_task t k = Some (k\<lparr>uxTopReadyPriority := raised c k, ls := s'\<rparr>)"
    using s1(1) s2(1) s'(1) by (simp add: wake_task_def)
  have "\<And>j. j \<noteq> StateItem t \<Longrightarrow> wake_time s' j = wake_time (ls k) j"
    using s'(5) s2(3) s1(3) by (simp add: same_payload_def)
  then show thesis using that [OF w] s'(2-4) s2(4,5) s1(4,5) by (auto simp: fun_upd_twist)
qed

section \<open>The tick\<close>

definition expired :: "u32 \<Rightarrow> (titem, tlist, nat) list_store \<Rightarrow> nat \<Rightarrow> bool" where
  "expired now s t \<longleftrightarrow> pxContainer s (StateItem t) = Some Delayed \<and> wake_time s (StateItem t) \<le> now"

text \<open>Which tasks a tick wakes: the tasks whose time has come become ready, nothing else moves.\<close>

definition woken :: "u32 \<Rightarrow> (nat \<Rightarrow> TCB_t option) \<Rightarrow> (titem, tlist, nat) list_store \<Rightarrow> (titem, tlist, nat) list_store \<Rightarrow> bool" where
  "woken now cb s s' \<longleftrightarrow> (\<forall>t c. cb t = Some c \<longrightarrow>
     pxContainer s' (StateItem t) = (if expired now s t then Some (Ready (unat (uxPriority c))) else pxContainer s (StateItem t)) \<and>
     pxContainer s' (EventItem t) = (if expired now s t then None else pxContainer s (EventItem t)))"

lemma woken_refl: "(\<And>t c. cb t = Some c \<Longrightarrow> \<not> expired now s t) \<Longrightarrow> woken now cb s s"
  by (auto simp: woken_def)

lemma none_expired:
  assumes ok: "sched_ok Q T s cb hi" and h: "items s Delayed = [] \<or> (\<exists>i xs. items s Delayed = i # xs \<and> now < wake_time s i)"
  shows "\<not> expired now s t"
proof
  assume e: "expired now s t"
  then have m: "StateItem t \<in> set (items s Delayed)" using in_list [OF ok, of Delayed] by (simp add: expired_def)
  then obtain i xs where i: "items s Delayed = i # xs" "now < wake_time s i" using h by auto
  have "sorted (map (wake_time s) (i # xs))" using sched_okD(7) [OF ok, of Delayed] i(1) by simp
  then have "wake_time s i \<le> wake_time s (StateItem t)" using m i(1) by auto
  then show False using e i(2) unfolding expired_def by (meson leD order_trans)
qed

lemma tick_loop_ok:
  "kernel_ok Q {} k \<Longrightarrow> length (items (ls k) Delayed) = n \<Longrightarrow>
    \<exists>s' hi'. tick_loop k = Some (k\<lparr>uxTopReadyPriority := hi', ls := s'\<rparr>) \<and> sched_ok Q {} s' (tcb k) hi' \<and>
      woken (xTickCount k) (tcb k) (ls k) s'"
proof (induction n arbitrary: k)
  case 0
  then have e: "items (ls k) Delayed = []" by simp
  then have "tick_loop k = Some k"
    using list_empty [OF 0(1), of Delayed] by (subst tick_loop.simps) simp
  moreover have "woken (xTickCount k) (tcb k) (ls k) (ls k)"
    by (rule woken_refl) (use none_expired [OF 0(1)] e in blast)
  ultimately show ?case using 0(1) by (intro exI [of _ "ls k"] exI [of _ "uxTopReadyPriority k"]) simp
next
  case (Suc n)
  note ok = Suc.prems(1)
  obtain i xs where i: "items (ls k) Delayed = i # xs" using Suc.prems(2) by (cases "items (ls k) Delayed") auto
  have D: "is_list Q Delayed" by simp
  have ne: "\<not> listLIST_IS_EMPTY Delayed (ls k)" using list_empty [OF ok D] i by simp
  obtain t c where t: "tcb k t = Some c" "i = StateItem t" "pxContainer (ls k) (StateItem t) = Some Delayed"
    "head_owner Delayed (ls k) = Some t" "listGET_ITEM_VALUE_OF_HEAD_ENTRY Delayed (ls k) = Some (wake_time (ls k) i)"
    by (rule list_head [OF ok D i]) (use that in auto)
  show ?case
  proof (cases "wake_time (ls k) i > xTickCount k")
    case True
    then have "tick_loop k = Some k" using ne t(5) by (subst tick_loop.simps) simp
    moreover have "woken (xTickCount k) (tcb k) (ls k) (ls k)"
      by (rule woken_refl) (use none_expired [OF ok] i True in blast)
    ultimately show ?thesis using ok by (intro exI [of _ "ls k"] exI [of _ "uxTopReadyPriority k"]) simp
  next
    case False
    obtain s1 where s1: "wake_task t k = Some (k\<lparr>uxTopReadyPriority := raised c k, ls := s1\<rparr>)" "sched_ok Q {} s1 (tcb k) (raised c k)"
      "pxContainer s1 = (pxContainer (ls k))(EventItem t := None, StateItem t := Some (Ready (unat (uxPriority c))))"
      "items s1 Delayed = remove1 (StateItem t) (items (ls k) Delayed)"
      "\<And>j. j \<noteq> StateItem t \<Longrightarrow> wake_time s1 j = wake_time (ls k) j"
      by (rule wake_ok [OF ok t(1,3)]) (use that in auto)
    let ?k = "k\<lparr>uxTopReadyPriority := raised c k, ls := s1\<rparr>"
    have "length (items (ls ?k) Delayed) = n" using s1(4) i t(2) Suc.prems(2) by simp
    then obtain s' hi' where k': "tick_loop ?k = Some (?k\<lparr>uxTopReadyPriority := hi', ls := s'\<rparr>)"
      "sched_ok Q {} s' (tcb ?k) hi'" "woken (xTickCount ?k) (tcb ?k) (ls ?k) s'"
      using Suc.IH [of ?k] s1(2) by auto
    have "tick_loop k = tick_loop ?k" using ne t(4,5) False s1(1) by (subst tick_loop.simps) simp
    moreover have "woken (xTickCount k) (tcb k) (ls k) s'"
      using k'(3) s1(3,5) t False by (auto simp: woken_def expired_def not_less split: if_splits)
    ultimately show ?thesis using k'(1,2) by (intro exI [of _ s'] exI [of _ hi']) simp
  qed
qed

section \<open>Context switch\<close>

lemma find_ready_eq:
  assumes ok: "sched_ok Q T s cb hi" and n: "n < 32"
  shows "find_ready s n \<le> n" and "find_ready s n < p \<Longrightarrow> p \<le> n \<Longrightarrow> items s (Ready p) = []"
    and "find_ready s n \<noteq> 0 \<Longrightarrow> items s (Ready (find_ready s n)) \<noteq> []"
proof -
  have "find_ready s n \<le> n \<and> (\<forall>p. find_ready s n < p \<longrightarrow> p \<le> n \<longrightarrow> items s (Ready p) = []) \<and>
    (find_ready s n \<noteq> 0 \<longrightarrow> items s (Ready (find_ready s n)) \<noteq> [])" using n
  proof (induction n)
    case (Suc n)
    then show ?case using list_empty [OF ok, of "Ready (Suc n)"] by (auto simp: le_Suc_eq)
  qed simp
  then show "find_ready s n \<le> n" "find_ready s n < p \<Longrightarrow> p \<le> n \<Longrightarrow> items s (Ready p) = []"
    "find_ready s n \<noteq> 0 \<Longrightarrow> items s (Ready (find_ready s n)) \<noteq> []" by blast+
qed

text \<open>The highest priority at which a task is ready.\<close>

definition ready_at :: "'a kernel_scheme \<Rightarrow> nat \<Rightarrow> bool" where
  "ready_at k p \<longleftrightarrow> p < 32 \<and> items (ls k) (Ready p) \<noteq> []"

definition highest :: "'a kernel_scheme \<Rightarrow> nat \<Rightarrow> bool" where
  "highest k p \<longleftrightarrow> ready_at k p \<and> (\<forall>q. ready_at k q \<longrightarrow> q \<le> p)"

lemma find_ready_highest:
  assumes ok: "kernel_ok Q T k" and r: "ready_at k q"
  shows "highest k (find_ready (ls k) (unat (uxTopReadyPriority k)))"
proof -
  let ?n = "unat (uxTopReadyPriority k)"
  have n: "?n < 32" using sched_okD(6) [OF ok] unat_32 by (simp add: top_ok_def)
  note f = find_ready_eq [OF ok n]
  have le: "p \<le> find_ready (ls k) ?n" if p: "ready_at k p" for p
  proof -
    obtain i where i: "i \<in> set (items (ls k) (Ready p))" "p < 32" using p by (metis ready_at_def list.set_intros(1) neq_Nil_conv)
    have l: "is_list Q (Ready p)" using i(2) by simp
    obtain t where "i = StateItem t" using list_item [OF ok l i(1)] by (metis is_wait.simps(3))
    then have "p \<le> ?n" using in_list [OF ok l] i(1) sched_okD(6) [OF ok] by (auto simp: top_ok_def)
    then show ?thesis using f(2) [of p] p by (force simp: ready_at_def)
  qed
  have "items (ls k) (Ready (find_ready (ls k) ?n)) \<noteq> []"
  proof (cases "find_ready (ls k) ?n = 0")
    case True
    then show ?thesis using le [OF r] r by (simp add: ready_at_def)
  qed (rule f(3))
  then show ?thesis using le f(1) n by (simp add: highest_def ready_at_def)
qed

lemma turns_items:
  assumes "sched_ok Q T s cb hi" "is_list Q l"
  shows "set (turns s l) = set (items s l)" "turns s l = [] \<longleftrightarrow> items s l = []"
proof -
  have "list_ok s l (items s l)" using store_okD [OF sched_okD(1) [OF assms(1)]] assms(2) by simp
  note r = rot_set [OF list_okD(6) [OF this]]
  show "set (turns s l) = set (items s l)" using r(1) by (simp add: turns_def)
  show "turns s l = [] \<longleftrightarrow> items s l = []" using r(3) by (auto simp: turns_def simp flip: length_0_conv)
qed

lemma switch_ok:
  assumes ok: "kernel_ok Q {} k" and r: "ready_at k q"
    and g: "pxCurrentTCB k = 0 \<or> stack_overrun (pxCurrentTCB k) k = Some False"
  obtains p t c ts s' where "highest k p" "turns (ls k) (Ready p) = StateItem t # ts" "tcb k t = Some c" "p = unat (uxPriority c)"
    "vTaskSwitchContext k = Some (k\<lparr>uxTopReadyPriority := of_nat p, ls := s', pxCurrentTCB := t\<rparr>)"
    "sched_ok Q {} s' (tcb k) (of_nat p)" "turns s' (Ready p) = ts @ [StateItem t]"
    "\<And>l. l \<noteq> Ready p \<Longrightarrow> turns s' l = turns (ls k) l" "pxContainer s' = pxContainer (ls k)" "items s' = items (ls k)"
    "same_payload (ls k) s'"
proof -
  define p where "p = find_ready (ls k) (unat (uxTopReadyPriority k))"
  have h: "highest k p" unfolding p_def by (rule find_ready_highest [OF ok r])
  then have p: "p < 32" "items (ls k) (Ready p) \<noteq> []" by (auto simp: highest_def ready_at_def)
  have l: "is_list Q (Ready p)" using p(1) by simp
  obtain i ts where its: "turns (ls k) (Ready p) = i # ts"
    using turns_items(2) [OF ok l] p(2) by (cases "turns (ls k) (Ready p)") auto
  have i: "i \<in> set (items (ls k) (Ready p))" using turns_items(1) [OF ok l] its by auto
  obtain t c where t: "tcb k t = Some c" "i = StateItem t" "pvOwner (ls k) i = Some t"
    by (rule list_item [OF ok l i]) (use that in auto)
  have con: "pxContainer (ls k) (StateItem t) = Some (Ready p)" using in_list [OF ok l] i t(2) by simp
  then have pc: "p = unat (uxPriority c)" using task_okD(8) [OF sched_okD(5) [OF ok t(1)]] by simp
  have lk: "Ready p \<in> klists Q" using l by simp
  obtain s' where s': "listGET_OWNER_OF_NEXT_ENTRY (Ready p) (ls k) = Some (pvOwner (ls k) i, s')"
    "s' = (ls k)\<lparr>pxIndex := (pxIndex (ls k))(Ready p := Some (Item i))\<rparr>" "store_ok s' (klists Q)" "turns s' (Ready p) = ts @ [i]"
    by (rule next_entry_ok [OF sched_okD(1) [OF ok] lk its]) (use that in blast)
  have it: "items s' = items (ls k)" by (rule ext) (simp add: s'(2) items_set_index)
  have same: "pxContainer s' = pxContainer (ls k)" "same_payload (ls k) s'" by (simp_all add: s'(2) same_payload_def)
  have tt: "turns s' l' = turns (ls k) l'" if "l' \<noteq> Ready p" for l' using that by (simp add: turns_def it) (simp add: s'(2))
  have u: "unat (of_nat p :: u64) = p" using p(1) by (simp add: unat_of_nat)
  have top: "top_ok s' (of_nat p)"
  proof -
    have "q \<le> p" if "pxContainer (ls k) (StateItem t') = Some (Ready q)" for t' q
    proof -
      have "tcb k t' \<noteq> None" using sched_okD(4) [OF ok that] by auto
      then obtain c' where "tcb k t' = Some c'" by blast
      then have lq: "is_list Q (Ready q)" using task_okD(7) [OF sched_okD(5) [OF ok]] that by blast
      then have "StateItem t' \<in> set (items (ls k) (Ready q))" using in_list [OF ok lq] that by simp
      then have "ready_at k q" using lq by (auto simp: ready_at_def)
      then show ?thesis using h by (simp add: highest_def)
    qed
    moreover have "(of_nat p :: u64) < 32" using p(1) u by (simp add: word_less_nat_alt)
    ultimately show ?thesis by (simp add: top_ok_def same u)
  qed
  have sok: "sched_ok Q {} s' (tcb k) (of_nat p)"
    by (rule sched_okI [OF s'(3)])
      (use sched_okD [OF ok] top same it in \<open>auto simp: same_payload_def task_ok_def\<close>)
  have hi: "uxTopReadyPriority k < 32" using sched_okD(6) [OF ok] by (simp add: top_ok_def)
  have chk: "(if pxCurrentTCB k \<noteq> 0 then prvCheckStackOverflow (pxCurrentTCB k) k else Some ()) = Some ()"
    using g by (auto simp: prvCheckStackOverflow_def)
  have "vTaskSwitchContext k = Some (k\<lparr>uxTopReadyPriority := of_nat p, ls := s', pxCurrentTCB := t\<rparr>)"
    unfolding vTaskSwitchContext_def chk using hi s'(1) t(3) by (simp add: p_def [symmetric] configMAX_PRIORITIES_def ub_guard_def)
  then show thesis using that [OF h _ t(1) pc _ sok] its t(2) s'(4) tt same it by auto
qed

section \<open>Priority inheritance\<close>

lemma set_tcb_ok:
  assumes ok: "sched_ok Q T s cb hi" and c: "cb t = Some c" and c': "task_ok Q (t \<in> T) s t c'"
  shows "sched_ok Q T s (cb(t := Some c')) hi"
proof -
  have d: "dom (cb(t := Some c')) = dom cb" using c by auto
  show ?thesis using ok c' unfolding sched_ok_def d by auto
qed

lemma reprioritise_ok:
  assumes ok: "kernel_ok Q {} k" and c: "tcb k t = Some c" and p: "np < 32" "uxBasePriority c \<le> np"
  defines "cb \<equiv> (tcb k)(t := Some (c\<lparr>uxPriority := np\<rparr>))"
  obtains s' hi' where "prvReprioritise t np k = Some (k\<lparr>tcb := cb, uxTopReadyPriority := hi', ls := s'\<rparr>)"
    "sched_ok Q {} s' cb hi'"
    "pxContainer s' = (if runs k t then (pxContainer (ls k))(StateItem t := Some (Ready (unat np))) else pxContainer (ls k))"
    "\<And>l. is_wait l \<Longrightarrow> is_list Q l \<Longrightarrow> items s' l = items (ls k) l"
proof (cases "runs k t")
  case True
  let ?hi = "uxTopReadyPriority k"
  obtain c1 where "tcb k t = Some c1" "pxContainer (ls k) (StateItem t) = Some (Ready (unat (uxPriority c1)))"
    "pxContainer (ls k) (EventItem t) = None" "is_list Q (Ready (unat (uxPriority c1)))"
    by (rule runsD [OF ok True]) auto
  then have r: "pxContainer (ls k) (StateItem t) = Some (Ready (unat (uxPriority c)))" "pxContainer (ls k) (EventItem t) = None"
    "is_list Q (Ready (unat (uxPriority c)))" using c by simp_all
  obtain n s1 where s1: "uxListRemove (StateItem t) (ls k) = Some (n, s1)" "sched_ok Q (insert t {}) s1 (tcb k) ?hi"
    "pxContainer s1 = (pxContainer (ls k))(StateItem t := None)"
    "\<And>l. is_list Q l \<Longrightarrow> is_wait l \<Longrightarrow> items s1 l = items (ls k) l"
    by (rule take_item [OF ok c _ r(1,3)]) (use that in auto)
  have "task_ok Q (t \<in> {t}) s1 t (c\<lparr>uxPriority := np\<rparr>)"
    using sched_okD(5) [OF s1(2) c] p by (simp add: task_ok_def)
  then have ok1: "sched_ok Q {t} s1 (tcb (k\<lparr>tcb := cb\<rparr>)) (uxTopReadyPriority (k\<lparr>tcb := cb\<rparr>))"
    using set_tcb_ok [OF s1(2) c] by (simp add: cb_def)
  have c1: "tcb (k\<lparr>tcb := cb\<rparr>) t = Some (c\<lparr>uxPriority := np\<rparr>)" by (simp add: cb_def)
  have no: "pxContainer s1 (StateItem t) = None" "pxContainer s1 (EventItem t) = None" using s1(3) r(2) by simp_all
  obtain s' where s': "prvAddTaskToReadyList t (k\<lparr>tcb := cb, ls := s1\<rparr>) =
      Some (k\<lparr>tcb := cb, uxTopReadyPriority := raised (c\<lparr>uxPriority := np\<rparr>) (k\<lparr>tcb := cb\<rparr>), ls := s'\<rparr>)"
    "sched_ok Q {} s' cb (raised (c\<lparr>uxPriority := np\<rparr>) (k\<lparr>tcb := cb\<rparr>))"
    "pxContainer s' = (pxContainer s1)(StateItem t := Some (Ready (unat np)))"
    "\<And>l. is_list Q l \<Longrightarrow> is_wait l \<Longrightarrow> items s' l = items s1 l"
    by (rule add_ready [OF ok1 c1 no]) (use that in auto)
  have sw: "k\<lparr>ls := s1, tcb := cb\<rparr> = k\<lparr>tcb := cb, ls := s1\<rparr>" by simp
  note s1' = s'(1) [folded sw]
  have "prvReprioritise t np k = Some (k\<lparr>tcb := cb, uxTopReadyPriority := raised (c\<lparr>uxPriority := np\<rparr>) (k\<lparr>tcb := cb\<rparr>), ls := s'\<rparr>)"
    using c ready_list [OF task_okD(2) [OF sched_okD(5) [OF ok c]]] r(1) s1(1) s1'
    by (simp add: prvReprioritise_def listIS_CONTAINED_WITHIN_def cb_def [symmetric])
  then show thesis using that s'(2-4) s1(3,4) True by auto
next
  case False
  note tk = sched_okD(5) [OF ok c]
  have nr: "pxContainer (ls k) (StateItem t) \<noteq> Some (Ready q)" for q
    using False task_okD(8) [OF tk] c by (auto simp: runs_def)
  have "placed (c\<lparr>uxPriority := np\<rparr>) (pxContainer (ls k) (StateItem t)) (pxContainer (ls k) (EventItem t))"
    using task_okD(8) [OF tk] nr
    by (cases "(c, pxContainer (ls k) (StateItem t), pxContainer (ls k) (EventItem t))" rule: placed.cases) auto
  then have "task_ok Q (t \<in> {}) (ls k) t (c\<lparr>uxPriority := np\<rparr>)" using tk p by (simp add: task_ok_def)
  then have "sched_ok Q {} (ls k) cb (uxTopReadyPriority k)" unfolding cb_def by (rule set_tcb_ok [OF ok c])
  moreover have "prvReprioritise t np k = Some (k\<lparr>tcb := cb\<rparr>)"
    using c nr ready_list [OF task_okD(2) [OF tk]] by (simp add: prvReprioritise_def listIS_CONTAINED_WITHIN_def cb_def)
  moreover have "k\<lparr>tcb := cb, uxTopReadyPriority := uxTopReadyPriority k, ls := ls k\<rparr> = k\<lparr>tcb := cb\<rparr>" by simp
  ultimately show thesis using that [of "ls k" "uxTopReadyPriority k"] False by auto
qed

end
