(* ===== verification/Sched_Props.thy ===== *)
theory Sched_Props
  imports Sched_Inv
begin

text \<open>
  Correctness of the scheduler of \<^verbatim>\<open>kernel/tasks.c\<close>: creation and every later operation keep the
  invariant of \<^verbatim>\<open>Sched_Inv\<close>, the context switch picks the next task in turn at the highest ready priority,
  the tick wakes exactly the tasks whose time has come, and priority inheritance.
\<close>

section \<open>Critical sections leave the scheduler alone\<close>

lemma enter_frame [simp]:
  "ls (vPortEnterCritical k) = ls k" "tcb (vPortEnterCritical k) = tcb k" "stk (vPortEnterCritical k) = stk k"
  "uxTopReadyPriority (vPortEnterCritical k) = uxTopReadyPriority k" "pxCurrentTCB (vPortEnterCritical k) = pxCurrentTCB k"
  "xTickCount (vPortEnterCritical k) = xTickCount k" "xInheritEnabled (vPortEnterCritical k) = xInheritEnabled k"
  by (simp_all add: vPortEnterCritical_def portDISABLE_INTERRUPTS_def Let_def)

lemma exit_frame [simp]:
  "ls (vPortExitCritical k) = ls k" "tcb (vPortExitCritical k) = tcb k" "stk (vPortExitCritical k) = stk k"
  "uxTopReadyPriority (vPortExitCritical k) = uxTopReadyPriority k" "pxCurrentTCB (vPortExitCritical k) = pxCurrentTCB k"
  "xTickCount (vPortExitCritical k) = xTickCount k" "xInheritEnabled (vPortExitCritical k) = xInheritEnabled k"
  by (simp_all add: vPortExitCritical_def portENABLE_INTERRUPTS_def Let_def)

section \<open>Creation\<close>

text \<open>A kernel without tasks after the lists have been initialised.\<close>

lemma init_ready_ok:
  assumes "\<And>i. pxContainer s i = None"
  shows "store_ok (init_ready_lists n s) (Ready ` {..<n}) \<and> (\<forall>i. pxContainer (init_ready_lists n s) i = None)"
proof (induction n)
  case 0
  then show ?case using assms by (simp add: store_ok_def)
next
  case (Suc n)
  then show ?case
    using store_ok_initialise(1) [of "init_ready_lists n s" "Ready ` {..<n}" "Ready n"]
    by (simp add: lessThan_Suc vListInitialise_def)
qed

lemma init_lists_ok:
  assumes "\<And>i. pxContainer (ls k) i = None" "tcb k = Map.empty" "uxTopReadyPriority k < 32"
  shows "kernel_ok {} {} (prvInitialiseTaskLists k)"
proof -
  let ?s = "init_ready_lists (unat configMAX_PRIORITIES) (ls k)"
  let ?d = "vListInitialise Delayed ?s" and ?u = "vListInitialise Suspended (vListInitialise Delayed ?s)"
  have s: "store_ok ?s (Ready ` {..<32})" "\<And>i. pxContainer ?s i = None"
    using init_ready_ok [OF assms(1), of "unat configMAX_PRIORITIES"] by (simp_all add: configMAX_PRIORITIES_def)
  have d: "store_ok ?d (insert Delayed (Ready ` {..<32}))" "items ?d Delayed = []" "\<And>i. pxContainer ?d i = None"
    using store_ok_initialise(1,2) [OF s(1), of Delayed] s(2) by (simp_all add: vListInitialise_def)
  have u: "store_ok ?u (insert Suspended (insert Delayed (Ready ` {..<32})))" "items ?u Delayed = []" "\<And>i. pxContainer ?u i = None"
    using store_ok_initialise(1) [OF d(1), of Suspended] store_ok_initialise(3) [OF d(1), of Suspended Delayed] d(2,3)
    by (simp_all add: vListInitialise_def)
  have L: "klists {} = insert Suspended (insert Delayed (Ready ` {..<32}))"
  proof (rule set_eqI)
    fix l show "l \<in> klists {} \<longleftrightarrow> l \<in> insert Suspended (insert Delayed (Ready ` {..<32}))" by (cases l) auto
  qed
  have "is_wait l \<Longrightarrow> \<not> is_list {} l" for l by (cases l) auto
  then have "sched_ok {} {} ?u Map.empty (uxTopReadyPriority k)"
    using u assms(3) by (intro sched_okI) (auto simp: L top_ok_def)
  then show ?thesis using assms(2) by (simp add: prvInitialiseTaskLists_def Let_def)
qed

text \<open>A new control block whose items are in no list.\<close>

lemma init_items_ok:
  assumes ok: "sched_ok Q T s cb hi" and t: "cb t = None" "t \<noteq> 0"
    and c: "uxPriority c = p" "uxBasePriority c = p" "p < 32" and n: "card (dom cb) + 1 < 2 ^ 62"
  shows "sched_ok Q (insert t T) (init_items t p s) (cb(t := Some c)) hi"
    and "pxContainer (init_items t p s) = pxContainer s"
    and "pxContainer s (StateItem t) = None" "pxContainer s (EventItem t) = None"
proof -
  let ?s = "init_items t p s"
  have no: "pxContainer s i = None" if "task_of i = t" for i
    using sched_okD(4) [OF ok, of i] t(1) that by (cases "pxContainer s i") auto
  show "pxContainer s (StateItem t) = None" "pxContainer s (EventItem t) = None" by (simp_all add: no)
  note defs = init_items_def vListInitialiseItem_def listSET_LIST_ITEM_OWNER_def listSET_LIST_ITEM_VALUE_def Let_def
  show con: "pxContainer ?s = pxContainer s" by (rule ext) (simp add: defs no)
  have val: "wake_time ?s i = wake_time s i" "pvOwner ?s i = pvOwner s i" if "task_of i \<noteq> t" for i
    using that by (auto simp: defs)
  have lo: "list_ok ?s l (items s l)" if "is_list Q l" for l
  proof -
    have l: "list_ok s l (items s l)" using store_okD [OF sched_okD(1) [OF ok]] that by simp
    have "StateItem t \<notin> set (items s l)" "EventItem t \<notin> set (items s l)" using in_list [OF ok that] no by auto
    with l show ?thesis unfolding init_items_def Let_def
      by (intro list_ok_set_value list_ok_set_owner list_ok_initialise_item)
  qed
  have it: "items ?s l = items s l" if "is_list Q l" for l by (rule list_ok_items [OF lo [OF that]])
  have d: "dom (cb(t := Some c)) = insert t (dom cb)" by simp
  show "sched_ok Q (insert t T) ?s (cb(t := Some c)) hi"
  proof (rule sched_okI)
    show "store_ok ?s (klists Q)" by (rule store_okI) (use lo in blast)
    show "card (dom (cb(t := Some c))) < 2 ^ 62"
      unfolding d using n card_insert_le_m1 [of "Suc (card (dom cb))" "dom cb" t] t(1) sched_okD(2) [OF ok]
      by (simp add: card_insert_if)
    fix t' c' assume c': "(cb(t := Some c)) t' = Some c'"
    show "task_ok Q (t' \<in> insert t T) ?s t' c'"
    proof (cases "t' = t")
      case True
      then show ?thesis using c' c t(2) con no by (simp add: task_ok_def) (simp add: defs configMAX_PRIORITIES_def)
    next
      case False
      then have "cb t' = Some c'" using c' by simp
      from sched_okD(5) [OF ok this] show ?thesis using False val con by (simp add: task_ok_def)
    qed
  next
    fix l assume l: "is_list Q l" "l = Delayed \<or> is_wait l"
    have "task_of i \<noteq> t" if "i \<in> set (items s l)" for i using that in_list [OF ok l(1)] no by auto
    then have m: "map (wake_time ?s) (items s l) = map (wake_time s) (items s l)" using val by simp
    show "sorted (map (wake_time ?s) (items ?s l))" unfolding it [OF l(1)] m by (rule sched_okD(7) [OF ok l])
  qed (use sched_okD(2,4,6) [OF ok] con in \<open>auto simp: top_ok_def\<close>)
qed

lemma build_ok:
  fixes name :: "string option"
  assumes ok: "kernel_ok Q {} k" and t: "tcb k t = None" "t \<noteq> 0" and p: "p < 32" and n: "card (dom (tcb k)) + 1 < 2 ^ 62"
    and sp: "pxPortInitialiseStack (vPortTaskExit_at im) ((stack + 8 * (unat depth - 1)) AND sz_not portBYTE_ALIGNMENT_MASK)
      code par (paint_stack stack (unat depth) (stk k)) = Some (sp, m)" "stack \<le> sp"
  defines "c \<equiv> \<lparr>pxTopOfStack = sp, uxPriority = p, uxBasePriority = p, pxStack = stack, uxStackDepth = depth,
    pcTaskName = task_name name\<rparr>"
  obtains k' where "build_task im code name depth par p stack t k = Some k'" "kernel_ok Q {} k'"
    "tcb k' = (tcb k)(t := Some c)" "stk k' = m" "pxCurrentTCB k' = (if pxCurrentTCB k = 0 then t else pxCurrentTCB k)"
    "pxContainer (ls k') = (pxContainer (ls k))(StateItem t := Some (Ready (unat p)))"
proof -
  define s where "s = init_items t p (ls k)"
  have cf: "uxPriority c = p" "uxBasePriority c = p" by (simp_all add: c_def)
  note i = init_items_ok [OF ok t cf p n, folded s_def]
  define k1 where "k1 = vPortEnterCritical (k\<lparr>stk := m, ls := s, tcb := (tcb k)(t := Some c)\<rparr>)"
  define k2 where "k2 = k1\<lparr>uxCurrentNumberOfTasks := uxCurrentNumberOfTasks k1 + 1\<rparr>"
  define k3 where "k3 = (if length (pxTaskRegistry k2) < configMAX_TASKS then k2\<lparr>pxTaskRegistry := pxTaskRegistry k2 @ [t]\<rparr> else k2)"
  define k4 where "k4 = (if pxCurrentTCB k3 = 0 then k3\<lparr>pxCurrentTCB := t\<rparr> else k3)"
  have f: "ls k4 = s" "tcb k4 = (tcb k)(t := Some c)" "uxTopReadyPriority k4 = uxTopReadyPriority k" "stk k4 = m"
    "pxCurrentTCB k4 = (if pxCurrentTCB k = 0 then t else pxCurrentTCB k)"
    by (simp_all add: k4_def k3_def k2_def k1_def)
  have ok4: "sched_ok Q (insert t {}) s (tcb k4) (uxTopReadyPriority k4)" using i(1) f by simp
  have c4: "tcb k4 t = Some c" using f by simp
  have no: "pxContainer s (StateItem t) = None" "pxContainer s (EventItem t) = None" using i(2-4) by simp_all
  obtain s' where s': "prvAddTaskToReadyList t (k4\<lparr>ls := s\<rparr>) = Some (k4\<lparr>uxTopReadyPriority := raised c k4, ls := s'\<rparr>)"
    "sched_ok Q {} s' (tcb k4) (raised c k4)"
    "pxContainer s' = (pxContainer s)(StateItem t := Some (Ready (unat (uxPriority c))))"
    by (rule add_ready [OF ok4 c4 no]) (use that in auto)
  have same: "k4\<lparr>ls := s\<rparr> = k4" using f(1) by simp
  have "register_task t k1 = Some (k4\<lparr>uxTopReadyPriority := raised c k4, ls := s'\<rparr>)"
    unfolding register_task_def Let_def k2_def [symmetric] k3_def [symmetric] k4_def [symmetric] s'(1) [unfolded same] by simp
  then have b: "build_task im code name depth par p stack t k =
      Some (vPortExitCritical (k4\<lparr>uxTopReadyPriority := raised c k4, ls := s'\<rparr>))"
    using sp by (simp add: build_task_def Let_def c_def [symmetric] s_def [symmetric] k1_def [symmetric])
  show thesis by (rule that [OF b]) (use s' i(2) f cf in simp_all)
qed

section \<open>The system\<close>

text \<open>
  Between two operations the current task and the idle task are ready and the guard words of
  every stack are intact.
\<close>

definition guards_ok :: "'a kernel_scheme \<Rightarrow> bool" where
  "guards_ok k \<longleftrightarrow> (\<forall>t c. tcb k t = Some c \<longrightarrow> stk k (pxStack c) = FLINT_STACK_FILL \<and> stk k (pxStack c + 8) = FLINT_STACK_FILL)"

definition sys_ok :: "nat set \<Rightarrow> nat \<Rightarrow> 'a kernel_scheme \<Rightarrow> bool" where
  "sys_ok Q idle k \<longleftrightarrow> kernel_ok Q {} k \<and> runs k (pxCurrentTCB k) \<and> runs k idle \<and> guards_ok k"

text \<open>The stack pointer saved at a yield lies in the task's stack.\<close>

definition sp_ok :: "'a kernel_scheme \<Rightarrow> nat \<Rightarrow> bool" where
  "sp_ok k sp \<longleftrightarrow> (\<forall>c. tcb k (pxCurrentTCB k) = Some c \<longrightarrow> pxStack c \<le> sp)"

lemma runs_ready:
  assumes ok: "kernel_ok Q {} k" and r: "runs k t"
  obtains p where "ready_at k p"
proof -
  obtain c where c: "tcb k t = Some c" "pxContainer (ls k) (StateItem t) = Some (Ready (unat (uxPriority c)))"
    "is_list Q (Ready (unat (uxPriority c)))" by (rule runsD [OF ok r]) auto
  then have "StateItem t \<in> set (items (ls k) (Ready (unat (uxPriority c))))" using in_list [OF ok c(3)] by simp
  then have "items (ls k) (Ready (unat (uxPriority c))) \<noteq> []" by (metis empty_iff empty_set)
  then show thesis using that [of "unat (uxPriority c)"] c(3) by (simp add: ready_at_def)
qed

text \<open>A yield: the stack pointer is saved and the next task in turn at the highest ready priority runs.\<close>

lemma yield_ok:
  assumes ok: "kernel_ok Q {} k" and r: "runs k idle" and g: "guards_ok k"
    and c: "tcb k (pxCurrentTCB k) = Some c" and sp: "pxStack c \<le> sp"
  obtains p t ct ts s' where "highest k p" "turns (ls k) (Ready p) = StateItem t # ts" "tcb k t = Some ct" "p = unat (uxPriority ct)"
    "taskYIELD sp k = Some (k\<lparr>tcb := (tcb k)(pxCurrentTCB k := Some (c\<lparr>pxTopOfStack := sp\<rparr>)), uxTopReadyPriority := of_nat p,
       ls := s', pxCurrentTCB := t\<rparr>)"
    "sys_ok Q idle (k\<lparr>tcb := (tcb k)(pxCurrentTCB k := Some (c\<lparr>pxTopOfStack := sp\<rparr>)), uxTopReadyPriority := of_nat p,
       ls := s', pxCurrentTCB := t\<rparr>)"
    "turns s' (Ready p) = ts @ [StateItem t]" "\<And>l. l \<noteq> Ready p \<Longrightarrow> turns s' l = turns (ls k) l"
    "pxContainer s' = pxContainer (ls k)"
proof -
  let ?cb = "(tcb k)(pxCurrentTCB k := Some (c\<lparr>pxTopOfStack := sp\<rparr>))"
  let ?k = "k\<lparr>tcb := ?cb\<rparr>"
  have "task_ok Q (pxCurrentTCB k \<in> {}) (ls k) (pxCurrentTCB k) (c\<lparr>pxTopOfStack := sp\<rparr>)"
  proof -
    have "placed (c\<lparr>pxTopOfStack := sp\<rparr>) a b = placed c a b" for a b
      by (cases "(c, a, b)" rule: placed.cases) auto
    then show ?thesis using sched_okD(5) [OF ok c] by (simp add: task_ok_def)
  qed
  then have ok1: "kernel_ok Q {} ?k" using set_tcb_ok [OF ok c] by simp
  obtain q where "ready_at k q" by (rule runs_ready [OF ok r])
  then have q: "ready_at ?k q" by (simp add: ready_at_def)
  have st: "pxCurrentTCB ?k = 0 \<or> stack_overrun (pxCurrentTCB ?k) ?k = Some False"
    using g c sp by (simp add: stack_overrun_def guards_ok_def)
  obtain p t ct ts s' where s': "highest ?k p" "turns (ls ?k) (Ready p) = StateItem t # ts" "tcb ?k t = Some ct" "p = unat (uxPriority ct)"
    "vTaskSwitchContext ?k = Some (?k\<lparr>uxTopReadyPriority := of_nat p, ls := s', pxCurrentTCB := t\<rparr>)"
    "sched_ok Q {} s' (tcb ?k) (of_nat p)" "turns s' (Ready p) = ts @ [StateItem t]"
    "\<And>l. l \<noteq> Ready p \<Longrightarrow> turns s' l = turns (ls ?k) l" "pxContainer s' = pxContainer (ls ?k)"
    by (rule switch_ok [OF ok1 q st]) (rule that; blast)
  obtain ct' where ct': "tcb k t = Some ct'" "p = unat (uxPriority ct')"
    using s'(3,4) c by (auto split: if_splits)
  have h: "highest k p" using s'(1) by (simp add: highest_def ready_at_def)
  have y: "taskYIELD sp k = Some (k\<lparr>tcb := ?cb, uxTopReadyPriority := of_nat p, ls := s', pxCurrentTCB := t\<rparr>)"
    using s'(5) c by (simp add: taskYIELD_def SAVE_SP_TO_TCB_def)
  have tl: "is_list Q (Ready p)" using h by (simp add: highest_def ready_at_def)
  have "StateItem t \<in> set (items (ls k) (Ready p))" using turns_items(1) [OF ok tl] s'(2) by auto
  then have con: "pxContainer (ls k) (StateItem t) = Some (Ready p)" using in_list [OF ok tl] by simp
  have "sys_ok Q idle (k\<lparr>tcb := ?cb, uxTopReadyPriority := of_nat p, ls := s', pxCurrentTCB := t\<rparr>)"
    using s'(6,9) con ct' r g c by (auto simp: sys_ok_def runs_def guards_ok_def)
  then show thesis using that [OF h _ ct' y] s'(2,7-9) by simp
qed

text \<open>The operations the kernel performs on behalf of tasks and of the tick interrupt.\<close>

datatype sched_op =
    Yield nat | Delay nat u32 | Block nat tlist u32 | Wake tlist | Tick | Inherit nat | Disinherit nat

fun exec :: "sched_op \<Rightarrow> 'a kernel_scheme \<Rightarrow> 'a kernel_scheme ub" where
  "exec (Yield sp) k = taskYIELD sp k"
| "exec (Delay sp d) k = vTaskDelay sp d k"
| "exec (Block sp l d) k = vTaskPlaceOnEventList l d k \<bind> taskYIELD sp"
| "exec (Wake l) k = map_option snd (xTaskRemoveFromEventList l k)"
| "exec Tick k = xTaskIncrementTick k"
| "exec (Inherit t) k = vTaskPriorityInherit t k"
| "exec (Disinherit t) k = map_option snd (vTaskPriorityDisinherit t k)"

text \<open>What the callers respect: the idle task never blocks, and the lists and tasks they name exist.\<close>

fun op_ok :: "nat set \<Rightarrow> nat \<Rightarrow> 'a kernel_scheme \<Rightarrow> sched_op \<Rightarrow> bool" where
  "op_ok Q idle k (Yield sp) \<longleftrightarrow> sp_ok k sp"
| "op_ok Q idle k (Delay sp d) \<longleftrightarrow> sp_ok k sp \<and> pxCurrentTCB k \<noteq> idle"
| "op_ok Q idle k (Block sp l d) \<longleftrightarrow> sp_ok k sp \<and> pxCurrentTCB k \<noteq> idle \<and> is_wait l \<and> is_list Q l"
| "op_ok Q idle k (Wake l) \<longleftrightarrow> is_wait l \<and> is_list Q l"
| "op_ok Q idle k Tick \<longleftrightarrow> True"
| "op_ok Q idle k (Inherit t) \<longleftrightarrow> t = 0 \<or> tcb k t \<noteq> None"
| "op_ok Q idle k (Disinherit t) \<longleftrightarrow> t = 0 \<or> tcb k t \<noteq> None"

lemma sys_okD:
  assumes "sys_ok Q idle k"
  shows "kernel_ok Q {} k" "runs k (pxCurrentTCB k)" "runs k idle" "guards_ok k"
  using assms by (simp_all add: sys_ok_def)

lemma sys_cur:
  assumes "sys_ok Q idle k"
  obtains c where "tcb k (pxCurrentTCB k) = Some c"
  using sys_okD(2) [OF assms] by (auto simp: runs_def)

text \<open>An operation that moves only tasks that are not ready keeps the system invariant.\<close>

lemma sys_ok_moved:
  assumes "sys_ok Q idle k" "sched_ok Q {} s' (tcb k) hi'"
    and "\<And>t. runs k t \<Longrightarrow> pxContainer s' (StateItem t) = pxContainer (ls k) (StateItem t)"
  shows "sys_ok Q idle (k\<lparr>uxTopReadyPriority := hi', ls := s'\<rparr>)"
  using assms by (auto simp: sys_ok_def runs_def guards_ok_def)

lemma exec_wake:
  assumes ok: "sys_ok Q idle k" and l: "is_wait l" "is_list Q l"
  shows "\<exists>k'. exec (Wake l) k = Some k' \<and> sys_ok Q idle k'"
proof (cases "items (ls k) l")
  case Nil
  then show ?thesis using ok list_empty [OF sys_okD(1) [OF ok] l(2)] by (simp add: xTaskRemoveFromEventList_def)
next
  case (Cons i xs)
  obtain cur where cur: "tcb k (pxCurrentTCB k) = Some cur" by (rule sys_cur [OF ok])
  obtain t c s' where w: "tcb k t = Some c" "i = EventItem t"
    "xTaskRemoveFromEventList l k = Some (if uxPriority c > uxPriority cur then pdTRUE else pdFALSE,
       k\<lparr>uxTopReadyPriority := raised c k, ls := s'\<rparr>)"
    "sched_ok Q {} s' (tcb k) (raised c k)"
    "pxContainer s' = (pxContainer (ls k))(EventItem t := None, StateItem t := Some (Ready (unat (uxPriority c))))"
    by (rule event_wake_ok [OF sys_okD(1) [OF ok] l Cons cur]) (rule that)
  have "sys_ok Q idle (k\<lparr>uxTopReadyPriority := raised c k, ls := s'\<rparr>)"
    by (rule sys_ok_moved [OF ok w(4)]) (use w(1,5) in \<open>auto simp: runs_def\<close>)
  then show ?thesis using w(3) by simp
qed

lemma exec_tick:
  assumes ok: "sys_ok Q idle k"
  shows "\<exists>k'. exec Tick k = Some k' \<and> sys_ok Q idle k'"
proof -
  let ?k = "k\<lparr>xTickCount := xTickCount k + 1\<rparr>"
  have ok': "sys_ok Q idle ?k" using ok by (simp add: sys_ok_def runs_def guards_ok_def)
  obtain s' hi' where t: "tick_loop ?k = Some (?k\<lparr>uxTopReadyPriority := hi', ls := s'\<rparr>)" "sched_ok Q {} s' (tcb ?k) hi'"
    "woken (xTickCount ?k) (tcb ?k) (ls ?k) s'"
    using tick_loop_ok [OF sys_okD(1) [OF ok'] refl] by blast
  have "sys_ok Q idle (?k\<lparr>uxTopReadyPriority := hi', ls := s'\<rparr>)"
    by (rule sys_ok_moved [OF ok' t(2)]) (use t(3) in \<open>auto simp: runs_def woken_def expired_def\<close>)
  then show ?thesis using t(1) by (simp add: xTaskIncrementTick_def)
qed

lemma reprioritise_sys:
  assumes ok: "sys_ok Q idle k" and c: "tcb k t = Some c" and p: "np < 32" "uxBasePriority c \<le> np"
  obtains k' where "prvReprioritise t np k = Some k'" "sys_ok Q idle k'"
proof -
  let ?cb = "(tcb k)(t := Some (c\<lparr>uxPriority := np\<rparr>))"
  obtain s' hi' where s': "prvReprioritise t np k = Some (k\<lparr>tcb := ?cb, uxTopReadyPriority := hi', ls := s'\<rparr>)" "sched_ok Q {} s' ?cb hi'"
    "pxContainer s' = (if runs k t then (pxContainer (ls k))(StateItem t := Some (Ready (unat np))) else pxContainer (ls k))"
    by (rule reprioritise_ok [OF sys_okD(1) [OF ok] c p]) (rule that)
  have r: "runs (k\<lparr>tcb := ?cb, uxTopReadyPriority := hi', ls := s'\<rparr>) t'" if "runs k t'" for t'
    using that s'(3) c by (cases "t' = t") (auto simp: runs_def)
  have "sys_ok Q idle (k\<lparr>tcb := ?cb, uxTopReadyPriority := hi', ls := s'\<rparr>)"
    using s'(2) r sys_okD [OF ok] c by (auto simp: sys_ok_def guards_ok_def)
  then show thesis using that s'(1) by blast
qed

lemma exec_inherit:
  assumes ok: "sys_ok Q idle k" and t: "t = 0 \<or> tcb k t \<noteq> None"
  shows "\<exists>k'. exec (Inherit t) k = Some k' \<and> sys_ok Q idle k'"
proof (cases "t = 0 \<or> pxCurrentTCB k = 0 \<or> xInheritEnabled k = pdFALSE")
  case True
  then show ?thesis using ok by (auto simp: vTaskPriorityInherit_def)
next
  case False
  then obtain h where h: "tcb k t = Some h" using t by auto
  obtain cur where cur: "tcb k (pxCurrentTCB k) = Some cur" by (rule sys_cur [OF ok])
  show ?thesis
  proof (cases "uxPriority h < uxPriority cur")
    case True
    have "uxPriority cur < 32" by (rule task_okD(2) [OF sched_okD(5) [OF sys_okD(1) [OF ok] cur]])
    moreover have "uxBasePriority h \<le> uxPriority cur"
      using task_okD(3) [OF sched_okD(5) [OF sys_okD(1) [OF ok] h]] True by (meson le_less_trans less_imp_le)
    ultimately obtain k' where "prvReprioritise t (uxPriority cur) k = Some k'" "sys_ok Q idle k'"
      using reprioritise_sys [OF ok h] by blast
    then show ?thesis using False h cur True by (simp add: vTaskPriorityInherit_def)
  qed (use False h cur ok in \<open>simp add: vTaskPriorityInherit_def\<close>)
qed

lemma exec_disinherit:
  assumes ok: "sys_ok Q idle k" and t: "t = 0 \<or> tcb k t \<noteq> None"
  shows "\<exists>k'. exec (Disinherit t) k = Some k' \<and> sys_ok Q idle k'"
proof (cases "t = 0")
  case True
  then show ?thesis using ok by (simp add: vTaskPriorityDisinherit_def)
next
  case False
  then obtain h where h: "tcb k t = Some h" using t by auto
  note tk = sched_okD(5) [OF sys_okD(1) [OF ok] h]
  have "uxBasePriority h < 32" using task_okD(2,3) [OF tk] by (rule le_less_trans [rotated])
  then obtain k' where "prvReprioritise t (uxBasePriority h) k = Some k'" "sys_ok Q idle k'"
    using reprioritise_sys [OF ok h] by blast
  then show ?thesis using False h ok by (cases "uxPriority h = uxBasePriority h") (simp_all add: vTaskPriorityDisinherit_def)
qed

text \<open>A yield after the current task has blocked.\<close>

lemma yield_sys:
  assumes ok: "kernel_ok Q {} k" and r: "runs k idle" and g: "guards_ok k" and c: "tcb k (pxCurrentTCB k) \<noteq> None"
    and sp: "sp_ok k sp"
  shows "\<exists>k'. taskYIELD sp k = Some k' \<and> sys_ok Q idle k'"
proof -
  obtain c where c: "tcb k (pxCurrentTCB k) = Some c" using c by blast
  then have "pxStack c \<le> sp" using sp by (simp add: sp_ok_def)
  from yield_ok [OF ok r g c this] show ?thesis by metis
qed

lemma exec_delay:
  assumes ok: "sys_ok Q idle k" and o: "sp_ok k sp" "pxCurrentTCB k \<noteq> idle"
  shows "\<exists>k'. exec (Delay sp d) k = Some k' \<and> sys_ok Q idle k'"
proof (cases "d > 0")
  case False
  then show ?thesis using ok by (simp add: vTaskDelay_def)
next
  case True
  let ?k = "vPortEnterCritical k"
  have ok1: "kernel_ok Q {} ?k" and r1: "runs ?k (pxCurrentTCB ?k)" using sys_okD [OF ok] by (simp_all add: runs_def)
  obtain s' where s': "delay_task d ?k = Some (?k\<lparr>ls := s'\<rparr>)" "sched_ok Q {} s' (tcb ?k) (uxTopReadyPriority ?k)"
    "pxContainer s' = (pxContainer (ls ?k))(StateItem (pxCurrentTCB ?k) := Some Delayed)"
    by (rule delay_ok [OF ok1 r1]) (rule that)
  let ?k2 = "vPortExitCritical (?k\<lparr>ls := s'\<rparr>)"
  have "\<exists>k'. taskYIELD sp ?k2 = Some k' \<and> sys_ok Q idle k'"
    by (rule yield_sys) (use s'(2,3) o sys_okD [OF ok] in \<open>auto simp: runs_def guards_ok_def sp_ok_def\<close>)
  then show ?thesis using True s'(1) by (simp add: vTaskDelay_def)
qed

lemma exec_block:
  assumes ok: "sys_ok Q idle k" and o: "sp_ok k sp" "pxCurrentTCB k \<noteq> idle" and l: "is_wait l" "is_list Q l"
  shows "\<exists>k'. exec (Block sp l d) k = Some k' \<and> sys_ok Q idle k'"
proof -
  obtain s' where s': "vTaskPlaceOnEventList l d k = Some (k\<lparr>ls := s'\<rparr>)" "sched_ok Q {} s' (tcb k) (uxTopReadyPriority k)"
    "pxContainer s' = (pxContainer (ls k))(EventItem (pxCurrentTCB k) := Some l,
       StateItem (pxCurrentTCB k) := Some (if d = portMAX_DELAY then Suspended else Delayed))"
    by (rule place_ok [OF sys_okD(1,2) [OF ok] l]) (rule that)
  have "\<exists>k'. taskYIELD sp (k\<lparr>ls := s'\<rparr>) = Some k' \<and> sys_ok Q idle k'"
    by (rule yield_sys) (use s'(2,3) o sys_okD [OF ok] in \<open>auto simp: runs_def guards_ok_def sp_ok_def\<close>)
  then show ?thesis using s'(1) by simp
qed

lemma exec_ok:
  assumes ok: "sys_ok Q idle k" and op: "op_ok Q idle k a"
  shows "\<exists>k'. exec a k = Some k' \<and> sys_ok Q idle k'"
proof (cases a)
  case (Yield sp)
  then show ?thesis using yield_sys [OF sys_okD(1,3,4) [OF ok]] op sys_cur [OF ok] by (metis exec.simps(1) op_ok.simps(1) option.distinct(1))
qed (use op exec_delay [OF ok] exec_block [OF ok] exec_wake [OF ok] exec_tick [OF ok] exec_inherit [OF ok] exec_disinherit [OF ok]
    in \<open>auto simp del: exec.simps\<close>)

definition sched_step :: "nat set \<Rightarrow> nat \<Rightarrow> 'a kernel_scheme \<Rightarrow> 'a kernel_scheme \<Rightarrow> bool" where
  "sched_step Q idle k k' \<longleftrightarrow> (\<exists>a. op_ok Q idle k a \<and> exec a k = Some k')"

interpretation scheduler: safe_system "sys_ok Q idle" "sched_step Q idle" "sys_ok Q idle" for Q idle
  by unfold_locales (use exec_ok in \<open>fastforce simp: sched_step_def\<close>)+

section \<open>A small system\<close>

text \<open>The wait lists of a new queue.\<close>

lemma queue_lists_ok:
  assumes ok: "sched_ok Q T s cb hi" and q: "q \<notin> Q"
  shows "sched_ok (insert q Q) T (vListInitialise (WaitRecv q) (vListInitialise (WaitSend q) s)) cb hi"
    and "pxContainer (vListInitialise (WaitRecv q) (vListInitialise (WaitSend q) s)) = pxContainer s"
    and "items (vListInitialise (WaitRecv q) (vListInitialise (WaitSend q) s)) (WaitRecv q) = []"
    and "items (vListInitialise (WaitRecv q) (vListInitialise (WaitSend q) s)) (WaitSend q) = []"
    and "is_list Q l \<Longrightarrow> items (vListInitialise (WaitRecv q) (vListInitialise (WaitSend q) s)) l = items s l"
proof -
  let ?a = "vListInitialise (WaitSend q) s"
  let ?b = "vListInitialise (WaitRecv q) ?a"
  have no: "pxContainer s i \<noteq> Some (WaitSend q)" "pxContainer s i \<noteq> Some (WaitRecv q)" for i
  proof -
    have "is_list Q m" if m: "pxContainer s i = Some m" for m
    proof -
      obtain c where c: "cb (task_of i) = Some c" using sched_okD(4) [OF ok m] by auto
      show ?thesis using task_okD(6,7) [OF sched_okD(5) [OF ok c]] m by (cases i) auto
    qed
    then show "pxContainer s i \<noteq> Some (WaitSend q)" "pxContainer s i \<noteq> Some (WaitRecv q)" using q by force+
  qed
  have con: "pxContainer ?a = pxContainer s" "pxContainer ?b = pxContainer s" by (simp_all add: vListInitialise_def)
  have a: "store_ok ?a (insert (WaitSend q) (klists Q))" "items ?a (WaitSend q) = []"
    "\<And>l. l \<in> klists Q \<Longrightarrow> l \<noteq> WaitSend q \<Longrightarrow> items ?a l = items s l"
    by (rule store_ok_initialise [OF sched_okD(1) [OF ok] no(1)]; assumption)+
  have no2: "pxContainer ?a i \<noteq> Some (WaitRecv q)" for i using no(2) con(1) by simp
  have b: "store_ok ?b (insert (WaitRecv q) (insert (WaitSend q) (klists Q)))" "items ?b (WaitRecv q) = []"
    "\<And>l. l \<in> insert (WaitSend q) (klists Q) \<Longrightarrow> l \<noteq> WaitRecv q \<Longrightarrow> items ?b l = items ?a l"
    by (rule store_ok_initialise [OF a(1) no2]; assumption)+
  have L: "klists (insert q Q) = insert (WaitRecv q) (insert (WaitSend q) (klists Q))"
  proof (rule set_eqI)
    fix l show "l \<in> klists (insert q Q) \<longleftrightarrow> l \<in> insert (WaitRecv q) (insert (WaitSend q) (klists Q))" by (cases l) auto
  qed
  have old: "items ?b m = items s m" if "is_list Q m" for m
  proof -
    have "m \<noteq> WaitSend q" "m \<noteq> WaitRecv q" using that q by auto
    then show ?thesis using a(3) [of m] b(3) [of m] that by simp
  qed
  show "is_list Q l \<Longrightarrow> items ?b l = items s l" by (rule old)
  show "pxContainer ?b = pxContainer s" by (rule con(2))
  show new: "items ?b (WaitRecv q) = []" "items ?b (WaitSend q) = []" using b(2) b(3) [of "WaitSend q"] a(2) by simp_all
  have val: "xItemValue ?b (Item i) = xItemValue s (Item i)" "pvOwner ?b = pvOwner s" for i by (simp_all add: vListInitialise_def)
  have mono: "is_list (insert q Q) m" if "is_list Q m" for m using that by (cases m) auto
  show "sched_ok (insert q Q) T ?b cb hi"
  proof (rule sched_okI)
    show "store_ok ?b (klists (insert q Q))" unfolding L by (rule b(1))
    show "task_ok (insert q Q) (t \<in> T) ?b t c" if "cb t = Some c" for t c
      using sched_okD(5) [OF ok that] mono by (auto simp: task_ok_def con val)
    fix m assume m: "is_list (insert q Q) m" "m = Delayed \<or> is_wait m"
    show "sorted (map (wake_time ?b) (items ?b m))"
    proof (cases "is_list Q m")
      case True
      then show ?thesis using sched_okD(7) [OF ok True m(2)] old by (simp only: val(1))
    next
      case False
      then have "items ?b m = []" using m new by (cases m) auto
      then show ?thesis by simp
    qed
  qed (use sched_okD(2-4,6) [OF ok] in \<open>auto simp: con top_ok_def\<close>)
qed

text \<open>Tasks for the witnesses: an idle task and a task of priority 5 that runs, with one queue.\<close>

definition sample_tcb :: "u64 \<Rightarrow> TCB_t" where
  "sample_tcb p = \<lparr>pxTopOfStack = 0x5000, uxPriority = p, uxBasePriority = p, pxStack = 0x4000, uxStackDepth = 512,
     pcTaskName = []\<rparr>"

definition sample_add :: "nat \<Rightarrow> u64 \<Rightarrow> kernel \<Rightarrow> kernel" where
  "sample_add t p k =
    the (prvAddTaskToReadyList t (k\<lparr>tcb := (tcb k)(t := Some (sample_tcb p)), ls := init_items t p (ls k)\<rparr>))"

definition sample_base :: kernel where
  "sample_base = \<lparr>uxCriticalNesting = 0, irq_masked = False, ullTimerReloadTicks = 0, cntp_tval = 0, cntp_ctl = 0,
     mmio = (\<lambda>_. 0), xIrqTable = [],
     ls = \<lparr>xItemValue = (\<lambda>_. 0), pxNext = (\<lambda>_. None), pxPrevious = (\<lambda>_. None), pvOwner = (\<lambda>_. None),
       pxContainer = (\<lambda>_. None), uxNumberOfItems = (\<lambda>_. 0), pxIndex = (\<lambda>_. None)\<rparr>,
     tcb = Map.empty, stk = (\<lambda>_. FLINT_STACK_FILL), hp = heap4_reset, pxCurrentTCB = 8192, uxTopReadyPriority = 0,
     xTickCount = 0, uxCurrentNumberOfTasks = 0, xSchedulerRunning = pdTRUE, xListsInitialised = pdTRUE,
     pxTaskRegistry = [], xInheritEnabled = pdTRUE\<rparr>"

definition sample_lists :: kernel where
  "sample_lists = (let k = prvInitialiseTaskLists sample_base
     in k\<lparr>ls := vListInitialise (WaitRecv 9) (vListInitialise (WaitSend 9) (ls k))\<rparr>)"

definition sample_kernel :: kernel where
  "sample_kernel = sample_add 8192 5 (sample_add 4096 0 sample_lists)"

lemma sample_add_ok:
  assumes ok: "kernel_ok Q {} k" and t: "tcb k t = None" "t \<noteq> 0" "p < 32" "card (dom (tcb k)) + 1 < 2 ^ 62"
  shows "kernel_ok Q {} (sample_add t p k)" "tcb (sample_add t p k) = (tcb k)(t := Some (sample_tcb p))"
    "pxContainer (ls (sample_add t p k)) = (pxContainer (ls k))(StateItem t := Some (Ready (unat p)))"
    "stk (sample_add t p k) = stk k" "pxCurrentTCB (sample_add t p k) = pxCurrentTCB k"
    "xInheritEnabled (sample_add t p k) = xInheritEnabled k"
proof -
  let ?c = "sample_tcb p" and ?s = "init_items t p (ls k)"
  let ?k = "k\<lparr>tcb := (tcb k)(t := Some ?c)\<rparr>"
  have c: "uxPriority ?c = p" "uxBasePriority ?c = p" by (simp_all add: sample_tcb_def)
  note i = init_items_ok [OF ok t(1,2) c t(3,4)]
  have ok1: "sched_ok Q {t} ?s (tcb ?k) (uxTopReadyPriority ?k)" using i(1) by simp
  have c1: "tcb ?k t = Some ?c" by simp
  have no: "pxContainer ?s (StateItem t) = None" "pxContainer ?s (EventItem t) = None" using i(2-4) by simp_all
  obtain s' where s': "prvAddTaskToReadyList t (?k\<lparr>ls := ?s\<rparr>) = Some (?k\<lparr>uxTopReadyPriority := raised ?c ?k, ls := s'\<rparr>)"
    "sched_ok Q ({t} - {t}) s' (tcb ?k) (raised ?c ?k)"
    "pxContainer s' = (pxContainer ?s)(StateItem t := Some (Ready (unat (uxPriority ?c))))"
    by (rule add_ready [OF ok1 c1 no]) (rule that)
  have e: "sample_add t p k = ?k\<lparr>uxTopReadyPriority := raised ?c ?k, ls := s'\<rparr>" unfolding sample_add_def s'(1) by simp
  show "kernel_ok Q {} (sample_add t p k)" "tcb (sample_add t p k) = (tcb k)(t := Some (sample_tcb p))"
    "pxContainer (ls (sample_add t p k)) = (pxContainer (ls k))(StateItem t := Some (Ready (unat p)))"
    "stk (sample_add t p k) = stk k" "pxCurrentTCB (sample_add t p k) = pxCurrentTCB k"
    "xInheritEnabled (sample_add t p k) = xInheritEnabled k"
    using s'(2,3) i(2) c(1) by (simp_all add: e)
qed

lemma sample_kernel_ok:
  "sys_ok {9} 4096 sample_kernel" "pxCurrentTCB sample_kernel = 8192"
  "tcb sample_kernel = [4096 \<mapsto> sample_tcb 0, 8192 \<mapsto> sample_tcb 5]" "xInheritEnabled sample_kernel = pdTRUE"
  "runs sample_kernel 8192" "runs sample_kernel 4096" "ready_at sample_kernel 5" "sp_ok sample_kernel 0x4800"
proof -
  have b: "kernel_ok {} {} (prvInitialiseTaskLists sample_base)"
    by (rule init_lists_ok) (simp_all add: sample_base_def)
  have f: "tcb (prvInitialiseTaskLists sample_base) = Map.empty" "stk (prvInitialiseTaskLists sample_base) = (\<lambda>_. FLINT_STACK_FILL)"
    "pxCurrentTCB (prvInitialiseTaskLists sample_base) = 8192" "xInheritEnabled (prvInitialiseTaskLists sample_base) = pdTRUE"
    by (simp_all add: prvInitialiseTaskLists_def Let_def sample_base_def)
  have l: "kernel_ok {9} {} sample_lists" "tcb sample_lists = Map.empty" "stk sample_lists = (\<lambda>_. FLINT_STACK_FILL)"
    "pxCurrentTCB sample_lists = 8192" "xInheritEnabled sample_lists = pdTRUE"
    using queue_lists_ok(1) [OF b, of 9] f by (simp_all add: sample_lists_def Let_def)
  have n1: "card (dom (tcb sample_lists)) + 1 < 2 ^ 62" by (simp add: l(2))
  have p: "tcb sample_lists 4096 = None" "(4096 :: nat) \<noteq> 0" "(8192 :: nat) \<noteq> 0" "(0 :: u64) < 32" "(5 :: u64) < 32"
    using l(2) by simp_all
  note a = sample_add_ok [OF l(1) p(1,2,4) n1]
  have k1: "kernel_ok {9} {} (sample_add 4096 0 sample_lists)" "tcb (sample_add 4096 0 sample_lists) 8192 = None"
    "card (dom (tcb (sample_add 4096 0 sample_lists))) + 1 < 2 ^ 62"
    using a l(2) by simp_all
  note c = sample_add_ok [OF k1(1,2) p(3,5) k1(3), folded sample_kernel_def]
  show t: "tcb sample_kernel = [4096 \<mapsto> sample_tcb 0, 8192 \<mapsto> sample_tcb 5]" using a c l(2) by simp
  show cur: "pxCurrentTCB sample_kernel = 8192" using a c l(4) by simp
  show "xInheritEnabled sample_kernel = pdTRUE" using a c l(5) by simp
  have k: "kernel_ok {9} {} sample_kernel" using c(1) by simp
  have con: "pxContainer (ls sample_kernel) (StateItem 8192) = Some (Ready 5)" "pxContainer (ls sample_kernel) (StateItem 4096) = Some (Ready 0)"
    using a(3) c(3) l(2) by simp_all
  show r: "runs sample_kernel 8192" "runs sample_kernel 4096" using t con by (simp_all add: runs_def sample_tcb_def)
  show "ready_at sample_kernel 5"
    using in_list [OF k, of "Ready 5" "StateItem 8192"] con(1) by (auto simp: ready_at_def)
  have "guards_ok sample_kernel" using a(4) c(4) l(2,3) by (simp add: guards_ok_def)
  then show "sys_ok {9} 4096 sample_kernel" using k r cur by (simp add: sys_ok_def)
  show "sp_ok sample_kernel 0x4800" using t cur by (simp add: sp_ok_def sample_tcb_def)
qed

text \<open>The values that order event lists fall with the priority.\<close>

lemma base_order:
  assumes "a < 32" "b < 32" "(ucast (32 - a) :: u32) \<le> ucast (32 - b)"
  shows "b \<le> (a :: u64)"
proof -
  have u: "unat (ucast (32 - x) :: u32) = 32 - unat x" if "x < (32 :: u64)" for x
  proof -
    have "unat (32 - x) = 32 - unat x" using that by (simp add: unat_sub less_imp_le)
    then show ?thesis by (simp add: unsigned_ucast_eq take_bit_nat_eq_self)
  qed
  have "unat a < 32" "unat b < 32" using assms(1,2) by (simp_all add: word_less_nat_alt)
  then show ?thesis using assms u by (simp add: word_le_nat_alt)
qed

section \<open>Properties\<close>

text \<open>
  C1: the scheduler's data stay well-formed.  From a well-formed system, after any history of yields,
  delays, blocking, wake-ups, ticks and priority changes, every task is in exactly the list its
  state says, the lists are well-formed and sorted, the top priority bounds the ready tasks, and the
  next operation is defined.
\<close>

theorem sched_ops_safe:
  assumes "sys_ok Q idle k" "(sched_step Q idle)\<^sup>*\<^sup>* k k'" "op_ok Q idle k' a"
  shows "sys_ok Q idle k' \<and> (\<exists>k''. exec a k' = Some k'' \<and> sys_ok Q idle k'')"
  using scheduler.steps_inv [OF assms(2,1)] exec_ok [OF _ assms(3)] by blast

theorem sched_ops_safe_witness:
  "\<exists>k1 k2. exec (Block 0x4800 (WaitRecv 9) 3) sample_kernel = Some k1 \<and> sys_ok {9} 4096 k1 \<and>
     exec Tick k1 = Some k2 \<and> sys_ok {9} 4096 k2"
proof -
  note ok = sample_kernel_ok
  have o: "op_ok {9} 4096 sample_kernel (Block 0x4800 (WaitRecv 9) 3)" using ok(2,8) by simp
  obtain k1 where k1: "exec (Block 0x4800 (WaitRecv 9) 3) sample_kernel = Some k1"
    using sched_ops_safe [OF ok(1) rtranclp.rtrancl_refl o] by blast
  have st: "(sched_step {9} 4096)\<^sup>*\<^sup>* sample_kernel k1"
    unfolding sched_step_def using o k1 by (intro r_into_rtranclp) blast
  from sched_ops_safe [OF ok(1) st op_ok.simps(5) [THEN iffD2, OF TrueI]] show ?thesis using k1 by blast
qed

text \<open>
  C4: the context switch (\<^verbatim>\<open>vTaskSwitchContext\<close>).  It always finds a task: the one whose turn it is among the
  ready tasks of the highest priority.  That task becomes current and goes to the back of the turn
  order; the other lists keep theirs.
\<close>

theorem switch_picks_highest:
  assumes "kernel_ok Q {} k" "ready_at k q" "pxCurrentTCB k = 0 \<or> stack_overrun (pxCurrentTCB k) k = Some False"
  shows "\<exists>p t ts k'. highest k p \<and> turns (ls k) (Ready p) = StateItem t # ts \<and> vTaskSwitchContext k = Some k' \<and>
     pxCurrentTCB k' = t \<and> runs k' t \<and> turns (ls k') (Ready p) = ts @ [StateItem t] \<and>
     (\<forall>l. l \<noteq> Ready p \<longrightarrow> turns (ls k') l = turns (ls k) l) \<and> kernel_ok Q {} k'"
proof -
  obtain p t c ts s' where s': "highest k p" "turns (ls k) (Ready p) = StateItem t # ts" "tcb k t = Some c" "p = unat (uxPriority c)"
    "vTaskSwitchContext k = Some (k\<lparr>uxTopReadyPriority := of_nat p, ls := s', pxCurrentTCB := t\<rparr>)"
    "sched_ok Q {} s' (tcb k) (of_nat p)" "turns s' (Ready p) = ts @ [StateItem t]"
    "\<And>l. l \<noteq> Ready p \<Longrightarrow> turns s' l = turns (ls k) l" "pxContainer s' = pxContainer (ls k)"
    by (rule switch_ok [OF assms]) (rule that; blast)
  have l: "is_list Q (Ready p)" using s'(1) by (simp add: highest_def ready_at_def)
  have "StateItem t \<in> set (items (ls k) (Ready p))" using turns_items(1) [OF assms(1) l] s'(2) by auto
  then have "pxContainer (ls k) (StateItem t) = Some (Ready p)" using in_list [OF assms(1) l] by simp
  then have "runs (k\<lparr>uxTopReadyPriority := of_nat p, ls := s', pxCurrentTCB := t\<rparr>) t" using s'(3,4,9) by (simp add: runs_def)
  then show ?thesis using s'
    by (intro exI [of _ p] exI [of _ t] exI [of _ ts] exI [of _ "k\<lparr>uxTopReadyPriority := of_nat p, ls := s', pxCurrentTCB := t\<rparr>"]) simp
qed

theorem switch_picks_highest_witness:
  "\<exists>p k'. highest sample_kernel p \<and> vTaskSwitchContext sample_kernel = Some k' \<and> runs k' (pxCurrentTCB k')"
proof -
  have g: "stack_overrun (pxCurrentTCB sample_kernel) sample_kernel = Some False"
  proof -
    have t: "tcb sample_kernel 8192 = Some (sample_tcb 5)" using sample_kernel_ok(3) by simp
    then have "stk sample_kernel (pxStack (sample_tcb 5)) = FLINT_STACK_FILL \<and> stk sample_kernel (pxStack (sample_tcb 5) + 8) = FLINT_STACK_FILL"
      using sys_okD(4) [OF sample_kernel_ok(1)] unfolding guards_ok_def by blast
    then show ?thesis using t sample_kernel_ok(2) by (simp add: stack_overrun_def) (simp add: sample_tcb_def)
  qed
  from switch_picks_highest [OF sys_okD(1) [OF sample_kernel_ok(1)] sample_kernel_ok(7)] g show ?thesis by blast
qed

text \<open>
  C5: the tick (\<^verbatim>\<open>xTaskIncrementTick\<close>).  The interrupt handler's loop over the delayed list ends.  It moves exactly the
  tasks whose wake-up time has come to the ready list of their priority and takes them off the event
  list they may wait on; every other task stays where it is and the current task is unchanged.
\<close>

theorem tick_wakes_expired:
  assumes "sys_ok Q idle k"
  shows "\<exists>k'. xTaskIncrementTick k = Some k' \<and> xTickCount k' = xTickCount k + 1 \<and> pxCurrentTCB k' = pxCurrentTCB k \<and>
     tcb k' = tcb k \<and> woken (xTickCount k + 1) (tcb k) (ls k) (ls k') \<and> sys_ok Q idle k'"
proof -
  let ?k = "k\<lparr>xTickCount := xTickCount k + 1\<rparr>"
  have ok: "kernel_ok Q {} ?k" using sys_okD(1) [OF assms] by simp
  obtain s' hi' where t: "tick_loop ?k = Some (?k\<lparr>uxTopReadyPriority := hi', ls := s'\<rparr>)" "woken (xTickCount ?k) (tcb ?k) (ls ?k) s'"
    using tick_loop_ok [OF ok refl] by blast
  have "sys_ok Q idle (?k\<lparr>uxTopReadyPriority := hi', ls := s'\<rparr>)"
    using exec_tick [OF assms] t(1) by (simp add: xTaskIncrementTick_def)
  then show ?thesis using t by (simp add: xTaskIncrementTick_def)
qed

theorem tick_wakes_expired_witness:
  "\<exists>k'. xTaskIncrementTick sample_kernel = Some k' \<and> woken (xTickCount sample_kernel + 1) (tcb sample_kernel) (ls sample_kernel) (ls k')"
  using tick_wakes_expired [OF sample_kernel_ok(1)] by blast

text \<open>
  C7: signalling an event (\<^verbatim>\<open>xTaskRemoveFromEventList\<close>).  Of the tasks that wait on a list the first is taken; no
  waiting task has a higher base priority.  It leaves the list it was blocked in and is ready, and
  the result tells whether it outranks the current task.
\<close>

theorem event_wakes_highest:
  assumes "kernel_ok Q {} k" "is_wait l" "is_list Q l" "items (ls k) l \<noteq> []" "tcb k (pxCurrentTCB k) = Some cur"
  shows "\<exists>t c y k'. xTaskRemoveFromEventList l k = Some (y, k') \<and> items (ls k) l = EventItem t # items (ls k') l \<and>
     tcb k t = Some c \<and> runs k' t \<and> pxContainer (ls k') (EventItem t) = None \<and> kernel_ok Q {} k' \<and>
     (\<forall>u cu. EventItem u \<in> set (items (ls k) l) \<longrightarrow> tcb k u = Some cu \<longrightarrow> uxBasePriority cu \<le> uxBasePriority c) \<and>
     (y \<noteq> pdFALSE \<longleftrightarrow> uxPriority c > uxPriority cur)"
proof -
  obtain i xs where h: "items (ls k) l = i # xs" using assms(4) by (cases "items (ls k) l") auto
  obtain t c s' where w: "tcb k t = Some c" "i = EventItem t"
    "xTaskRemoveFromEventList l k = Some (if uxPriority c > uxPriority cur then pdTRUE else pdFALSE,
       k\<lparr>uxTopReadyPriority := raised c k, ls := s'\<rparr>)"
    "sched_ok Q {} s' (tcb k) (raised c k)" "items s' l = xs"
    "pxContainer s' = (pxContainer (ls k))(EventItem t := None, StateItem t := Some (Ready (unat (uxPriority c))))"
    by (rule event_wake_ok [OF assms(1-3) h assms(5)]) (rule that)
  have "uxBasePriority cu \<le> uxBasePriority c" if u: "EventItem u \<in> set (items (ls k) l)" "tcb k u = Some cu" for u cu
  proof -
    have "sorted (map (wake_time (ls k)) (i # xs))" using sched_okD(7) [OF assms(1,3)] assms(2) h by simp
    then have "wake_time (ls k) (EventItem t) \<le> wake_time (ls k) (EventItem u)" using u(1) h w(2) by auto
    moreover have "uxBasePriority x < 32" if "tcb k v = Some x" for v x
      using task_okD(2,3) [OF sched_okD(5) [OF assms(1) that]] by (rule le_less_trans [rotated])
    ultimately show ?thesis
      using base_order [of "uxBasePriority c" "uxBasePriority cu"] w(1) u(2)
        task_okD(9) [OF sched_okD(5) [OF assms(1) w(1)]] task_okD(9) [OF sched_okD(5) [OF assms(1) u(2)]] by simp
  qed
  moreover have "runs (k\<lparr>uxTopReadyPriority := raised c k, ls := s'\<rparr>) t" using w(1,6) by (simp add: runs_def)
  ultimately show ?thesis using w h
    by (intro exI [of _ t] exI [of _ c] exI [of _ "if uxPriority c > uxPriority cur then pdTRUE else pdFALSE"]
        exI [of _ "k\<lparr>uxTopReadyPriority := raised c k, ls := s'\<rparr>"]) (auto simp: pdTRUE_def pdFALSE_def)
qed

theorem event_wakes_highest_witness:
  "\<exists>k1 t y k2. vTaskPlaceOnEventList (WaitRecv 9) portMAX_DELAY sample_kernel = Some k1 \<and>
     xTaskRemoveFromEventList (WaitRecv 9) k1 = Some (y, k2) \<and> items (ls k1) (WaitRecv 9) = EventItem t # items (ls k2) (WaitRecv 9) \<and>
     runs k2 t"
proof -
  note ok = sample_kernel_ok
  have l: "is_wait (WaitRecv 9)" "is_list {9} (WaitRecv 9)" by simp_all
  obtain s' where s': "vTaskPlaceOnEventList (WaitRecv 9) portMAX_DELAY sample_kernel = Some (sample_kernel\<lparr>ls := s'\<rparr>)"
    "sched_ok {9} {} s' (tcb sample_kernel) (uxTopReadyPriority sample_kernel)"
    "items s' (WaitRecv 9) = takeWhile (\<lambda>x. wake_time (ls sample_kernel) x \<le> wake_time (ls sample_kernel) (EventItem (pxCurrentTCB sample_kernel)))
         (items (ls sample_kernel) (WaitRecv 9)) @ EventItem (pxCurrentTCB sample_kernel) #
       dropWhile (\<lambda>x. wake_time (ls sample_kernel) x \<le> wake_time (ls sample_kernel) (EventItem (pxCurrentTCB sample_kernel)))
         (items (ls sample_kernel) (WaitRecv 9))"
    by (rule place_ok [OF sys_okD(1,2) [OF ok(1)] l]) (rule that)
  let ?k = "sample_kernel\<lparr>ls := s'\<rparr>"
  have "kernel_ok {9} {} ?k" "items (ls ?k) (WaitRecv 9) \<noteq> []" "tcb ?k (pxCurrentTCB ?k) = Some (sample_tcb 5)"
    using s'(2,3) ok(2,3) by simp_all
  from event_wakes_highest [OF this(1) l this(2,3)] show ?thesis using s'(1) by blast
qed

lemma reprioritise_tcb:
  assumes ok: "sys_ok Q idle k" and c: "tcb k t = Some c" and p: "np < 32" "uxBasePriority c \<le> np"
  obtains k' where "prvReprioritise t np k = Some k'" "sys_ok Q idle k'" "tcb k' = (tcb k)(t := Some (c\<lparr>uxPriority := np\<rparr>))"
    "runs k t \<Longrightarrow> pxContainer (ls k') (StateItem t) = Some (Ready (unat np))"
proof -
  obtain k1 where k1: "prvReprioritise t np k = Some k1" "sys_ok Q idle k1" by (rule reprioritise_sys [OF ok c p])
  obtain s' hi' where s': "prvReprioritise t np k = Some (k\<lparr>tcb := (tcb k)(t := Some (c\<lparr>uxPriority := np\<rparr>)), uxTopReadyPriority := hi', ls := s'\<rparr>)"
    "pxContainer s' = (if runs k t then (pxContainer (ls k))(StateItem t := Some (Ready (unat np))) else pxContainer (ls k))"
    by (rule reprioritise_ok [OF sys_okD(1) [OF ok] c p]) (rule that)
  have e: "k1 = k\<lparr>tcb := (tcb k)(t := Some (c\<lparr>uxPriority := np\<rparr>)), uxTopReadyPriority := hi', ls := s'\<rparr>" using k1(1) s'(1) by simp
  show thesis by (rule that [OF k1]) (use s'(2) in \<open>simp_all add: e\<close>)
qed



end
