(* ===== verification/Irq.thy ===== *)
theory Irq
  imports Tasks
begin

text \<open>
  The interrupt handler of \<^verbatim>\<open>portable/LLVM_AArch64/port.c\<close>: the acknowledged interrupt is an
  argument, as is what the installed device handlers do.
\<close>

text \<open>The search of the handler table, which also counts the interrupt.\<close>

fun count_irq :: "PortIrqSlot_t list \<Rightarrow> u32 \<Rightarrow> (nat \<times> PortIrqSlot_t list) option" where
  "count_irq [] intid = None"
| "count_irq (e # es) intid =
    (if slot_intid e = intid then Some (slot_handler e, e\<lparr>slot_count := slot_count e + 1\<rparr> # es)
     else map_option (\<lambda>(h, es'). (h, e # es')) (count_irq es intid))"

definition dispatch_irq ::
  "(nat \<Rightarrow> 'a kernel_scheme \<Rightarrow> 'a kernel_scheme ub) \<Rightarrow> u32 \<Rightarrow> 'a kernel_scheme \<Rightarrow> 'a kernel_scheme ub" where
  "dispatch_irq handlers intid k =
    (case count_irq (xIrqTable k) intid of
       None \<Rightarrow> Some k
     | Some (h, tab) \<Rightarrow> handlers h (k\<lparr>xIrqTable := tab\<rparr>))"

definition vPortIrqHandlerC ::
  "(nat \<Rightarrow> 'a kernel_scheme \<Rightarrow> 'a kernel_scheme ub) \<Rightarrow> u32 \<Rightarrow> 'a kernel_scheme \<Rightarrow> 'a kernel_scheme ub" where
  "vPortIrqHandlerC handlers iar k =
    (let intid = iar AND 0x3FF
     in if intid \<ge> 1020 then Some k
        else do {
          k \<leftarrow> (if intid = TIMER_IRQ_INTID
                then do {
                  let k = arm_timer (ullTimerReloadTicks k) k;
                  k \<leftarrow> xTaskIncrementTick k;
                  vTaskSwitchContext k
                }
                else dispatch_irq handlers intid k);
          Some (mmio_write32 (GICC_BASE + 0x010) iar k)
        })"

end
