(* ===== verification/Queue.thy ===== *)
theory Queue
  imports Tasks Flint_Libc
begin

text \<open>
  The message queues of \<^verbatim>\<open>kernel/queue.c\<close> and the semaphores and mutexes that
  \<^verbatim>\<open>include/FlintRTOS/semphr.h\<close> builds on them.  A queue is the address of its structure; its ring
  buffer is a region of the byte memory.  A call that blocks ends in the state in which another
  task runs, and its remainder is a definition of its own.
\<close>

section \<open>State\<close>

record Queue_t =
  pcHead :: nat
  pcTail :: nat
  pcWriteTo :: nat
  pcReadFrom :: nat
  uxLength :: u64
  uxItemSize :: u64
  uxMessagesWaiting :: u64
  ucIsMutex :: u8
  pxMutexHolder :: nat

record qkernel = kernel +
  queues :: "nat \<Rightarrow> Queue_t option"
  mem :: memory

definition sizeof_Queue :: nat where "sizeof_Queue = 152"

abbreviation set_queue :: "nat \<Rightarrow> Queue_t \<Rightarrow> 'a qkernel_scheme \<Rightarrow> 'a qkernel_scheme" where
  "set_queue q c k \<equiv> k\<lparr>queues := (queues k)(q := Some c)\<rparr>"

section \<open>Creation and deletion\<close>

text \<open>The structure as it is filled in at address \<^term>\<open>q\<close>; sizes wrap at 64 bits.\<close>

definition new_queue :: "nat \<Rightarrow> u64 \<Rightarrow> u64 \<Rightarrow> Queue_t" where
  "new_queue q uxQueueLength uxItemSz =
     (let xStorage = uxQueueLength * uxItemSz;
          head = q + sizeof_Queue
      in \<lparr>pcHead = head, pcTail = head + unat xStorage, pcWriteTo = head,
          pcReadFrom = head + unat ((uxQueueLength - 1) * (if uxItemSz > 0 then uxItemSz else 1)),
          uxLength = uxQueueLength, uxItemSize = uxItemSz, uxMessagesWaiting = 0, ucIsMutex = 0,
          pxMutexHolder = 0\<rparr>)"

definition xQueueCreate :: "image \<Rightarrow> u64 \<Rightarrow> u64 \<Rightarrow> 'a qkernel_scheme \<Rightarrow> (nat \<times> 'a qkernel_scheme) ub" where
  "xQueueCreate im uxQueueLength uxItemSz k =
    (if uxQueueLength = 0 then Some (0, k)
     else do {
       let xStorage = uxQueueLength * uxItemSz;
       (q, h) \<leftarrow> pvPortMalloc (heap_at im) (unat (of_nat sizeof_Queue + xStorage)) (hp k);
       let k = k\<lparr>hp := h\<rparr>;
       if q = 0 then Some (0, k)
       else do {
         let k = set_queue q (new_queue q uxQueueLength uxItemSz) k;
         let s = vListInitialise (WaitSend q) (ls k);
         let s = vListInitialise (WaitRecv q) s;
         Some (q, set_ls s k)
       }
     })"

definition vQueueDelete :: "image \<Rightarrow> nat \<Rightarrow> 'a qkernel_scheme \<Rightarrow> 'a qkernel_scheme ub" where
  "vQueueDelete im xQueue k = do {
     h \<leftarrow> vPortFree (heap_at im) xQueue (hp k);
     Some (k\<lparr>hp := h, queues := (queues k)(xQueue := None)\<rparr>)
   }"

section \<open>The ring buffer\<close>

text \<open>On a queue structure and the byte memory.\<close>

definition ring_in :: "Queue_t \<Rightarrow> nat \<Rightarrow> BaseType_t \<Rightarrow> memory \<Rightarrow> (Queue_t \<times> memory) ub" where
  "ring_in q pvItem xToFront m =
    (if uxItemSize q > 0 \<and> pvItem \<noteq> 0
     then if xToFront = pdFALSE
       then do {
         m \<leftarrow> memcpy (pcWriteTo q) pvItem (unat (uxItemSize q)) m;
         let q = q\<lparr>pcWriteTo := pcWriteTo q + unat (uxItemSize q)\<rparr>;
         let q = (if pcWriteTo q \<ge> pcTail q then q\<lparr>pcWriteTo := pcHead q\<rparr> else q);
         Some (q, m)
       }
       else do {
         m \<leftarrow> memcpy (pcReadFrom q) pvItem (unat (uxItemSize q)) m;
         Some (if pcReadFrom q = pcHead q
               then q\<lparr>pcReadFrom := pcTail q - unat (uxItemSize q)\<rparr>
               else q\<lparr>pcReadFrom := pcReadFrom q - unat (uxItemSize q)\<rparr>, m)
       }
     else Some (q, m))"

definition copy_in :: "Queue_t \<Rightarrow> nat \<Rightarrow> BaseType_t \<Rightarrow> memory \<Rightarrow> (Queue_t \<times> memory) ub" where
  "copy_in q pvItem xToFront m = do {
     (q, m) \<leftarrow> ring_in q pvItem xToFront m;
     Some (q\<lparr>uxMessagesWaiting := uxMessagesWaiting q + 1\<rparr>, m)
   }"

definition copy_out :: "Queue_t \<Rightarrow> nat \<Rightarrow> memory \<Rightarrow> (Queue_t \<times> memory) ub" where
  "copy_out q pvBuffer m = do {
     (q, m) \<leftarrow> (if uxItemSize q > 0
       then do {
         let q = q\<lparr>pcReadFrom := pcReadFrom q + unat (uxItemSize q)\<rparr>;
         let q = (if pcReadFrom q \<ge> pcTail q then q\<lparr>pcReadFrom := pcHead q\<rparr> else q);
         m \<leftarrow> memcpy pvBuffer (pcReadFrom q) (unat (uxItemSize q)) m;
         Some (q, m)
       }
       else Some (q, m));
     Some (q\<lparr>uxMessagesWaiting := uxMessagesWaiting q - 1\<rparr>, m)
   }"

definition prvCopyIn :: "nat \<Rightarrow> nat \<Rightarrow> BaseType_t \<Rightarrow> 'a qkernel_scheme \<Rightarrow> 'a qkernel_scheme ub" where
  "prvCopyIn pxQueue pvItem xToFront k = do {
     q \<leftarrow> queues k pxQueue;
     (q, m) \<leftarrow> copy_in q pvItem xToFront (mem k);
     Some (set_queue pxQueue q (k\<lparr>mem := m\<rparr>))
   }"

definition prvCopyOut :: "nat \<Rightarrow> nat \<Rightarrow> 'a qkernel_scheme \<Rightarrow> 'a qkernel_scheme ub" where
  "prvCopyOut pxQueue pvBuffer k = do {
     q \<leftarrow> queues k pxQueue;
     (q, m) \<leftarrow> copy_out q pvBuffer (mem k);
     Some (set_queue pxQueue q (k\<lparr>mem := m\<rparr>))
   }"

section \<open>Sending\<close>

text \<open>How a call ends: with its result, or with the calling task blocked.\<close>

datatype 'k outcome = Returned BaseType_t 'k | Blocked 'k

text \<open>
  The critical section of a send when there is room: the item is copied, a mutex is released
  by restoring its holder's priority, and one waiting receiver is woken.
\<close>

definition send_section ::
  "nat \<Rightarrow> nat \<Rightarrow> BaseType_t \<Rightarrow> 'a qkernel_scheme \<Rightarrow> (BaseType_t \<times> BaseType_t \<times> 'a qkernel_scheme) ub" where
  "send_section pxQueue pvItem xToFront k = do {
     q \<leftarrow> queues k pxQueue;
     if uxMessagesWaiting q < uxLength q then do {
       k \<leftarrow> prvCopyIn pxQueue pvItem xToFront k;
       q \<leftarrow> queues k pxQueue;
       k \<leftarrow> (if ucIsMutex q \<noteq> 0 then do {
               (_, k) \<leftarrow> vTaskPriorityDisinherit (pxMutexHolder q) k;
               Some (set_queue pxQueue (q\<lparr>pxMutexHolder := 0\<rparr>) k)
             } else Some k);
       (xYield, k) \<leftarrow> xTaskRemoveFromEventList (WaitRecv pxQueue) k;
       Some (pdPASS, xYield, k)
     }
     else Some (pdFAIL, pdFALSE, k)
   }"

definition yield_if :: "nat \<Rightarrow> BaseType_t \<Rightarrow> 'a kernel_scheme \<Rightarrow> 'a kernel_scheme ub" where
  "yield_if sp xYield k = (if xYield \<noteq> pdFALSE then taskYIELD sp k else Some k)"

definition prvSend ::
  "nat \<Rightarrow> nat \<Rightarrow> nat \<Rightarrow> u32 \<Rightarrow> BaseType_t \<Rightarrow> 'a qkernel_scheme \<Rightarrow> 'a qkernel_scheme outcome ub" where
  "prvSend sp pxQueue pvItem xTicksToWait xToFront k = do {
     (xDone, xYield, k) \<leftarrow> send_section pxQueue pvItem xToFront (vPortEnterCritical k);
     let k = vPortExitCritical k;
     if xDone = pdPASS then do {
       k \<leftarrow> yield_if sp xYield k;
       Some (Returned pdPASS k)
     }
     else if xTicksToWait = 0 then Some (Returned errQUEUE_FULL k)
     else do {
       k \<leftarrow> vTaskPlaceOnEventList (WaitSend pxQueue) xTicksToWait (vPortEnterCritical k);
       k \<leftarrow> taskYIELD sp (vPortExitCritical k);
       Some (Blocked k)
     }
   }"

text \<open>What the blocked sender does when it runs again.\<close>

definition prvSend_resume ::
  "nat \<Rightarrow> nat \<Rightarrow> nat \<Rightarrow> BaseType_t \<Rightarrow> 'a qkernel_scheme \<Rightarrow> (BaseType_t \<times> 'a qkernel_scheme) ub" where
  "prvSend_resume sp pxQueue pvItem xToFront k = do {
     (xDone, xYield, k) \<leftarrow> send_section pxQueue pvItem xToFront (vPortEnterCritical k);
     let k = vPortExitCritical k;
     if xDone = pdPASS then do {
       k \<leftarrow> yield_if sp xYield k;
       Some (pdPASS, k)
     }
     else Some (errQUEUE_FULL, k)
   }"

definition xQueueSendToBack :: "nat \<Rightarrow> nat \<Rightarrow> nat \<Rightarrow> u32 \<Rightarrow> 'a qkernel_scheme \<Rightarrow> 'a qkernel_scheme outcome ub" where
  "xQueueSendToBack sp xQueue pvItemToQueue xTicksToWait k = prvSend sp xQueue pvItemToQueue xTicksToWait pdFALSE k"

definition xQueueSendToFront :: "nat \<Rightarrow> nat \<Rightarrow> nat \<Rightarrow> u32 \<Rightarrow> 'a qkernel_scheme \<Rightarrow> 'a qkernel_scheme outcome ub" where
  "xQueueSendToFront sp xQueue pvItemToQueue xTicksToWait k = prvSend sp xQueue pvItemToQueue xTicksToWait pdTRUE k"

section \<open>Receiving\<close>

definition receive_section ::
  "nat \<Rightarrow> nat \<Rightarrow> 'a qkernel_scheme \<Rightarrow> (BaseType_t \<times> BaseType_t \<times> 'a qkernel_scheme) ub" where
  "receive_section pxQueue pvBuffer k = do {
     q \<leftarrow> queues k pxQueue;
     if uxMessagesWaiting q > 0 then do {
       k \<leftarrow> prvCopyOut pxQueue pvBuffer k;
       q \<leftarrow> queues k pxQueue;
       let k = (if ucIsMutex q \<noteq> 0
                then set_queue pxQueue (q\<lparr>pxMutexHolder := xTaskGetCurrentTaskHandle k\<rparr>) k else k);
       (xYield, k) \<leftarrow> xTaskRemoveFromEventList (WaitSend pxQueue) k;
       Some (pdPASS, xYield, k)
     }
     else Some (pdFAIL, pdFALSE, k)
   }"

definition block_section :: "nat \<Rightarrow> u32 \<Rightarrow> 'a qkernel_scheme \<Rightarrow> 'a qkernel_scheme ub" where
  "block_section pxQueue xTicksToWait k = do {
     q \<leftarrow> queues k pxQueue;
     k \<leftarrow> (if ucIsMutex q \<noteq> 0 then vTaskPriorityInherit (pxMutexHolder q) k else Some k);
     vTaskPlaceOnEventList (WaitRecv pxQueue) xTicksToWait k
   }"

definition xQueueReceive :: "nat \<Rightarrow> nat \<Rightarrow> nat \<Rightarrow> u32 \<Rightarrow> 'a qkernel_scheme \<Rightarrow> 'a qkernel_scheme outcome ub" where
  "xQueueReceive sp xQueue pvBuffer xTicksToWait k = do {
     (xDone, xYield, k) \<leftarrow> receive_section xQueue pvBuffer (vPortEnterCritical k);
     let k = vPortExitCritical k;
     if xDone = pdPASS then do {
       k \<leftarrow> yield_if sp xYield k;
       Some (Returned pdPASS k)
     }
     else if xTicksToWait = 0 then Some (Returned errQUEUE_EMPTY k)
     else do {
       k \<leftarrow> block_section xQueue xTicksToWait (vPortEnterCritical k);
       k \<leftarrow> taskYIELD sp (vPortExitCritical k);
       Some (Blocked k)
     }
   }"

definition xQueueReceive_resume :: "nat \<Rightarrow> nat \<Rightarrow> nat \<Rightarrow> 'a qkernel_scheme \<Rightarrow> (BaseType_t \<times> 'a qkernel_scheme) ub" where
  "xQueueReceive_resume sp xQueue pvBuffer k = do {
     (xDone, xYield, k) \<leftarrow> receive_section xQueue pvBuffer (vPortEnterCritical k);
     let k = vPortExitCritical k;
     if xDone = pdPASS then do {
       k \<leftarrow> yield_if sp xYield k;
       Some (pdPASS, k)
     }
     else Some (errQUEUE_EMPTY, k)
   }"

section \<open>Semaphores and mutexes\<close>

definition xQueueCreateCounting :: "image \<Rightarrow> u64 \<Rightarrow> u64 \<Rightarrow> 'a qkernel_scheme \<Rightarrow> (nat \<times> 'a qkernel_scheme) ub" where
  "xQueueCreateCounting im uxMaxCount uxInitialCount k = do {
     (xQueue, k) \<leftarrow> xQueueCreate im uxMaxCount 0 k;
     if xQueue \<noteq> 0 then do {
       q \<leftarrow> queues k xQueue;
       Some (xQueue, set_queue xQueue (q\<lparr>uxMessagesWaiting := uxInitialCount\<rparr>) k)
     }
     else Some (xQueue, k)
   }"

definition xQueueCreateMutex :: "nat \<Rightarrow> image \<Rightarrow> 'a qkernel_scheme \<Rightarrow> (nat \<times> 'a qkernel_scheme) ub" where
  "xQueueCreateMutex sp im k = do {
     (xQueue, k) \<leftarrow> xQueueCreate im 1 0 k;
     if xQueue \<noteq> 0 then do {
       q \<leftarrow> queues k xQueue;
       let k = set_queue xQueue (q\<lparr>ucIsMutex := 1\<rparr>) k;
       r \<leftarrow> xQueueSendToBack sp xQueue 0 0 k;
       (case r of Returned _ k \<Rightarrow> Some (xQueue, k) | Blocked _ \<Rightarrow> None)
     }
     else Some (xQueue, k)
   }"

definition uxQueueMessagesWaiting :: "nat \<Rightarrow> 'a qkernel_scheme \<Rightarrow> u64 ub" where
  "uxQueueMessagesWaiting xQueue k = map_option uxMessagesWaiting (queues k xQueue)"

definition uxQueueSpacesAvailable :: "nat \<Rightarrow> 'a qkernel_scheme \<Rightarrow> u64 ub" where
  "uxQueueSpacesAvailable xQueue k = map_option (\<lambda>q. uxLength q - uxMessagesWaiting q) (queues k xQueue)"

definition xSemaphoreCreateBinary :: "image \<Rightarrow> 'a qkernel_scheme \<Rightarrow> (nat \<times> 'a qkernel_scheme) ub" where
  "xSemaphoreCreateBinary im k = xQueueCreate im 1 0 k"

definition xSemaphoreTake :: "nat \<Rightarrow> nat \<Rightarrow> u32 \<Rightarrow> 'a qkernel_scheme \<Rightarrow> 'a qkernel_scheme outcome ub" where
  "xSemaphoreTake sp xSem xTicksToWait k = xQueueReceive sp xSem 0 xTicksToWait k"

definition xSemaphoreGive :: "nat \<Rightarrow> nat \<Rightarrow> 'a qkernel_scheme \<Rightarrow> 'a qkernel_scheme outcome ub" where
  "xSemaphoreGive sp xSem k = xQueueSendToBack sp xSem 0 0 k"

end
