(* ===== verification/Genet_Regs.thy ===== *)
theory Genet_Regs
  imports Flint_Prelude
begin

text \<open>
  The register map and descriptor bits of the GENET Ethernet controller, as named by
  \<^verbatim>\<open>bsp/rpi4/genet.c\<close>: offsets from the controller's base, bit masks, shifts and ring geometry.
\<close>

section \<open>Geometry\<close>

definition GENET_BASE :: nat where "GENET_BASE = 0xFD580000"
definition CMD_SPEED_SHIFT :: nat where "CMD_SPEED_SHIFT = 2"
definition MDIO_PMD_SHIFT :: nat where "MDIO_PMD_SHIFT = 21"
definition MDIO_REG_SHIFT :: nat where "MDIO_REG_SHIFT = 16"
definition DMA_DESC_SIZE :: u32 where "DMA_DESC_SIZE = 0x0C"
definition DMA_MAX_BURST_LENGTH :: u32 where "DMA_MAX_BURST_LENGTH = 0x08"
definition DMA_RING_BUF_EN_SHIFT :: nat where "DMA_RING_BUF_EN_SHIFT = 0x01"
definition DMA_RING_SIZE_SHIFT :: nat where "DMA_RING_SIZE_SHIFT = 16"
definition DMA_FC_THRESH_LO :: u32 where "DMA_FC_THRESH_LO = 5"
definition DMA_FC_THRESH_HI :: u32 where "DMA_FC_THRESH_HI = drop_bit 4 256"
definition DMA_XOFF_THRESHOLD_SHIFT :: nat where "DMA_XOFF_THRESHOLD_SHIFT = 16"
definition BCM54810_SHD_CLK_CTL :: u32 where "BCM54810_SHD_CLK_CTL = 0x03"
definition DMA_BD_LENGTH_SHIFT :: nat where "DMA_BD_LENGTH_SHIFT = 16"
definition DMA_BD_LENGTH_MASK :: u32 where "DMA_BD_LENGTH_MASK = 0x0FFF"
definition DMA_TX_QTAG_SHIFT :: nat where "DMA_TX_QTAG_SHIFT = 7"
definition RX_BUF_OFFSET :: u32 where "RX_BUF_OFFSET = 2"
definition DEFAULT_Q :: u32 where "DEFAULT_Q = 16"
definition RX_DESCS :: u32 where "RX_DESCS = 256"
definition TX_DESCS :: u32 where "TX_DESCS = 256"
definition RX_BUF_LENGTH :: u32 where "RX_BUF_LENGTH = 2048"
definition ENET_MAX_MTU_SIZE :: u32 where "ENET_MAX_MTU_SIZE = 1536"

section \<open>Registers\<close>

text \<open>Offsets from the base, and of the PHY registers behind MDIO.\<close>

datatype genet_reg =
    SYS_REV_CTRL | SYS_PORT_CTRL | SYS_RBUF_FLUSH_CTRL | EXT_RGMII_OOB_CTRL | RBUF_CTRL | RBUF_CHK_CTRL
  | RBUF_TBUF_SIZE_CTRL | HFB_CTRL | HFB_FLT_ENABLE_V3PLUS | INTRL2_0 | INTRL2_CPU_STAT | INTRL2_CPU_CLEAR
  | INTRL2_CPU_MASK_STATUS | INTRL2_CPU_MASK_SET | INTRL2_CPU_MASK_CLEAR | UMAC_CMD | UMAC_MAC0 | UMAC_MAC1
  | UMAC_MAX_FRAME_LEN | UMAC_TX_FLUSH | UMAC_MIB_CTRL | UMAC_MDF_CTRL | UMAC_MDIO_CMD | RDMA_OFFSET
  | TDMA_OFFSET | DMA_RING_REG_BASE | DMA_RING_CFG | DMA_CTRL | DMA_SCB_BURST_SIZE | MII_BCM54XX_AUX_CTL
  | MII_BCM54XX_SHD

fun off :: "genet_reg \<Rightarrow> u32" where
  "off SYS_REV_CTRL = 0x0000"
| "off SYS_PORT_CTRL = 0x0004"
| "off SYS_RBUF_FLUSH_CTRL = 0x0008"
| "off EXT_RGMII_OOB_CTRL = 0x008C"
| "off RBUF_CTRL = 0x0300"
| "off RBUF_CHK_CTRL = 0x0314"
| "off RBUF_TBUF_SIZE_CTRL = 0x03B4"
| "off HFB_CTRL = 0xFC00"
| "off HFB_FLT_ENABLE_V3PLUS = 0xFC10"
| "off INTRL2_0 = 0x0200"
| "off INTRL2_CPU_STAT = 0x00"
| "off INTRL2_CPU_CLEAR = 0x08"
| "off INTRL2_CPU_MASK_STATUS = 0x0C"
| "off INTRL2_CPU_MASK_SET = 0x10"
| "off INTRL2_CPU_MASK_CLEAR = 0x14"
| "off UMAC_CMD = 0x0808"
| "off UMAC_MAC0 = 0x080C"
| "off UMAC_MAC1 = 0x0810"
| "off UMAC_MAX_FRAME_LEN = 0x0814"
| "off UMAC_TX_FLUSH = 0x0B34"
| "off UMAC_MIB_CTRL = 0x0D80"
| "off UMAC_MDF_CTRL = 0x0E50"
| "off UMAC_MDIO_CMD = 0x0E14"
| "off RDMA_OFFSET = 0x2000"
| "off TDMA_OFFSET = 0x4000"
| "off DMA_RING_REG_BASE = 0x0C00"
| "off DMA_RING_CFG = 0x1040"
| "off DMA_CTRL = 0x1044"
| "off DMA_SCB_BURST_SIZE = 0x104C"
| "off MII_BCM54XX_AUX_CTL = 0x18"
| "off MII_BCM54XX_SHD = 0x1C"

text \<open>Registers of a DMA ring.\<close>

datatype ring_reg =
    RDMA_WRITE_PTR | RDMA_PROD_INDEX | RDMA_CONS_INDEX | TDMA_READ_PTR | TDMA_CONS_INDEX | TDMA_PROD_INDEX
  | DMA_RING_BUF_SIZE | DMA_START_ADDR | DMA_END_ADDR | DMA_MBUF_DONE_THRESH | DMA_FLOW_PERIOD
  | RDMA_XON_XOFF_THRESH | RDMA_READ_PTR

fun ring_off :: "ring_reg \<Rightarrow> u32" where
  "ring_off RDMA_WRITE_PTR = 0x00"
| "ring_off RDMA_PROD_INDEX = 0x08"
| "ring_off RDMA_CONS_INDEX = 0x0C"
| "ring_off TDMA_READ_PTR = 0x00"
| "ring_off TDMA_CONS_INDEX = 0x08"
| "ring_off TDMA_PROD_INDEX = 0x0C"
| "ring_off DMA_RING_BUF_SIZE = 0x10"
| "ring_off DMA_START_ADDR = 0x14"
| "ring_off DMA_END_ADDR = 0x1C"
| "ring_off DMA_MBUF_DONE_THRESH = 0x24"
| "ring_off DMA_FLOW_PERIOD = 0x28"
| "ring_off RDMA_XON_XOFF_THRESH = 0x28"
| "ring_off RDMA_READ_PTR = 0x2C"

section \<open>Bits and fields\<close>

datatype genet_flag =
    PORT_MODE_EXT_GPHY | RGMII_LINK | OOB_DISABLE | RGMII_MODE_EN | ID_MODE_DIS | RBUF_ALIGN_2B
  | UMAC_IRQ_RXDMA_MBDONE | CMD_TX_EN | CMD_RX_EN | CMD_SPEED_1000 | CMD_SPEED_100 | CMD_SPEED_MASK
  | CMD_PROMISC | CMD_SW_RESET | CMD_LCL_LOOP_EN | MIB_RESET_RX | MIB_RESET_RUNT | MIB_RESET_TX
  | MDIO_START_BUSY | MDIO_READ_OP | MDIO_WRITE_OP | DMA_EN | AUXCTL_SHDWSEL_MISC | AUXCTL_MISC_WREN
  | AUXCTL_MISC_RGMII_SKEW_EN | SHD_WRITE | BCM54810_SHD_CLK_CTL_GTXCLK_EN | DMA_TX_APPEND_CRC
  | DMA_TX_QTAG | DMA_SOP | DMA_EOP | DMA_RX_ERR_MASK

fun flag :: "genet_flag \<Rightarrow> u32" where
  "flag PORT_MODE_EXT_GPHY = 3"
| "flag RGMII_LINK = push_bit 4 1"
| "flag OOB_DISABLE = push_bit 5 1"
| "flag RGMII_MODE_EN = push_bit 6 1"
| "flag ID_MODE_DIS = push_bit 16 1"
| "flag RBUF_ALIGN_2B = push_bit 1 1"
| "flag UMAC_IRQ_RXDMA_MBDONE = push_bit 13 1"
| "flag CMD_TX_EN = push_bit 0 1"
| "flag CMD_RX_EN = push_bit 1 1"
| "flag CMD_SPEED_1000 = push_bit CMD_SPEED_SHIFT 2"
| "flag CMD_SPEED_100 = push_bit CMD_SPEED_SHIFT 1"
| "flag CMD_SPEED_MASK = push_bit CMD_SPEED_SHIFT 3"
| "flag CMD_PROMISC = push_bit 4 1"
| "flag CMD_SW_RESET = push_bit 13 1"
| "flag CMD_LCL_LOOP_EN = push_bit 15 1"
| "flag MIB_RESET_RX = push_bit 0 1"
| "flag MIB_RESET_RUNT = push_bit 1 1"
| "flag MIB_RESET_TX = push_bit 2 1"
| "flag MDIO_START_BUSY = push_bit 29 1"
| "flag MDIO_READ_OP = push_bit 26 2"
| "flag MDIO_WRITE_OP = push_bit 26 1"
| "flag DMA_EN = push_bit 0 1"
| "flag AUXCTL_SHDWSEL_MISC = 0x07"
| "flag AUXCTL_MISC_WREN = 0x8000"
| "flag AUXCTL_MISC_RGMII_SKEW_EN = 0x0100"
| "flag SHD_WRITE = 0x8000"
| "flag BCM54810_SHD_CLK_CTL_GTXCLK_EN = push_bit 9 1"
| "flag DMA_TX_APPEND_CRC = push_bit 6 1"
| "flag DMA_TX_QTAG = push_bit DMA_TX_QTAG_SHIFT 0x3F"
| "flag DMA_SOP = push_bit 13 1"
| "flag DMA_EOP = push_bit 14 1"
| "flag DMA_RX_ERR_MASK = 0x1F"

text \<open>Offsets of the registers of the default ring, and of the words of a descriptor.\<close>

definition rdma_ring :: "u32 \<Rightarrow> u32" where
  "rdma_ring reg = off RDMA_OFFSET + off DMA_RING_REG_BASE + (DEFAULT_Q * 0x40) + reg"

definition tdma_ring :: "u32 \<Rightarrow> u32" where
  "tdma_ring reg = off TDMA_OFFSET + off DMA_RING_REG_BASE + (DEFAULT_Q * 0x40) + reg"

definition rx_desc :: "u32 \<Rightarrow> u32 \<Rightarrow> u32" where
  "rx_desc i w = off RDMA_OFFSET + (i * DMA_DESC_SIZE) + (w * 4)"

definition tx_desc :: "u32 \<Rightarrow> u32 \<Rightarrow> u32" where
  "tx_desc i w = off TDMA_OFFSET + (i * DMA_DESC_SIZE) + (w * 4)"

end
