(* ===== verification/Genet.thy ===== *)
theory Genet
  imports Genet_Regs Port "HOL-Library.State_Monad"
begin

text \<open>
  The GENET Ethernet driver of \<^verbatim>\<open>bsp/rpi4/genet.c\<close> in the state monad.  The controller is a parameter:
  what a register read returns and does, what a register write does, the cycle counter and the
  contents of the receive buffers, all as functions of the controller's own state.  Console output,
  barriers and busy-wait delays have no effect on the state.
\<close>

section \<open>The controller and the driver state\<close>

record 'd nic =
  nic_read :: "nat \<Rightarrow> 'd \<Rightarrow> u32 \<times> 'd"
  nic_write :: "nat \<Rightarrow> u32 \<Rightarrow> 'd \<Rightarrow> 'd"
  nic_cntpct :: "'d \<Rightarrow> u64 \<times> 'd"
  nic_rx_buf :: "'d \<Rightarrow> nat \<Rightarrow> u8 list"
  rx_buf_at :: u64
  tx_buf_at :: u64
  genet_isr_at :: nat

record 'd genet =
  dev :: 'd
  s_tx_buf :: "nat \<Rightarrow> u8 list"
  s_rx_ts :: "nat \<Rightarrow> u64"
  s_rx_ts_seen :: u32
  s_rx_ts_late :: u32
  s_tx_ts :: u64
  s_irq_ok :: bool
  s_rx_dbg :: u32
  s_rx_drop :: u32
  s_rx_cons :: u32
  s_tx_prod :: u32
  s_link :: bool
  s_phy_addr :: u32
  port_st :: port

type_synonym ('d, 'a) genet_op = "('d genet, 'a) state"

definition rd :: "'d nic \<Rightarrow> u32 \<Rightarrow> ('d, u32) genet_op" where
  "rd n a = State (\<lambda>g. let (v, d) = nic_read n (GENET_BASE + unat a) (dev g) in (v, g\<lparr>dev := d\<rparr>))"

definition wr :: "'d nic \<Rightarrow> u32 \<Rightarrow> u32 \<Rightarrow> ('d, unit) genet_op" where
  "wr n a v = State (\<lambda>g. ((), g\<lparr>dev := nic_write n (GENET_BASE + unat a) v (dev g)\<rparr>))"

definition cntpct :: "'d nic \<Rightarrow> ('d, u64) genet_op" where
  "cntpct n = State (\<lambda>g. let (v, d) = nic_cntpct n (dev g) in (v, g\<lparr>dev := d\<rparr>))"

definition gets :: "('d genet \<Rightarrow> 'a) \<Rightarrow> ('d, 'a) genet_op" where
  "gets f = State (\<lambda>g. (f g, g))"

definition modify :: "('d genet \<Rightarrow> 'd genet) \<Rightarrow> ('d, unit) genet_op" where
  "modify f = State (\<lambda>g. ((), f g))"

abbreviation ret :: "'a \<Rightarrow> ('d, 'a) genet_op" where
  "ret \<equiv> State_Monad.return"

section \<open>MDIO\<close>

fun mdio_wait :: "'d nic \<Rightarrow> nat \<Rightarrow> ('d, unit) genet_op" where
  "mdio_wait n 0 = ret ()"
| "mdio_wait n (Suc i) = do {
     v \<leftarrow> rd n (off UMAC_MDIO_CMD);
     if v AND flag MDIO_START_BUSY = 0 then ret () else mdio_wait n i
   }"

definition mdio_read :: "'d nic \<Rightarrow> u32 \<Rightarrow> u32 \<Rightarrow> ('d, u16) genet_op" where
  "mdio_read n phy reg = do {
     wr n (off UMAC_MDIO_CMD) (flag MDIO_START_BUSY OR flag MDIO_READ_OP OR push_bit MDIO_PMD_SHIFT phy OR push_bit MDIO_REG_SHIFT reg);
     mdio_wait n 100000;
     v \<leftarrow> rd n (off UMAC_MDIO_CMD);
     ret (ucast (v AND 0xFFFF))
   }"

definition mdio_write :: "'d nic \<Rightarrow> u32 \<Rightarrow> u32 \<Rightarrow> u16 \<Rightarrow> ('d, unit) genet_op" where
  "mdio_write n phy reg val = do {
     wr n (off UMAC_MDIO_CMD) (flag MDIO_START_BUSY OR flag MDIO_WRITE_OP OR push_bit MDIO_PMD_SHIFT phy OR push_bit MDIO_REG_SHIFT reg OR ucast val);
     mdio_wait n 100000
   }"

text \<open>The scan of the remaining \<^term>\<open>k\<close> addresses from \<^term>\<open>a\<close> on.\<close>

fun scan_loop :: "'d nic \<Rightarrow> u32 \<Rightarrow> nat \<Rightarrow> ('d, int) genet_op" where
  "scan_loop n a 0 = ret (- 1)"
| "scan_loop n a (Suc k) = do {
     id1 \<leftarrow> mdio_read n a 2;
     if id1 \<noteq> 0x0000 \<and> id1 \<noteq> 0xFFFF then ret (uint a) else scan_loop n (a + 1) k
   }"

definition mdio_scan :: "'d nic \<Rightarrow> ('d, int) genet_op" where
  "mdio_scan n = scan_loop n 0 32"

definition phy_read_shadow :: "'d nic \<Rightarrow> u32 \<Rightarrow> u16 \<Rightarrow> ('d, u16) genet_op" where
  "phy_read_shadow n phy shd = do {
     mdio_write n phy (off MII_BCM54XX_SHD) (push_bit 10 (shd AND 0x1F));
     v \<leftarrow> mdio_read n phy (off MII_BCM54XX_SHD);
     ret (v AND 0x3FF)
   }"

definition phy_write_shadow :: "'d nic \<Rightarrow> u32 \<Rightarrow> u16 \<Rightarrow> u16 \<Rightarrow> ('d, unit) genet_op" where
  "phy_write_shadow n phy shd val =
     mdio_write n phy (off MII_BCM54XX_SHD) (ucast (flag SHD_WRITE) OR push_bit 10 (shd AND 0x1F) OR (val AND 0x3FF))"

text \<open>The two register reads at the end are those of the diagnostic line.\<close>

definition phy_config_rgmii_delays :: "'d nic \<Rightarrow> u32 \<Rightarrow> ('d, unit) genet_op" where
  "phy_config_rgmii_delays n phy = do {
     let select_misc = ucast (flag AUXCTL_SHDWSEL_MISC OR push_bit 12 (flag AUXCTL_SHDWSEL_MISC));
     mdio_write n phy (off MII_BCM54XX_AUX_CTL) select_misc;
     misc \<leftarrow> mdio_read n phy (off MII_BCM54XX_AUX_CTL);
     let misc = misc OR ucast (flag AUXCTL_MISC_WREN OR flag AUXCTL_MISC_RGMII_SKEW_EN);
     mdio_write n phy (off MII_BCM54XX_AUX_CTL) (ucast (flag AUXCTL_SHDWSEL_MISC) OR misc);
     clk \<leftarrow> phy_read_shadow n phy (ucast BCM54810_SHD_CLK_CTL);
     phy_write_shadow n phy (ucast BCM54810_SHD_CLK_CTL) (clk AND NOT (ucast (flag BCM54810_SHD_CLK_CTL_GTXCLK_EN)));
     clk_after \<leftarrow> phy_read_shadow n phy (ucast BCM54810_SHD_CLK_CTL);
     mdio_write n phy (off MII_BCM54XX_AUX_CTL) select_misc;
     v1 \<leftarrow> mdio_read n phy (off MII_BCM54XX_AUX_CTL);
     v2 \<leftarrow> mdio_read n phy (off MII_BCM54XX_AUX_CTL);
     ret ()
   }"

text \<open>The diagnostic printout also selects the PHY it found.\<close>

definition genet_diag :: "'d nic \<Rightarrow> ('d, unit) genet_op" where
  "genet_diag n = do {
     rev \<leftarrow> rd n (off SYS_REV_CTRL);
     a \<leftarrow> mdio_scan n;
     if a < 0 then ret ()
     else do {
       modify (\<lambda>g. g\<lparr>s_phy_addr := to_u32 a\<rparr>);
       bmsr \<leftarrow> mdio_read n (to_u32 a) 1;
       id1 \<leftarrow> mdio_read n (to_u32 a) 2;
       id2 \<leftarrow> mdio_read n (to_u32 a) 3;
       ret ()
     }
   }"

section \<open>Receive timestamps\<close>

fun stamp_loop :: "bool \<Rightarrow> u64 \<Rightarrow> u32 \<Rightarrow> nat \<Rightarrow> 'd genet \<Rightarrow> 'd genet" where
  "stamp_loop from_isr now pidx 0 g = g"
| "stamp_loop from_isr now pidx (Suc k) g =
    (if s_rx_ts_seen g AND 0xFFFF \<noteq> pidx
     then stamp_loop from_isr now pidx k
            (g\<lparr>s_rx_ts := (s_rx_ts g)(unat (s_rx_ts_seen g mod RX_DESCS) := now),
               s_rx_ts_seen := s_rx_ts_seen g + 1,
               s_rx_ts_late := s_rx_ts_late g + (if from_isr then 0 else 1)\<rparr>)
     else g)"

definition rx_stamp_new :: "'d nic \<Rightarrow> bool \<Rightarrow> ('d, unit) genet_op" where
  "rx_stamp_new n from_isr = do {
     now \<leftarrow> cntpct n;
     p \<leftarrow> rd n (rdma_ring (ring_off RDMA_PROD_INDEX));
     modify (stamp_loop from_isr now (p AND 0xFFFF) (unat RX_DESCS))
   }"

definition genet_isr :: "'d nic \<Rightarrow> ('d, unit) genet_op" where
  "genet_isr n = do {
     a \<leftarrow> rd n (off INTRL2_0 + off INTRL2_CPU_STAT);
     b \<leftarrow> rd n (off INTRL2_0 + off INTRL2_CPU_MASK_STATUS);
     let stat = a AND NOT b;
     wr n (off INTRL2_0 + off INTRL2_CPU_CLEAR) stat;
     if stat AND flag UMAC_IRQ_RXDMA_MBDONE \<noteq> 0 then rx_stamp_new n True else ret ()
   }"

definition genet_last_tx_stamp :: "'d genet \<Rightarrow> u64" where
  "genet_last_tx_stamp g = s_tx_ts g"

section \<open>Reset and rings\<close>

definition umac_reset :: "'d nic \<Rightarrow> ('d, unit) genet_op" where
  "umac_reset n = do {
     reg \<leftarrow> rd n (off SYS_RBUF_FLUSH_CTRL);
     let reg = reg OR push_bit 1 1;
     wr n (off SYS_RBUF_FLUSH_CTRL) reg;
     let reg = reg AND NOT (push_bit 1 1);
     wr n (off SYS_RBUF_FLUSH_CTRL) reg;
     wr n (off SYS_RBUF_FLUSH_CTRL) 0;
     wr n (off UMAC_CMD) 0;
     wr n (off UMAC_CMD) (flag CMD_SW_RESET OR flag CMD_LCL_LOOP_EN);
     wr n (off UMAC_CMD) 0;
     wr n (off UMAC_MIB_CTRL) (flag MIB_RESET_RX OR flag MIB_RESET_TX OR flag MIB_RESET_RUNT);
     wr n (off UMAC_MIB_CTRL) 0;
     wr n (off UMAC_MAX_FRAME_LEN) ENET_MAX_MTU_SIZE;
     reg \<leftarrow> rd n (off RBUF_CTRL);
     wr n (off RBUF_CTRL) (reg OR flag RBUF_ALIGN_2B);
     wr n (off RBUF_TBUF_SIZE_CTRL) 1;
     wr n (off RBUF_CHK_CTRL) 0;
     wr n (off UMAC_MDF_CTRL) 0;
     wr n (off HFB_CTRL) 0;
     wr n (off HFB_FLT_ENABLE_V3PLUS) 0;
     wr n (off HFB_FLT_ENABLE_V3PLUS + 4) 0
   }"

text \<open>The address is a list of six bytes.\<close>

definition set_mac_address :: "'d nic \<Rightarrow> u8 list \<Rightarrow> ('d, unit) genet_op" where
  "set_mac_address n mac = do {
     wr n (off UMAC_MAC0) (push_bit 24 (ucast (mac ! 0)) OR push_bit 16 (ucast (mac ! 1)) OR push_bit 8 (ucast (mac ! 2)) OR ucast (mac ! 3));
     wr n (off UMAC_MAC1) (push_bit 8 (ucast (mac ! 4)) OR ucast (mac ! 5))
   }"

definition disable_dma :: "'d nic \<Rightarrow> ('d, unit) genet_op" where
  "disable_dma n = do {
     reg \<leftarrow> rd n (off TDMA_OFFSET + off DMA_CTRL);
     wr n (off TDMA_OFFSET + off DMA_CTRL) (reg AND NOT (flag DMA_EN));
     reg \<leftarrow> rd n (off RDMA_OFFSET + off DMA_CTRL);
     wr n (off RDMA_OFFSET + off DMA_CTRL) (reg AND NOT (flag DMA_EN));
     wr n (off UMAC_TX_FLUSH) 1;
     wr n (off UMAC_TX_FLUSH) 0
   }"

definition enable_dma :: "'d nic \<Rightarrow> ('d, unit) genet_op" where
  "enable_dma n = do {
     let dma_ctrl = push_bit (unat DEFAULT_Q + DMA_RING_BUF_EN_SHIFT) 1 OR flag DMA_EN;
     wr n (off TDMA_OFFSET + off DMA_CTRL) dma_ctrl;
     wr n (off RDMA_OFFSET + off DMA_CTRL) dma_ctrl
   }"

text \<open>The low and high word of a buffer address go into words 1 and 2 of its descriptor.\<close>

definition point_desc :: "'d nic \<Rightarrow> (u32 \<Rightarrow> u32 \<Rightarrow> u32) \<Rightarrow> u32 \<Rightarrow> u64 \<Rightarrow> ('d, unit) genet_op" where
  "point_desc n desc i pa = do {
     wr n (desc i 1) (ucast (pa AND 0xFFFFFFFF));
     wr n (desc i 2) (ucast (drop_bit 32 pa))
   }"

fun point_loop :: "'d nic \<Rightarrow> u32 \<Rightarrow> nat \<Rightarrow> ('d, unit) genet_op" where
  "point_loop n i 0 = ret ()"
| "point_loop n i (Suc k) = do {
     point_desc n rx_desc i (rx_buf_at n + ucast i * ucast RX_BUF_LENGTH);
     point_loop n (i + 1) k
   }"

definition rx_ring_init :: "'d nic \<Rightarrow> ('d, unit) genet_op" where
  "rx_ring_init n = do {
     modify (\<lambda>g. g\<lparr>s_rx_cons := 0\<rparr>);
     wr n (off RDMA_OFFSET + off DMA_SCB_BURST_SIZE) DMA_MAX_BURST_LENGTH;
     point_loop n 0 (unat RX_DESCS);
     wr n (rdma_ring (ring_off RDMA_PROD_INDEX)) 0;
     wr n (rdma_ring (ring_off RDMA_CONS_INDEX)) 0;
     wr n (rdma_ring (ring_off DMA_RING_BUF_SIZE)) (push_bit DMA_RING_SIZE_SHIFT RX_DESCS OR RX_BUF_LENGTH);
     wr n (rdma_ring (ring_off RDMA_XON_XOFF_THRESH)) (push_bit DMA_XOFF_THRESHOLD_SHIFT DMA_FC_THRESH_LO OR DMA_FC_THRESH_HI);
     wr n (rdma_ring (ring_off DMA_START_ADDR)) 0;
     wr n (rdma_ring (ring_off DMA_START_ADDR + 4)) 0;
     wr n (rdma_ring (ring_off RDMA_READ_PTR)) 0;
     wr n (rdma_ring (ring_off RDMA_WRITE_PTR)) 0;
     wr n (rdma_ring (ring_off RDMA_WRITE_PTR + 4)) 0;
     wr n (rdma_ring (ring_off DMA_END_ADDR)) (RX_DESCS * DMA_DESC_SIZE div 4 - 1);
     wr n (rdma_ring (ring_off DMA_END_ADDR + 4)) 0;
     wr n (rdma_ring (ring_off DMA_MBUF_DONE_THRESH)) 1;
     wr n (off RDMA_OFFSET + off DMA_RING_CFG) (push_bit (unat DEFAULT_Q) 1)
   }"

definition tx_ring_init :: "'d nic \<Rightarrow> ('d, unit) genet_op" where
  "tx_ring_init n = do {
     modify (\<lambda>g. g\<lparr>s_tx_prod := 0\<rparr>);
     wr n (off TDMA_OFFSET + off DMA_SCB_BURST_SIZE) DMA_MAX_BURST_LENGTH;
     wr n (tdma_ring (ring_off TDMA_READ_PTR)) 0;
     wr n (tdma_ring (ring_off TDMA_READ_PTR + 4)) 0;
     wr n (tdma_ring (ring_off TDMA_PROD_INDEX)) 0;
     wr n (tdma_ring (ring_off TDMA_CONS_INDEX)) 0;
     wr n (tdma_ring (ring_off DMA_RING_BUF_SIZE)) (push_bit DMA_RING_SIZE_SHIFT TX_DESCS OR RX_BUF_LENGTH);
     wr n (tdma_ring (ring_off DMA_START_ADDR)) 0;
     wr n (tdma_ring (ring_off DMA_START_ADDR + 4)) 0;
     wr n (tdma_ring (ring_off DMA_END_ADDR)) (TX_DESCS * DMA_DESC_SIZE div 4 - 1);
     wr n (tdma_ring (ring_off DMA_END_ADDR + 4)) 0;
     wr n (tdma_ring (ring_off DMA_MBUF_DONE_THRESH)) 1;
     wr n (tdma_ring (ring_off DMA_FLOW_PERIOD)) 0;
     wr n (off TDMA_OFFSET + off DMA_RING_CFG) (push_bit (unat DEFAULT_Q) 1)
   }"

section \<open>Initialisation and link\<close>

definition init_phy :: "'d nic \<Rightarrow> ('d, unit) genet_op" where
  "init_phy n = do {
     a \<leftarrow> mdio_scan n;
     if a \<ge> 0 then do {
       modify (\<lambda>g. g\<lparr>s_phy_addr := to_u32 a\<rparr>);
       phy_config_rgmii_delays n (to_u32 a);
       mdio_write n (to_u32 a) 0 0x1200
     }
     else modify (\<lambda>g. g\<lparr>s_link := False\<rparr>)
   }"

definition install_rx_irq :: "'d nic \<Rightarrow> ('d, unit) genet_op" where
  "install_rx_irq n = do {
     wr n (off INTRL2_0 + off INTRL2_CPU_MASK_SET) 0xFFFFFFFF;
     wr n (off INTRL2_0 + off INTRL2_CPU_CLEAR) 0xFFFFFFFF;
     p \<leftarrow> rd n (rdma_ring (ring_off RDMA_PROD_INDEX));
     modify (\<lambda>g. g\<lparr>s_rx_ts_seen := p AND 0xFFFF\<rparr>);
     modify (\<lambda>g. let (r, s) = xPortInstallIrq GENET_IRQ0_INTID (ucast GIC_PRIO_TIMESTAMP) (genet_isr_at n) (port_st g)
                 in g\<lparr>port_st := s, s_irq_ok := (r = 0)\<rparr>);
     wr n (off INTRL2_0 + off INTRL2_CPU_MASK_CLEAR) (flag UMAC_IRQ_RXDMA_MBDONE)
   }"

definition genet_init :: "'d nic \<Rightarrow> u8 list \<Rightarrow> ('d, bool) genet_op" where
  "genet_init n mac = do {
     umac_reset n;
     wr n (off SYS_PORT_CTRL) (flag PORT_MODE_EXT_GPHY);
     set_mac_address n mac;
     c \<leftarrow> rd n (off UMAC_CMD);
     wr n (off UMAC_CMD) (c OR flag CMD_PROMISC);
     init_phy n;
     disable_dma n;
     rx_ring_init n;
     tx_ring_init n;
     enable_dma n;
     reg \<leftarrow> rd n (off EXT_RGMII_OOB_CTRL);
     wr n (off EXT_RGMII_OOB_CTRL) ((reg AND NOT (flag OOB_DISABLE) AND NOT (flag ID_MODE_DIS)) OR flag RGMII_MODE_EN);
     c \<leftarrow> rd n (off UMAC_CMD);
     wr n (off UMAC_CMD) (c OR flag CMD_TX_EN OR flag CMD_RX_EN OR flag CMD_SPEED_1000);
     install_rx_irq n;
     ret True
   }"

definition genet_link_up :: "'d nic \<Rightarrow> ('d, bool) genet_op" where
  "genet_link_up n = do {
     phy \<leftarrow> gets s_phy_addr;
     bmsr \<leftarrow> mdio_read n phy 1;
     bmsr \<leftarrow> mdio_read n phy 1;
     let up = bmsr AND push_bit 2 1 \<noteq> 0;
     modify (\<lambda>g. g\<lparr>s_link := up\<rparr>);
     ret up
   }"

text \<open>The highest common denominator the PHY negotiated selects the speed bits.\<close>

definition speed_bits :: "u32 \<Rightarrow> u32" where
  "speed_bits hcd =
    (if hcd = 7 \<or> hcd = 6 then flag CMD_SPEED_1000
     else if hcd = 5 \<or> hcd = 3 then flag CMD_SPEED_100
     else 0)"

definition genet_adjust_link :: "'d nic \<Rightarrow> ('d, unit) genet_op" where
  "genet_adjust_link n = do {
     phy \<leftarrow> gets s_phy_addr;
     aux \<leftarrow> mdio_read n phy 0x19;
     let hcd = drop_bit 8 (ucast aux :: u32) AND 0x7;
     cmd \<leftarrow> rd n (off UMAC_CMD);
     wr n (off UMAC_CMD) ((cmd AND NOT (flag CMD_SPEED_MASK)) OR (speed_bits hcd OR flag CMD_TX_EN OR flag CMD_RX_EN));
     reg \<leftarrow> rd n (off EXT_RGMII_OOB_CTRL);
     wr n (off EXT_RGMII_OOB_CTRL) ((reg AND NOT (flag OOB_DISABLE) AND NOT (flag ID_MODE_DIS)) OR (flag RGMII_LINK OR flag RGMII_MODE_EN));
     v1 \<leftarrow> rd n (off UMAC_CMD);
     v2 \<leftarrow> rd n (off EXT_RGMII_OOB_CTRL);
     ret ()
   }"

section \<open>Sending\<close>

text \<open>The frame is given by its bytes; the code's length argument is their number.\<close>

definition len_stat :: "u16 \<Rightarrow> u32" where
  "len_stat l = push_bit DMA_BD_LENGTH_SHIFT (ucast l) OR flag DMA_TX_QTAG OR flag DMA_SOP OR flag DMA_EOP OR flag DMA_TX_APPEND_CRC"

definition genet_send :: "'d nic \<Rightarrow> u8 list \<Rightarrow> ('d, bool) genet_op" where
  "genet_send n frame =
    (let l = of_nat (length frame) :: u16
     in if ucast l > RX_BUF_LENGTH then ret False
        else do {
          pidx \<leftarrow> gets s_tx_prod;
          let di = pidx mod TX_DESCS;
          let bi = pidx mod 32;
          modify (\<lambda>g. g\<lparr>s_tx_buf := (s_tx_buf g)(unat bi := frame @ drop (length frame) (s_tx_buf g (unat bi)))\<rparr>);
          point_desc n tx_desc di (tx_buf_at n + ucast bi * ucast RX_BUF_LENGTH);
          wr n (tx_desc di 0) (len_stat l);
          modify (\<lambda>g. g\<lparr>s_tx_prod := pidx + 1\<rparr>);
          ts \<leftarrow> cntpct n;
          modify (\<lambda>g. g\<lparr>s_tx_ts := ts\<rparr>);
          wr n (tdma_ring (ring_off TDMA_PROD_INDEX)) ((pidx + 1) AND 0xFFFF);
          ret True
        })"

section \<open>Receiving\<close>

text \<open>
  One round of the receive loop.  Copying more bytes than the buffer holds after the alignment pad
  is undefined.
\<close>

datatype recv_result = Nothing_new | Dropped | Frame "u8 list" u64 | Overrun

definition rx_bad :: "u32 \<Rightarrow> bool" where
  "rx_bad status \<longleftrightarrow>
     status AND (flag DMA_SOP OR flag DMA_EOP) \<noteq> (flag DMA_SOP OR flag DMA_EOP) \<or> status AND flag DMA_RX_ERR_MASK \<noteq> 0 \<or>
     drop_bit DMA_BD_LENGTH_SHIFT status AND DMA_BD_LENGTH_MASK \<le> RX_BUF_OFFSET"

definition rx_length :: "u32 \<Rightarrow> u16 \<Rightarrow> u16" where
  "rx_length status maxlen =
     (let rlen = ucast (drop_bit DMA_BD_LENGTH_SHIFT status AND DMA_BD_LENGTH_MASK) - ucast RX_BUF_OFFSET
      in if rlen > maxlen then maxlen else rlen)"

definition take_frame :: "'d nic \<Rightarrow> u32 \<Rightarrow> u32 \<Rightarrow> u16 \<Rightarrow> u64 \<Rightarrow> ('d, recv_result) genet_op" where
  "take_frame n i status maxlen ts =
    (if rx_bad status then do {
       modify (\<lambda>g. g\<lparr>s_rx_drop := s_rx_drop g + 1\<rparr>);
       ret Dropped
     }
     else do {
       let rlen = rx_length status maxlen;
       modify (\<lambda>g. g\<lparr>s_rx_dbg := (if s_rx_dbg g < 8 then s_rx_dbg g + 1 else s_rx_dbg g)\<rparr>);
       bytes \<leftarrow> gets (\<lambda>g. nic_rx_buf n (dev g) (unat i));
       ret (if unat RX_BUF_OFFSET + unat rlen \<le> unat RX_BUF_LENGTH
            then Frame (take (unat rlen) (drop (unat RX_BUF_OFFSET) bytes)) ts else Overrun)
     })"

definition recv_step :: "'d nic \<Rightarrow> u16 \<Rightarrow> ('d, recv_result) genet_op" where
  "recv_step n maxlen = do {
     p \<leftarrow> rd n (rdma_ring (ring_off RDMA_PROD_INDEX));
     cons \<leftarrow> gets s_rx_cons;
     if cons AND 0xFFFF = p AND 0xFFFF then ret Nothing_new
     else do {
       let i = cons mod RX_DESCS;
       status \<leftarrow> rd n (rx_desc i 0);
       seen \<leftarrow> gets s_rx_ts_seen;
       (if seen - cons = 0 then rx_stamp_new n False else ret ());
       ts \<leftarrow> gets (\<lambda>g. s_rx_ts g (unat i));
       modify (\<lambda>g. g\<lparr>s_rx_cons := cons + 1\<rparr>);
       wr n (rdma_ring (ring_off RDMA_CONS_INDEX)) ((cons + 1) AND 0xFFFF);
       take_frame n i status maxlen ts
     }
   }"

partial_function (option) genet_recv ::
  "'d nic \<Rightarrow> u16 \<Rightarrow> 'd genet \<Rightarrow> ((u8 list \<times> u64) option \<times> 'd genet) option" where
  "genet_recv n maxlen g =
    (case run_state (recv_step n maxlen) g of (r, g') \<Rightarrow>
      (case r of
         Nothing_new \<Rightarrow> Some (None, g')
       | Dropped \<Rightarrow> genet_recv n maxlen g'
       | Frame bs ts \<Rightarrow> Some (Some (bs, ts), g')
       | Overrun \<Rightarrow> None))"

end
