(* ===== verification/Genet_Props.thy ===== *)
theory Genet_Props
  imports Genet
begin

text \<open>
  Reception in the GENET driver.  While the controller delivers nothing new, a receive call ends: it
  skips and counts the damaged frames at the head of the ring and returns the first good one.
\<close>

section \<open>What the driver relies on\<close>

text \<open>
  The controller between two frames, in the states \<^term>\<open>I\<close>: the producer index stands still at
  \<^term>\<open>p\<close>, descriptor \<^term>\<open>i\<close> has the status \<^term>\<open>st i\<close> and its buffer the bytes \<^term>\<open>bufs i\<close>;
  reading a register, reading the counter and handing a buffer back keep it so.
\<close>

definition rx_quiet :: "'d nic \<Rightarrow> ('d \<Rightarrow> bool) \<Rightarrow> u32 \<Rightarrow> (u32 \<Rightarrow> u32) \<Rightarrow> (u32 \<Rightarrow> u8 list) \<Rightarrow> bool" where
  "rx_quiet n I p st bufs \<longleftrightarrow> (\<forall>d. I d \<longrightarrow>
     fst (nic_read n (GENET_BASE + unat (rdma_ring (ring_off RDMA_PROD_INDEX))) d) = p \<and>
     (\<forall>i < RX_DESCS. fst (nic_read n (GENET_BASE + unat (rx_desc i 0)) d) = st i \<and> nic_rx_buf n d (unat i) = bufs i) \<and>
     (\<forall>a. I (snd (nic_read n a d))) \<and> I (snd (nic_cntpct n d)) \<and>
     (\<forall>v. I (nic_write n (GENET_BASE + unat (rdma_ring (ring_off RDMA_CONS_INDEX))) v d)))"

lemma run_rd: "run_state (rd n a) g =
  (fst (nic_read n (GENET_BASE + unat a) (dev g)), g\<lparr>dev := snd (nic_read n (GENET_BASE + unat a) (dev g))\<rparr>)"
  by (simp add: rd_def case_prod_beta)

lemma run_wr: "run_state (wr n a v) g = ((), g\<lparr>dev := nic_write n (GENET_BASE + unat a) v (dev g)\<rparr>)"
  by (simp add: wr_def)

lemma run_cntpct: "run_state (cntpct n) g = (fst (nic_cntpct n (dev g)), g\<lparr>dev := snd (nic_cntpct n (dev g))\<rparr>)"
  by (simp add: cntpct_def case_prod_beta)

lemma run_gets: "run_state (gets f) g = (f g, g)"
  by (simp add: gets_def)

lemma run_modify: "run_state (modify f) g = ((), f g)"
  by (simp add: modify_def)

lemmas run_ops = run_rd run_wr run_cntpct run_gets run_modify

section \<open>The frames waiting in the ring\<close>

text \<open>The indices count modulo 65536, whatever the width of the driver's counter.\<close>

definition rx_waiting :: "u32 \<Rightarrow> u32 \<Rightarrow> nat" where
  "rx_waiting p c = unat (ucast (p - c) :: u16)"

lemma low16_eq: "x AND 0xFFFF = y AND 0xFFFF \<longleftrightarrow> (ucast x :: u16) = ucast (y :: u32)"
proof -
  have m: "(0xFFFF :: u32) = mask 16" by (simp add: mask_eq_exp_minus_1)
  show ?thesis unfolding m take_bit_eq_mask [symmetric]
    by (auto simp: bit_eq_iff bit_take_bit_iff bit_ucast_iff) (meson less_trans numeral_less_iff semiring_norm(76,78,81))+
qed

lemma ucast16_diff: "(ucast (x - y) :: u16) = ucast (x :: u32) - ucast y"
proof -
  have "ucast (x - y) = (ucast (word_of_int (uint x - uint y) :: u32) :: u16)" by (simp only: word_sub_wi)
  also have "\<dots> = word_of_int (uint x - uint y)" by (rule ucast_down_wi) (simp add: is_down)
  finally show ?thesis by (simp add: wi_hom_sub [symmetric])
qed

lemma rx_waiting_0: "rx_waiting p c = 0 \<longleftrightarrow> c AND 0xFFFF = p AND 0xFFFF"
  by (auto simp: rx_waiting_def low16_eq ucast16_diff unat_eq_0)

lemma rx_waiting_Suc: "rx_waiting p c = Suc k \<Longrightarrow> rx_waiting p (c + 1) = k"
proof -
  assume a: "rx_waiting p c = Suc k"
  have "(ucast (p - (c + 1)) :: u16) = ucast (p - c) - 1"
    using ucast16_diff [of "p - c" 1] by (simp add: diff_diff_eq)
  moreover have "1 \<le> (ucast (p - c) :: u16)" using a by (simp add: rx_waiting_def word_le_nat_alt)
  ultimately show ?thesis using a by (simp add: rx_waiting_def unat_sub)
qed

fun rx_pending :: "nat \<Rightarrow> u32 \<Rightarrow> u32 list" where
  "rx_pending 0 c = []"
| "rx_pending (Suc k) c = c mod RX_DESCS # rx_pending k (c + 1)"

lemma length_rx_pending [simp]: "length (rx_pending k c) = k"
  by (induction k arbitrary: c) simp_all

section \<open>One step and the whole call\<close>

lemma stamp_loop_keeps [simp]:
  "dev (stamp_loop b now p k g) = dev g" "s_rx_cons (stamp_loop b now p k g) = s_rx_cons g"
  "s_rx_drop (stamp_loop b now p k g) = s_rx_drop g"
  by (induction b now p k g rule: stamp_loop.induct) simp_all

lemma rx_stamp_new_keeps:
  assumes "rx_quiet n I p st bufs" "I (dev g)"
  obtains g' where "run_state (rx_stamp_new n b) g = ((), g')" "I (dev g')" "s_rx_cons g' = s_rx_cons g"
    "s_rx_drop g' = s_rx_drop g"
  using assms by (simp add: rx_stamp_new_def run_ops rx_quiet_def)

lemma recv_step_empty:
  assumes "rx_quiet n I p st bufs" "I (dev g)" "rx_waiting p (s_rx_cons g) = 0"
  shows "\<exists>g'. run_state (recv_step n maxlen) g = (Nothing_new, g') \<and> I (dev g') \<and> s_rx_cons g' = s_rx_cons g \<and>
     s_rx_drop g' = s_rx_drop g"
  using assms by (simp add: recv_step_def run_ops rx_quiet_def rx_waiting_0)

lemma take_frame_run:
  "run_state (take_frame n i status maxlen ts) g =
    (if rx_bad status then (Dropped, g\<lparr>s_rx_drop := s_rx_drop g + 1\<rparr>)
     else (if unat RX_BUF_OFFSET + unat (rx_length status maxlen) \<le> unat RX_BUF_LENGTH
           then Frame (take (unat (rx_length status maxlen)) (drop (unat RX_BUF_OFFSET) (nic_rx_buf n (dev g) (unat i)))) ts
           else Overrun, g\<lparr>s_rx_dbg := (if s_rx_dbg g < 8 then s_rx_dbg g + 1 else s_rx_dbg g)\<rparr>))"
  by (simp add: take_frame_def run_ops Let_def)

lemma rx_length_fits:
  assumes "maxlen \<le> 2046"
  shows "unat RX_BUF_OFFSET + unat (rx_length status maxlen) \<le> unat RX_BUF_LENGTH"
proof -
  have "rx_length status maxlen \<le> maxlen" by (auto simp: rx_length_def Let_def not_less)
  then have "unat (rx_length status maxlen) \<le> 2046" using assms by (simp add: word_le_nat_alt)
  then show ?thesis by (simp add: RX_BUF_OFFSET_def RX_BUF_LENGTH_def)
qed

definition frame_of :: "(u32 \<Rightarrow> u32) \<Rightarrow> (u32 \<Rightarrow> u8 list) \<Rightarrow> u16 \<Rightarrow> u32 \<Rightarrow> u8 list" where
  "frame_of st bufs maxlen i = take (unat (rx_length (st i) maxlen)) (drop (unat RX_BUF_OFFSET) (bufs i))"

lemma recv_step_next:
  assumes q: "rx_quiet n I p st bufs" "I (dev g)" and w: "rx_waiting p (s_rx_cons g) \<noteq> 0" and m: "maxlen \<le> 2046"
  defines "i \<equiv> s_rx_cons g mod RX_DESCS"
  obtains g' ts where "run_state (recv_step n maxlen) g =
      ((if rx_bad (st i) then Dropped else Frame (frame_of st bufs maxlen i) ts), g')" "I (dev g')"
    "s_rx_cons g' = s_rx_cons g + 1" "s_rx_drop g' = s_rx_drop g + (if rx_bad (st i) then 1 else 0)"
proof -
  have i: "i < RX_DESCS" by (simp add: i_def RX_DESCS_def word_mod_less_divisor)
  let ?p = "GENET_BASE + unat (rdma_ring (ring_off RDMA_PROD_INDEX))"
  let ?s = "GENET_BASE + unat (rx_desc i 0)"
  define g1 where "g1 = g\<lparr>dev := snd (nic_read n ?p (dev g))\<rparr>"
  define g2 where "g2 = g1\<lparr>dev := snd (nic_read n ?s (dev g1))\<rparr>"
  have g: "I (dev g1)" "I (dev g2)" "fst (nic_read n ?p (dev g)) = p" "fst (nic_read n ?s (dev g1)) = st i"
    "s_rx_cons g2 = s_rx_cons g" "s_rx_drop g2 = s_rx_drop g" "s_rx_cons g1 = s_rx_cons g"
    using q i by (simp_all add: g1_def g2_def rx_quiet_def)
  obtain g3 where g3: "run_state (if s_rx_ts_seen g2 - s_rx_cons g = 0 then rx_stamp_new n False else ret ()) g2 = ((), g3)"
    "I (dev g3)" "s_rx_cons g3 = s_rx_cons g" "s_rx_drop g3 = s_rx_drop g"
  proof (cases "s_rx_ts_seen g2 - s_rx_cons g = 0")
    case True
    obtain g3 where "run_state (rx_stamp_new n False) g2 = ((), g3)" "I (dev g3)" "s_rx_cons g3 = s_rx_cons g2"
      "s_rx_drop g3 = s_rx_drop g2" by (rule rx_stamp_new_keeps [OF q(1) g(2)])
    then show thesis using True g that by simp
  next
    case False
    then show thesis using g that [of g2] by simp
  qed
  define g4 where "g4 = g3\<lparr>s_rx_cons := s_rx_cons g + 1,
    dev := nic_write n (GENET_BASE + unat (rdma_ring (ring_off RDMA_CONS_INDEX))) ((s_rx_cons g + 1) AND 0xFFFF) (dev g3)\<rparr>"
  have g4: "I (dev g4)" "s_rx_cons g4 = s_rx_cons g + 1" "s_rx_drop g4 = s_rx_drop g" "nic_rx_buf n (dev g4) (unat i) = bufs i"
    using q(1) g3 i by (simp_all add: g4_def rx_quiet_def)
  have "run_state (recv_step n maxlen) g = run_state (take_frame n i (st i) maxlen (s_rx_ts g3 (unat i))) g4"
  proof -
    have r1: "run_state (rd n (rdma_ring (ring_off RDMA_PROD_INDEX))) g = (p, g1)"
      unfolding run_rd g(3) by (simp only: g1_def)
    have r2: "run_state (rd n (rx_desc i 0)) g1 = (st i, g2)" unfolding run_rd g(4) by (simp only: g2_def)
    have ne: "(s_rx_cons g AND 0xFFFF = p AND 0xFFFF) = False" using w by (simp add: rx_waiting_0)
    have r4: "g3\<lparr>s_rx_cons := s_rx_cons g + 1\<rparr>\<lparr>dev := nic_write n
        (GENET_BASE + unat (rdma_ring (ring_off RDMA_CONS_INDEX))) ((s_rx_cons g + 1) AND 0xFFFF)
        (dev (g3\<lparr>s_rx_cons := s_rx_cons g + 1\<rparr>))\<rparr> = g4" by (simp add: g4_def)
    show ?thesis unfolding recv_step_def
      by (simp only: State_Monad.run_state_bind r1 prod.case run_gets g(7) ne if_False Let_def i_def [symmetric] r2
          g3(1) run_modify run_wr r4)
  qed
  then show thesis
    using that [of "s_rx_ts g3 (unat i)" "snd (run_state (take_frame n i (st i) maxlen (s_rx_ts g3 (unat i))) g4)"]
      g4 rx_length_fits [OF m, of "st i"] by (cases "rx_bad (st i)") (simp_all add: take_frame_run frame_of_def)
qed

lemma genet_recv_frames:
  assumes q: "rx_quiet n I p st bufs" and m: "maxlen \<le> 2046"
  defines "bad \<equiv> \<lambda>i. rx_bad (st i)"
  shows "I (dev g) \<Longrightarrow> rx_waiting p (s_rx_cons g) = k \<Longrightarrow>
    \<exists>r g'. genet_recv n maxlen g = Some (r, g') \<and> I (dev g') \<and>
      s_rx_drop g' = s_rx_drop g + of_nat (length (takeWhile bad (rx_pending k (s_rx_cons g)))) \<and>
      (case dropWhile bad (rx_pending k (s_rx_cons g)) of
         [] \<Rightarrow> r = None \<and> rx_waiting p (s_rx_cons g') = 0
       | i # rest \<Rightarrow> (\<exists>ts. r = Some (frame_of st bufs maxlen i, ts)) \<and> rx_waiting p (s_rx_cons g') = length rest)"
proof (induction k arbitrary: g)
  case 0
  then obtain g' where "run_state (recv_step n maxlen) g = (Nothing_new, g')" "I (dev g')" "s_rx_cons g' = s_rx_cons g"
    "s_rx_drop g' = s_rx_drop g" using recv_step_empty [OF q] by blast
  then show ?case using 0 by (subst genet_recv.simps) simp
next
  case (Suc k)
  have w: "rx_waiting p (s_rx_cons g) \<noteq> 0" using Suc.prems(2) by simp
  obtain g' ts where g': "run_state (recv_step n maxlen) g =
      ((if rx_bad (st (s_rx_cons g mod RX_DESCS)) then Dropped else Frame (frame_of st bufs maxlen (s_rx_cons g mod RX_DESCS)) ts), g')"
    "I (dev g')" "s_rx_cons g' = s_rx_cons g + 1"
    "s_rx_drop g' = s_rx_drop g + (if rx_bad (st (s_rx_cons g mod RX_DESCS)) then 1 else 0)"
    by (rule recv_step_next [OF q Suc.prems(1) w m])
  have k: "rx_waiting p (s_rx_cons g') = k" unfolding g'(3) by (rule rx_waiting_Suc [OF Suc.prems(2)])
  show ?case
  proof (cases "rx_bad (st (s_rx_cons g mod RX_DESCS))")
    case True
    then show ?thesis using Suc.IH [OF g'(2) k] g' by (subst genet_recv.simps) (simp add: bad_def ac_simps)
  next
    case False
    then show ?thesis using g' k by (subst genet_recv.simps) (simp add: bad_def)
  qed
qed


text \<open>A controller with two waiting frames, the first without its end mark.\<close>

definition sample_nic :: "unit nic" where
  "sample_nic = \<lparr>nic_read = (\<lambda>a d. (if a = GENET_BASE + unat (rdma_ring (ring_off RDMA_PROD_INDEX)) then 2
      else if a = GENET_BASE + unat (rx_desc 0 0) then 0x00402000 else 0x00056000, d)),
     nic_write = (\<lambda>a v d. d), nic_cntpct = (\<lambda>d. (7, d)), nic_rx_buf = (\<lambda>d i. [0, 0, 1, 2, 3, 4]),
     rx_buf_at = 0, tx_buf_at = 0, genet_isr_at = 0\<rparr>"

definition sample_genet :: "unit genet" where
  "sample_genet = \<lparr>dev = (), s_tx_buf = (\<lambda>_. []), s_rx_ts = (\<lambda>_. 0), s_rx_ts_seen = 0, s_rx_ts_late = 0, s_tx_ts = 0,
     s_irq_ok = False, s_rx_dbg = 0, s_rx_drop = 0, s_rx_cons = 0, s_tx_prod = 0, s_link = True, s_phy_addr = 1,
     port_st = \<lparr>uxCriticalNesting = 0, irq_masked = False, ullTimerReloadTicks = 0, cntp_tval = 0, cntp_ctl = 0,
       mmio = (\<lambda>_. 0), xIrqTable = []\<rparr>\<rparr>"

definition sample_status :: "u32 \<Rightarrow> u32" where
  "sample_status i = fst (nic_read sample_nic (GENET_BASE + unat (rx_desc i 0)) ())"

lemma sample_quiet: "rx_quiet sample_nic (\<lambda>_. True) 2 sample_status (\<lambda>_. [0, 0, 1, 2, 3, 4])"
  by (simp add: rx_quiet_def sample_status_def) (simp add: sample_nic_def)


end
