(* ===== verification/Mailbox.thy ===== *)
theory Mailbox
  imports Flint_Prelude
begin

text \<open>
  The VideoCore property mailbox of \<^verbatim>\<open>bsp/rpi4/mailbox.c\<close>.  The GPU is a parameter: what a register
  access returns and what it does, to its own state and to the shared message buffer.
\<close>

section \<open>Constants\<close>

definition MBOX_BASE :: nat where "MBOX_BASE = 0xFE00B880"
definition MBOX_READ :: nat where "MBOX_READ = MBOX_BASE + 0x00"
definition MBOX_STATUS :: nat where "MBOX_STATUS = MBOX_BASE + 0x18"
definition MBOX_WRITE :: nat where "MBOX_WRITE = MBOX_BASE + 0x20"
definition MBOX_FULL :: u32 where "MBOX_FULL = 0x80000000"
definition MBOX_EMPTY :: u32 where "MBOX_EMPTY = 0x40000000"
definition MBOX_CH_PROP :: u32 where "MBOX_CH_PROP = 8"
definition MBOX_REQUEST :: u32 where "MBOX_REQUEST = 0"
definition MBOX_RESPONSE_OK :: u32 where "MBOX_RESPONSE_OK = 0x80000000"
definition MBOX_SPIN :: nat where "MBOX_SPIN = 2000000"
definition TAG_GET_MAC :: u32 where "TAG_GET_MAC = 0x00010003"
definition TAG_GET_SERIAL :: u32 where "TAG_GET_SERIAL = 0x00010004"
definition TAG_END :: u32 where "TAG_END = 0"

section \<open>State\<close>

text \<open>The sixteen words of \<^verbatim>\<open>s_mbox\<close> and the state of the GPU.\<close>

type_synonym 'd mbox_state = "u32 list \<times> 'd"

record 'd gpu =
  gpu_read :: "nat \<Rightarrow> 'd mbox_state \<Rightarrow> u32 \<times> 'd mbox_state"
  gpu_write :: "nat \<Rightarrow> u32 \<Rightarrow> 'd mbox_state \<Rightarrow> 'd mbox_state"
  s_mbox_at :: u64

definition word_at :: "nat \<Rightarrow> 'd mbox_state \<Rightarrow> u32" where
  "word_at i s = fst s ! i"

definition set_word :: "nat \<Rightarrow> u32 \<Rightarrow> 'd mbox_state \<Rightarrow> 'd mbox_state" where
  "set_word i v s = ((fst s)[i := v], snd s)"

section \<open>Calls\<close>

text \<open>The two bounded waits: the rounds left, and whether the wait succeeded.\<close>

fun wait_not_full :: "'d gpu \<Rightarrow> nat \<Rightarrow> 'd mbox_state \<Rightarrow> bool \<times> 'd mbox_state" where
  "wait_not_full gp 0 s = (False, s)"
| "wait_not_full gp (Suc k) s =
    (let (v, s) = gpu_read gp MBOX_STATUS s
     in if v AND MBOX_FULL \<noteq> 0 then wait_not_full gp k s else (True, s))"

fun wait_answer :: "'d gpu \<Rightarrow> u32 \<Rightarrow> nat \<Rightarrow> 'd mbox_state \<Rightarrow> bool \<times> 'd mbox_state" where
  "wait_answer gp msg 0 s = (False, s)"
| "wait_answer gp msg (Suc k) s =
    (let (v, s) = gpu_read gp MBOX_STATUS s
     in if v AND MBOX_EMPTY = 0
        then (let (r, s) = gpu_read gp MBOX_READ s
              in if r = msg then (word_at 1 s = MBOX_RESPONSE_OK, s) else wait_answer gp msg k s)
        else wait_answer gp msg k s)"

definition mbox_call_at :: "'d gpu \<Rightarrow> u32 \<Rightarrow> 'd mbox_state \<Rightarrow> bool \<times> 'd mbox_state" where
  "mbox_call_at gp bus_addr s =
    (let msg = (bus_addr AND NOT 0xF) OR MBOX_CH_PROP;
         (ok, s) = wait_not_full gp MBOX_SPIN s
     in if \<not> ok then (False, s)
        else wait_answer gp msg MBOX_SPIN (gpu_write gp MBOX_WRITE msg s))"

fun clear_values :: "nat \<Rightarrow> 'd mbox_state \<Rightarrow> 'd mbox_state" where
  "clear_values 0 s = s"
| "clear_values (Suc k) s = set_word (5 + k) 0 (clear_values k s)"

definition fill_request :: "u32 \<Rightarrow> u32 \<Rightarrow> 'd mbox_state \<Rightarrow> 'd mbox_state" where
  "fill_request tag vwords s =
    (let s = set_word 0 ((5 + vwords + 1) * 4) s;
         s = set_word 1 MBOX_REQUEST s;
         s = set_word 2 tag s;
         s = set_word 3 (vwords * 4) s;
         s = set_word 4 0 s;
         s = clear_values (unat vwords) s
     in set_word (unat (5 + vwords)) TAG_END s)"

text \<open>One pass of the query, with the GPU's uncached alias of the buffer first.\<close>

definition query_pass :: "'d gpu \<Rightarrow> u32 \<Rightarrow> u32 \<Rightarrow> u32 \<Rightarrow> 'd mbox_state \<Rightarrow> bool \<times> 'd mbox_state" where
  "query_pass gp tag vwords bus s =
    (let (ok, s) = mbox_call_at gp bus (fill_request tag vwords s)
     in (ok \<and> word_at 4 s AND 0x80000000 \<noteq> 0, s))"

definition mbox_query :: "'d gpu \<Rightarrow> u32 \<Rightarrow> u32 \<Rightarrow> 'd mbox_state \<Rightarrow> bool \<times> 'd mbox_state" where
  "mbox_query gp tag vwords s =
    (let base = ucast (s_mbox_at gp) :: u32;
         (ok, s) = query_pass gp tag vwords (base OR 0xC0000000) s
     in if ok then (True, s) else query_pass gp tag vwords base s)"

section \<open>Board identity\<close>

definition mac_bytes :: "'d mbox_state \<Rightarrow> u8 list" where
  "mac_bytes s =
    [ucast (word_at 5 s), ucast (drop_bit 8 (word_at 5 s)), ucast (drop_bit 16 (word_at 5 s)),
     ucast (drop_bit 24 (word_at 5 s)), ucast (word_at 6 s), ucast (drop_bit 8 (word_at 6 s))]"

definition mac_rejected :: "u8 list \<Rightarrow> bool" where
  "mac_rejected m \<longleftrightarrow>
     m ! 0 OR m ! 1 OR m ! 2 OR m ! 3 OR m ! 4 OR m ! 5 = 0 \<or>
     m ! 0 AND m ! 1 AND m ! 2 AND m ! 3 AND m ! 4 AND m ! 5 = 0xFF \<or>
     m ! 0 AND 0x01 \<noteq> 0"

text \<open>The result is the return value, the caller's array and the state.\<close>

definition mbox_get_mac :: "'d gpu \<Rightarrow> u8 list \<Rightarrow> 'd mbox_state \<Rightarrow> bool \<times> u8 list \<times> 'd mbox_state" where
  "mbox_get_mac gp mac s =
    (let (ok, s) = mbox_query gp TAG_GET_MAC 2 s
     in if \<not> ok then (False, mac, s)
        else (let m = mac_bytes s in if mac_rejected m then (False, mac, s) else (True, m, s)))"

definition mbox_get_serial :: "'d gpu \<Rightarrow> u64 \<Rightarrow> 'd mbox_state \<Rightarrow> bool \<times> u64 \<times> 'd mbox_state" where
  "mbox_get_serial gp serial s =
    (let (ok, s) = mbox_query gp TAG_GET_SERIAL 2 s
     in if \<not> ok then (False, serial, s)
        else (let v = push_bit 32 (ucast (word_at 6 s)) OR ucast (word_at 5 s) in (v \<noteq> 0, v, s)))"

section \<open>Answers\<close>

lemma mac_rejected_iff:
  assumes "length m = 6"
  shows "mac_rejected m \<longleftrightarrow> m = replicate 6 0 \<or> m = replicate 6 0xFF \<or> bit (m ! 0) 0"
proof -
  obtain a b c d e f where m: "m = [a, b, c, d, e, f]"
    using assms by (auto simp: length_Suc_conv eval_nat_numeral)
  have "a OR b OR c OR d OR e OR f = 0 \<longleftrightarrow> a = 0 \<and> b = 0 \<and> c = 0 \<and> d = 0 \<and> e = 0 \<and> f = 0"
    by (simp add: or_eq_0_iff)
  moreover have "a AND b AND c AND d AND e AND f = 0xFF \<longleftrightarrow> a = 0xFF \<and> b = 0xFF \<and> c = 0xFF \<and> d = 0xFF \<and> e = 0xFF \<and> f = 0xFF"
  proof -
    have top: "(0xFF :: u8) = - 1" by simp
    have and1: "x AND y = - 1 \<longleftrightarrow> x = - 1 \<and> y = - 1" for x y :: u8
      by (auto simp: bit_eq_iff bit_simps)
    show ?thesis unfolding top and1 ..
  qed
  moreover have "a AND 1 \<noteq> 0 \<longleftrightarrow> bit a 0" by (simp add: and_one_eq bit_0 odd_iff_mod_2_eq_one)
  ultimately show ?thesis by (simp add: m mac_rejected_def eval_nat_numeral)
qed

text \<open>
  An address the mailbox reports is usable: the call returns true only with six bytes that are
  neither all zero nor all ones nor a multicast address, and when it returns false the caller's
  array is as it was.  It returns whatever the GPU does, since both waits are bounded.
\<close>

theorem mbox_mac_usable:
  "(case mbox_get_mac gp mac s of (ok, m, s') \<Rightarrow>
     (if ok then length m = 6 \<and> m \<noteq> replicate 6 0 \<and> m \<noteq> replicate 6 0xFF \<and> \<not> bit (m ! 0) 0 \<and> m = mac_bytes s'
      else m = mac))"
proof -
  obtain ok s' where q: "mbox_query gp TAG_GET_MAC 2 s = (ok, s')" by (cases "mbox_query gp TAG_GET_MAC 2 s")
  have "length (mac_bytes s') = 6" by (simp add: mac_bytes_def)
  then show ?thesis using q mac_rejected_iff [of "mac_bytes s'"] by (simp add: mbox_get_mac_def Let_def)
qed

end
