(* ===== verification/Transport_Raw.thy ===== *)
theory Transport_Raw
  imports Flint_Prelude
begin

text \<open>
  The MQTT transport over the raw TCP interface of lwIP, \<^verbatim>\<open>port/mqtt/transport_raw.c\<close>: its receive ring,
  the callbacks lwIP makes into it and the calls coreMQTT makes.  lwIP and the network pump are
  parameters; the pump is what runs the callbacks.
\<close>

section \<open>State\<close>

definition RX_RING_SIZE :: u32 where "RX_RING_SIZE = 4096"

datatype TransportState = TS_IDLE | TS_RESOLVING | TS_CONNECTING | TS_UP | TS_CLOSED | TS_ERROR

datatype err_t = ERR_OK | ERR_MEM | ERR_INPROGRESS | ERR_RST | ERR_ABRT | ERR_OTHER

text \<open>A control block is its address (0 for none); the ring is the list of its 4096 bytes.\<close>

record NetworkContext =
  pcb :: nat
  ts_state :: TransportState
  dns_done :: bool
  dns_ok :: bool
  ip_addr :: u32
  net_err :: "string option"
  rx :: "u8 list"
  rx_head :: u32
  rx_tail :: u32
  keepalive :: bool

definition ring_used :: "NetworkContext \<Rightarrow> u32" where
  "ring_used c = rx_head c - rx_tail c"

definition ring_free :: "NetworkContext \<Rightarrow> u32" where
  "ring_free c = RX_RING_SIZE - ring_used c"

section \<open>Callbacks\<close>

definition ring_push :: "u8 \<Rightarrow> NetworkContext \<Rightarrow> NetworkContext" where
  "ring_push b c = c\<lparr>rx := (rx c)[unat (rx_head c mod RX_RING_SIZE) := b], rx_head := rx_head c + 1\<rparr>"

text \<open>
  A received packet buffer is its chain of payloads, whose lengths add up to its total length;
  no buffer means the peer closed.
\<close>

definition on_recv :: "u8 list list option \<Rightarrow> NetworkContext \<Rightarrow> err_t \<times> NetworkContext" where
  "on_recv p c =
    (case p of
       None \<Rightarrow> (ERR_OK, c\<lparr>ts_state := TS_CLOSED, net_err := Some ''closed by broker''\<rparr>)
     | Some q \<Rightarrow>
         if of_nat (length (concat q)) > ring_free c then (ERR_MEM, c)
         else (ERR_OK, fold ring_push (concat q) c))"

definition on_err :: "err_t \<Rightarrow> NetworkContext \<Rightarrow> NetworkContext" where
  "on_err err c = c\<lparr>pcb := 0, ts_state := TS_ERROR,
     net_err := Some (if err = ERR_RST then ''reset by peer'' else if err = ERR_ABRT then ''aborted'' else ''TCP error / timeout'')\<rparr>"

definition on_connected :: "err_t \<Rightarrow> NetworkContext \<Rightarrow> NetworkContext" where
  "on_connected err c = c\<lparr>ts_state := (if err = ERR_OK then TS_UP else TS_ERROR)\<rparr>"

definition on_dns :: "u32 option \<Rightarrow> NetworkContext \<Rightarrow> NetworkContext" where
  "on_dns ip c =
    (let c = (case ip of None \<Rightarrow> c | Some a \<Rightarrow> c\<lparr>ip_addr := a, dns_ok := True\<rparr>)
     in c\<lparr>dns_done := True\<rparr>)"

section \<open>The stack below\<close>

record 'e lwip =
  fm_plat_pump :: "bool \<Rightarrow> NetworkContext \<times> 'e \<Rightarrow> NetworkContext \<times> 'e"
  plat_ms :: "'e \<Rightarrow> u32 \<times> 'e"
  dns_gethostbyname :: "string \<Rightarrow> 'e \<Rightarrow> err_t \<times> u32 \<times> 'e"
  tcp_new :: "'e \<Rightarrow> nat \<times> 'e"
  tcp_connect :: "nat \<Rightarrow> u32 \<Rightarrow> u16 \<Rightarrow> 'e \<Rightarrow> err_t \<times> 'e"
  tcp_shutdown :: "nat \<Rightarrow> 'e \<Rightarrow> 'e"
  tcp_sndbuf :: "nat \<Rightarrow> 'e \<Rightarrow> u16"
  tcp_queue_full :: "nat \<Rightarrow> 'e \<Rightarrow> bool"
  tcp_write :: "nat \<Rightarrow> u8 list \<Rightarrow> 'e \<Rightarrow> err_t \<times> 'e"
  tcp_output :: "nat \<Rightarrow> 'e \<Rightarrow> 'e"

type_synonym 'e net_state = "NetworkContext \<times> 'e"

text \<open>Pumping until a condition holds or the time is over; it may not end, and then has no result.\<close>

partial_function (option) wait_loop ::
  "'e lwip \<Rightarrow> (NetworkContext \<Rightarrow> bool) \<Rightarrow> u32 \<Rightarrow> u32 \<Rightarrow> 'e net_state \<Rightarrow> (bool \<times> 'e net_state) option" where
  "wait_loop lw cond t0 timeout_ms s =
    (if cond (fst s) then Some (True, s)
     else (let (t, e) = plat_ms lw (snd s)
           in if t - t0 \<ge> timeout_ms then Some (False, fst s, e)
              else wait_loop lw cond t0 timeout_ms (fm_plat_pump lw True (fst s, e))))"

definition wait_for ::
  "'e lwip \<Rightarrow> (NetworkContext \<Rightarrow> bool) \<Rightarrow> u32 \<Rightarrow> 'e net_state \<Rightarrow> (bool \<times> 'e net_state) ub" where
  "wait_for lw cond timeout_ms s =
    (let (t0, e) = plat_ms lw (snd s) in wait_loop lw cond t0 timeout_ms (fst s, e))"

definition dns_finished :: "NetworkContext \<Rightarrow> bool" where
  "dns_finished c = dns_done c"

definition tcp_settled :: "NetworkContext \<Rightarrow> bool" where
  "tcp_settled c \<longleftrightarrow> ts_state c \<noteq> TS_CONNECTING"

section \<open>Opening and closing\<close>

text \<open>Detaching the callbacks and closing, or failing that aborting, the connection is one operation of the stack.\<close>

definition mqtt_transport_close :: "'e lwip \<Rightarrow> 'e net_state \<Rightarrow> 'e net_state" where
  "mqtt_transport_close lw s =
    (case s of (c, e) \<Rightarrow>
      let (c, e) = (if pcb c \<noteq> 0 then (c\<lparr>pcb := 0\<rparr>, tcp_shutdown lw (pcb c) e) else (c, e))
      in (if ts_state c \<noteq> TS_ERROR then c\<lparr>ts_state := TS_IDLE\<rparr> else c, e))"

definition open_failed :: "string \<Rightarrow> 'e net_state \<Rightarrow> int \<times> 'e net_state" where
  "open_failed why s = (case s of (c, e) \<Rightarrow> (- 1, c\<lparr>net_err := Some why, ts_state := TS_ERROR\<rparr>, e))"

definition close_failed :: "'e lwip \<Rightarrow> string \<Rightarrow> 'e net_state \<Rightarrow> int \<times> 'e net_state" where
  "close_failed lw why s =
    (case s of (c, e) \<Rightarrow>
      (case mqtt_transport_close lw (c\<lparr>net_err := Some why\<rparr>, e) of (c, e) \<Rightarrow> (- 1, c\<lparr>ts_state := TS_ERROR\<rparr>, e)))"

definition resolve :: "'e lwip \<Rightarrow> string \<Rightarrow> u32 \<Rightarrow> 'e net_state \<Rightarrow> (string option \<times> 'e net_state) ub" where
  "resolve lw host timeout_ms s =
    (case s of (c, e) \<Rightarrow> do {
       let c = c\<lparr>dns_done := False, dns_ok := False, ts_state := TS_RESOLVING\<rparr>;
       let (r, a, e) = dns_gethostbyname lw host e;
       if r = ERR_OK then Some (None, c\<lparr>ip_addr := a, dns_ok := True, dns_done := True\<rparr>, e)
       else if r = ERR_INPROGRESS then do {
         (ok, c, e) \<leftarrow> wait_for lw dns_finished timeout_ms (c, e);
         Some (if \<not> ok then Some ''DNS timeout'' else if \<not> dns_ok c then Some ''DNS: host not found'' else None, c, e)
       }
       else Some (Some ''DNS request failed (no DNS server?)'', c, e)
     })"

definition connect_tcp :: "'e lwip \<Rightarrow> u16 \<Rightarrow> u32 \<Rightarrow> 'e net_state \<Rightarrow> (int \<times> 'e net_state) ub" where
  "connect_tcp lw port timeout_ms s =
    (case s of (c, e) \<Rightarrow> do {
       let (p, e) = tcp_new lw e;
       let c = c\<lparr>pcb := p\<rparr>;
       if p = 0 then Some (open_failed ''out of TCP PCBs'' (c, e))
       else do {
         let c = c\<lparr>ts_state := TS_CONNECTING\<rparr>;
         let (r, e) = tcp_connect lw p (ip_addr c) port e;
         if r \<noteq> ERR_OK then Some (close_failed lw ''tcp_connect failed'' (c, e))
         else do {
           (ok, c, e) \<leftarrow> wait_for lw tcp_settled timeout_ms (c, e);
           if \<not> ok then Some (close_failed lw ''TCP connect timeout'' (c, e))
           else if ts_state c \<noteq> TS_UP
           then Some (close_failed lw (case net_err c of None \<Rightarrow> ''connection refused'' | Some m \<Rightarrow> m) (c, e))
           else Some (0, c\<lparr>keepalive := True\<rparr>, e)
         }
       }
     })"

definition mqtt_transport_open :: "'e lwip \<Rightarrow> string \<Rightarrow> u16 \<Rightarrow> u32 \<Rightarrow> 'e net_state \<Rightarrow> (int \<times> 'e net_state) ub" where
  "mqtt_transport_open lw host port timeout_ms s = do {
     let (c, e) = mqtt_transport_close lw s;
     let c = c\<lparr>rx_head := 0, rx_tail := 0, net_err := None\<rparr>;
     (why, s) \<leftarrow> resolve lw host timeout_ms (c, e);
     (case why of Some m \<Rightarrow> Some (open_failed m s) | None \<Rightarrow> connect_tcp lw port timeout_ms s)
   }"

definition mqtt_transport_is_up :: "NetworkContext \<Rightarrow> bool" where
  "mqtt_transport_is_up c \<longleftrightarrow> ts_state c = TS_UP \<and> pcb c \<noteq> 0"

definition mqtt_transport_error :: "NetworkContext \<Rightarrow> string" where
  "mqtt_transport_error c = (case net_err c of Some m \<Rightarrow> m | None \<Rightarrow> ''none'')"

section \<open>Sending and receiving\<close>

definition mqtt_transport_send :: "'e lwip \<Rightarrow> u8 list \<Rightarrow> 'e net_state \<Rightarrow> int \<times> 'e net_state" where
  "mqtt_transport_send lw bs s =
    (case s of (c, e) \<Rightarrow>
      if \<not> mqtt_transport_is_up c then (- 1, c, e)
      else (let room = tcp_sndbuf lw (pcb c) e
            in if room = 0 \<or> tcp_queue_full lw (pcb c) e then (0, fm_plat_pump lw True (c, e))
               else (let n = (if length bs > unat room then unat room else length bs);
                         (r, e) = tcp_write lw (pcb c) (take n bs) e
                     in if r \<noteq> ERR_OK then (0, fm_plat_pump lw True (c, e))
                        else (int n, c, tcp_output lw (pcb c) e))))"

fun ring_take :: "nat \<Rightarrow> NetworkContext \<Rightarrow> u8 list \<times> NetworkContext" where
  "ring_take 0 c = ([], c)"
| "ring_take (Suc k) c =
    (if ring_used c > 0
     then (let b = rx c ! unat (rx_tail c mod RX_RING_SIZE);
               (bs, c') = ring_take k (c\<lparr>rx_tail := rx_tail c + 1\<rparr>)
           in (b # bs, c'))
     else ([], c))"

text \<open>The result is the return value and the bytes stored in the caller's buffer of \<^term>\<open>n\<close> bytes.\<close>

definition mqtt_transport_recv :: "'e lwip \<Rightarrow> nat \<Rightarrow> 'e net_state \<Rightarrow> int \<times> u8 list \<times> 'e net_state" where
  "mqtt_transport_recv lw n s =
    (let (c, e) = (if ring_used (fst s) = 0 then fm_plat_pump lw False s else s)
     in if ring_used c = 0 then (if mqtt_transport_is_up c then 0 else - 1, [], c, e)
        else (let (bs, c) = ring_take n c in (int (length bs), bs, c, e)))"

section \<open>The ring as a queue of bytes\<close>

text \<open>The free-running 32-bit indices are used modulo the ring size, which divides their range.\<close>

definition slot :: "NetworkContext \<Rightarrow> nat \<Rightarrow> u8" where
  "slot c i = rx c ! ((unat (rx_tail c) + i) mod 4096)"

definition pending :: "NetworkContext \<Rightarrow> u8 list" where
  "pending c = map (slot c) [0..<unat (ring_used c)]"

definition ring_ok :: "NetworkContext \<Rightarrow> bool" where
  "ring_ok c \<longleftrightarrow> length (rx c) = 4096 \<and> unat (ring_used c) \<le> 4096"

lemma index_mod: "unat ((x :: u32) mod RX_RING_SIZE) = unat x mod 4096"
  by (simp add: RX_RING_SIZE_def unat_mod)

lemma unat_add_mod: "unat ((x :: u32) + y) mod 4096 = (unat x + unat y) mod 4096"
proof -
  have "unat (x + y) = (unat x + unat y) mod 2 ^ 32" by (simp add: unat_word_ariths)
  then show ?thesis by (simp add: mod_mod_cancel)
qed

lemma head_index: "unat (rx_head c) mod 4096 = (unat (rx_tail c) + unat (ring_used c)) mod 4096"
  using unat_add_mod [of "rx_tail c" "ring_used c"] by (simp add: ring_used_def)

lemma ring_free_eq: "ring_ok c \<Longrightarrow> unat (ring_free c) = 4096 - unat (ring_used c)"
  by (simp add: ring_ok_def ring_free_def RX_RING_SIZE_def unat_sub word_le_nat_alt)

lemma length_pending [simp]: "length (pending c) = unat (ring_used c)"
  by (simp add: pending_def)

lemma ring_push_pending:
  assumes "ring_ok c" "unat (ring_used c) < 4096"
  shows "ring_ok (ring_push b c)" "pending (ring_push b c) = pending c @ [b]"
proof -
  let ?c = "ring_push b c" and ?u = "unat (ring_used c)"
  have u: "unat (ring_used ?c) = ?u + 1"
  proof -
    have "ring_used ?c = ring_used c + 1" by (simp add: ring_used_def ring_push_def)
    moreover have "unat (ring_used c + 1) = ?u + 1" using assms(2) by (simp add: unat_word_ariths)
    ultimately show ?thesis by simp
  qed
  then show "ring_ok ?c" using assms by (simp add: ring_ok_def ring_push_def)
  let ?h = "(unat (rx_tail c) + ?u) mod 4096"
  have rx: "rx ?c = (rx c)[?h := b]" by (simp add: ring_push_def index_mod head_index)
  have t: "rx_tail ?c = rx_tail c" by (simp add: ring_push_def)
  have "slot ?c i = slot c i" if "i < ?u" for i
  proof -
    have "(unat (rx_tail c) + i) mod 4096 \<noteq> ?h"
    proof
      assume "(unat (rx_tail c) + i) mod 4096 = ?h"
      then have "(4096::nat) dvd (unat (rx_tail c) + ?u) - (unat (rx_tail c) + i)"
        using that by (metis add_le_cancel_left less_imp_le mod_eq_dvd_iff_nat)
      then show False using that assms(2) by (auto dest!: dvd_imp_le)
    qed
    then show ?thesis by (simp add: slot_def rx t)
  qed
  moreover have "slot ?c ?u = b" using assms(1) by (simp add: slot_def rx t ring_ok_def)
  ultimately show "pending ?c = pending c @ [b]" unfolding pending_def u by simp
qed

lemma ring_push_all:
  "ring_ok c \<Longrightarrow> unat (ring_used c) + length bs \<le> 4096 \<Longrightarrow>
   ring_ok (fold ring_push bs c) \<and> pending (fold ring_push bs c) = pending c @ bs"
proof (induction bs arbitrary: c)
  case (Cons b bs)
  then have "unat (ring_used c) < 4096" by simp
  note p = ring_push_pending [OF Cons.prems(1) this, of b]
  have "unat (ring_used (ring_push b c)) = unat (ring_used c) + 1"
    using arg_cong [OF p(2), of length] by simp
  then show ?case using Cons.IH [OF p(1)] Cons.prems(2) p(2) by simp
qed simp

lemma ring_take_pending:
  "ring_ok c \<Longrightarrow> ring_ok (snd (ring_take n c)) \<and> fst (ring_take n c) = take n (pending c) \<and>
     pending (snd (ring_take n c)) = drop n (pending c)"
proof (induction n arbitrary: c)
  case (Suc n)
  show ?case
  proof (cases "ring_used c > 0")
    case True
    let ?c = "c\<lparr>rx_tail := rx_tail c + 1\<rparr>" and ?u = "unat (ring_used c)"
    have pos: "0 < ?u" using True by (simp add: word_less_nat_alt)
    have "ring_used ?c = ring_used c - 1" by (simp add: ring_used_def)
    then have u: "unat (ring_used ?c) = ?u - 1" using pos by (simp add: unat_sub word_le_nat_alt)
    have ok: "ring_ok ?c" using Suc.prems unfolding ring_ok_def u by auto
    have "slot ?c i = slot c (Suc i)" for i
    proof -
      have "(unat (rx_tail c + 1) + i) mod 4096 = (unat (rx_tail c + 1) mod 4096 + i) mod 4096" by (rule mod_add_left_eq [symmetric])
      also have "\<dots> = (unat (rx_tail c) + 1 + i) mod 4096"
        unfolding unat_add_mod by (simp add: mod_add_left_eq)
      finally show ?thesis by (simp add: slot_def)
    qed
    moreover have "[0..<?u] = 0 # map Suc [0..<?u - 1]"
      using pos by (metis Suc_diff_1 map_Suc_upt upt_conv_Cons)
    ultimately have p: "pending c = slot c 0 # pending ?c" unfolding pending_def u by simp
    have "rx c ! unat (rx_tail c mod RX_RING_SIZE) = slot c 0" by (simp add: slot_def index_mod)
    with True p Suc.IH [OF ok] show ?thesis by (simp add: split_beta Let_def)
  next
    case False
    then have "pending c = []" by (simp add: pending_def word_less_nat_alt)
    with False Suc.prems show ?thesis by simp
  qed
qed simp

text \<open>
  C13: The receive ring is a bounded FIFO of bytes, across every wrap of its 32-bit indices.  A packet
  that fits is appended whole, one that does not is refused whole with nothing changed, so that
  lwIP delivers it again, and the MQTT side takes the oldest bytes in order.
\<close>

theorem transport_ring_fifo:
  assumes "ring_ok c" "length (concat q) < 2 ^ 32"
  shows "(if length (concat q) \<le> 4096 - length (pending c)
          then fst (on_recv (Some q) c) = ERR_OK \<and> ring_ok (snd (on_recv (Some q) c)) \<and>
               pending (snd (on_recv (Some q) c)) = pending c @ concat q
          else on_recv (Some q) c = (ERR_MEM, c)) \<and>
     ring_ok (snd (ring_take n c)) \<and> fst (ring_take n c) = take n (pending c) \<and> pending (snd (ring_take n c)) = drop n (pending c)"
proof -
  have "unat (of_nat (length (concat q)) :: u32) = length (concat q)"
    using assms(2) by (simp add: unat_of_nat take_bit_nat_eq_self)
  then have "of_nat (length (concat q)) > ring_free c \<longleftrightarrow> 4096 - length (pending c) < length (concat q)"
    using ring_free_eq [OF assms(1)] by (simp add: word_less_nat_alt)
  moreover have "unat (ring_used c) \<le> 4096" using assms(1) by (simp add: ring_ok_def)
  ultimately show ?thesis
    using ring_take_pending [OF assms(1)] ring_push_all [OF assms(1), of "concat q"]
    by (auto simp: on_recv_def)
qed

definition sample_ctx :: NetworkContext where
  "sample_ctx = \<lparr>pcb = 1, ts_state = TS_UP, dns_done = True, dns_ok = True, ip_addr = 0, net_err = None,
     rx = replicate 4096 0, rx_head = 0xFFFFFFFF, rx_tail = 0xFFFFFFFF, keepalive = True\<rparr>"

theorem transport_ring_fifo_witness:
  "(if length (concat [[1, 2], [3 :: u8]]) \<le> 4096 - length (pending sample_ctx)
    then fst (on_recv (Some [[1, 2], [3]]) sample_ctx) = ERR_OK \<and> ring_ok (snd (on_recv (Some [[1, 2], [3]]) sample_ctx)) \<and>
         pending (snd (on_recv (Some [[1, 2], [3]]) sample_ctx)) = pending sample_ctx @ concat [[1, 2], [3]]
    else on_recv (Some [[1, 2], [3]]) sample_ctx = (ERR_MEM, sample_ctx)) \<and>
     ring_ok (snd (ring_take 2 sample_ctx)) \<and> fst (ring_take 2 sample_ctx) = take 2 (pending sample_ctx) \<and>
     pending (snd (ring_take 2 sample_ctx)) = drop 2 (pending sample_ctx)"
  by (rule transport_ring_fifo) (simp_all add: ring_ok_def sample_ctx_def ring_used_def)

end
