(* ===== verification/Lwip_Libc.thy ===== *)
theory Lwip_Libc
  imports Heap_4 Flint_Libc Jsonw
begin

text \<open>
  The C library support of \<^verbatim>\<open>port/lwip/lwip_libc.c\<close>: string comparison and search, number parsing,
  allocation and the formatted output subset.  A C string is the list of its characters before
  the terminator, a pointer into it an offset; signed overflow, a read past an object and a
  variadic argument of the wrong type are undefined.
\<close>

section \<open>Bytes and strings\<close>

fun memchr :: "u8 list \<Rightarrow> int \<Rightarrow> nat \<Rightarrow> nat option ub" where
  "memchr s c 0 = Some None"
| "memchr [] c (Suc n) = None"
| "memchr (b # s) c (Suc n) = (if b = of_int c then Some (Some 0) else map_option (map_option Suc) (memchr s c n))"

fun memcmp :: "u8 list \<Rightarrow> u8 list \<Rightarrow> nat \<Rightarrow> int ub" where
  "memcmp a b 0 = Some 0"
| "memcmp (x # a) (y # b) (Suc n) = (if x \<noteq> y then Some (uint x - uint y) else memcmp a b n)"
| "memcmp [] b (Suc n) = None"
| "memcmp a [] (Suc n) = None"

definition chr :: "char \<Rightarrow> int" where
  "chr c = of_char c"

fun strcmp :: "string \<Rightarrow> string \<Rightarrow> int" where
  "strcmp (x # a) (y # b) = (if x = y then strcmp a b else chr x - chr y)"
| "strcmp (x # a) [] = chr x"
| "strcmp [] (y # b) = - chr y"
| "strcmp [] [] = 0"

fun strncmp :: "string \<Rightarrow> string \<Rightarrow> nat \<Rightarrow> int" where
  "strncmp a b 0 = 0"
| "strncmp (x # a) (y # b) (Suc n) = (if x \<noteq> y then chr x - chr y else strncmp a b n)"
| "strncmp (x # a) [] (Suc n) = chr x"
| "strncmp [] (y # b) (Suc n) = - chr y"
| "strncmp [] [] (Suc n) = 0"

fun strcpy_loop :: "nat \<Rightarrow> string \<Rightarrow> char list \<Rightarrow> char list ub" where
  "strcpy_loop i [] d = set_char i NUL d"
| "strcpy_loop i (c # s) d = set_char i c d \<bind> strcpy_loop (i + 1) s"

definition strcpy :: "char list \<Rightarrow> string \<Rightarrow> char list ub" where
  "strcpy d s = strcpy_loop 0 s d"

fun strncpy_loop :: "nat \<Rightarrow> nat \<Rightarrow> string \<Rightarrow> char list \<Rightarrow> char list ub" where
  "strncpy_loop i 0 s d = Some d"
| "strncpy_loop i (Suc n) [] d = set_char i NUL d \<bind> strncpy_loop (i + 1) n []"
| "strncpy_loop i (Suc n) (c # s) d = set_char i c d \<bind> strncpy_loop (i + 1) n s"

definition strncpy :: "char list \<Rightarrow> string \<Rightarrow> nat \<Rightarrow> char list ub" where
  "strncpy d s n = strncpy_loop 0 n s d"

text \<open>The search also finds the terminator.\<close>

fun strchr :: "string \<Rightarrow> char \<Rightarrow> nat option" where
  "strchr [] c = (if c = NUL then Some 0 else None)"
| "strchr (x # s) c = (if x = c then Some 0 else map_option Suc (strchr s c))"

fun match_here :: "string \<Rightarrow> string \<Rightarrow> bool" where
  "match_here h [] = True"
| "match_here [] (y # n) = False"
| "match_here (x # h) (y # n) = (x = y \<and> match_here h n)"

fun strstr_loop :: "string \<Rightarrow> string \<Rightarrow> nat option" where
  "strstr_loop [] n = None"
| "strstr_loop (x # h) n = (if match_here (x # h) n then Some 0 else map_option Suc (strstr_loop h n))"

definition strstr :: "string \<Rightarrow> string \<Rightarrow> nat option" where
  "strstr hay needle = (if needle = [] then Some 0 else strstr_loop hay needle)"

section \<open>Allocation\<close>

definition malloc :: "heap_layout \<Rightarrow> nat \<Rightarrow> heap4 \<Rightarrow> (nat \<times> heap4) ub" where
  "malloc lay n h = pvPortMalloc lay n h"

definition free :: "heap_layout \<Rightarrow> nat \<Rightarrow> heap4 \<Rightarrow> heap4 ub" where
  "free lay p h = vPortFree lay p h"

text \<open>The product of the sizes wraps.\<close>

definition calloc :: "heap_layout \<Rightarrow> u64 \<Rightarrow> u64 \<Rightarrow> memory \<Rightarrow> heap4 \<Rightarrow> (nat \<times> memory \<times> heap4) ub" where
  "calloc lay a b m h = do {
     let total = unat (a * b);
     (p, h) \<leftarrow> pvPortMalloc lay total h;
     Some (p, if p \<noteq> 0 then fill_up p 0 total m else m, h)
   }"

section \<open>Numbers\<close>

definition is_digit :: "char \<Rightarrow> bool" where
  "is_digit c \<longleftrightarrow> chr (CHR ''0'') \<le> chr c \<and> chr c \<le> chr (CHR ''9'')"

fun atoi_loop :: "string \<Rightarrow> int \<Rightarrow> int ub" where
  "atoi_loop [] v = Some v"
| "atoi_loop (c # s) v =
    (if is_digit c
     then do {
       v \<leftarrow> i32 (v * 10);
       v \<leftarrow> i32 (v + (chr c - chr (CHR ''0'')));
       atoi_loop s v
     }
     else Some v)"

definition atoi :: "string \<Rightarrow> int ub" where
  "atoi s =
    (let (sign, s) = (case s of c # r \<Rightarrow> if c = CHR ''-'' then (- 1, r) else (1, s) | [] \<Rightarrow> (1, s))
     in atoi_loop s 0 \<bind> (\<lambda>v. i32 (v * sign)))"

definition digit_value :: "char \<Rightarrow> int option" where
  "digit_value c =
    (if is_digit c then Some (chr c - chr (CHR ''0''))
     else if chr (CHR ''a'') \<le> chr c \<and> chr c \<le> chr (CHR ''f'') then Some (chr c - chr (CHR ''a'') + 10)
     else if chr (CHR ''A'') \<le> chr c \<and> chr c \<le> chr (CHR ''F'') then Some (chr c - chr (CHR ''A'') + 10)
     else None)"

text \<open>The value and the rest of the string, where the end pointer is left.\<close>

fun strtol_loop :: "string \<Rightarrow> int \<Rightarrow> int \<Rightarrow> (int \<times> string) ub" where
  "strtol_loop [] base v = Some (v, [])"
| "strtol_loop (c # s) base v =
    (case digit_value c of
       None \<Rightarrow> Some (v, c # s)
     | Some d \<Rightarrow> if d \<ge> base then Some (v, c # s)
                 else do {
                   v \<leftarrow> mul64 v base;
                   v \<leftarrow> add64 v d;
                   strtol_loop s base v
                 })"

definition strip_0x :: "int \<Rightarrow> string \<Rightarrow> string" where
  "strip_0x base s =
    (case s of a # b # r \<Rightarrow> if base = 16 \<and> a = CHR ''0'' \<and> (b = CHR ''x'' \<or> b = CHR ''X'') then r else s
     | _ \<Rightarrow> s)"

definition strtol :: "string \<Rightarrow> int \<Rightarrow> (int \<times> string) ub" where
  "strtol s base =
    (let (sign, s) = (case s of c # r \<Rightarrow> if c = CHR ''-'' then (- 1, r) else (1, s) | [] \<Rightarrow> (1, s))
     in do {
       (v, rest) \<leftarrow> strtol_loop (strip_0x base s) base 0;
       v \<leftarrow> mul64 v sign;
       Some (v, rest)
     })"

section \<open>Formatted output\<close>

text \<open>A variadic argument of the type \<^verbatim>\<open>va_arg\<close> reads it with.\<close>

datatype va = VLong int | VULong u64 | VPtr u64 | VInt int | VStr string

text \<open>The output array with the position, which keeps counting past the end.\<close>

type_synonym fmt_out = "char list \<times> nat"

definition emit :: "nat \<Rightarrow> char \<Rightarrow> fmt_out \<Rightarrow> fmt_out ub" where
  "emit sz c out =
    (case out of (b, pos) \<Rightarrow>
      if pos < sz then map_option (\<lambda>b. (b, pos + 1)) (set_char pos c b) else Some (b, pos + 1))"

fun emit_str :: "nat \<Rightarrow> string \<Rightarrow> fmt_out \<Rightarrow> fmt_out ub" where
  "emit_str sz [] out = Some out"
| "emit_str sz (c # s) out = emit sz c out \<bind> emit_str sz s"

text \<open>At most 24 digits, least significant first.\<close>

fun num_digits :: "nat \<Rightarrow> nat \<Rightarrow> nat \<Rightarrow> string" where
  "num_digits 0 v base = []"
| "num_digits (Suc k) v base =
    (if v \<noteq> 0 then (''0123456789abcdef'' ! (v mod base)) # num_digits k (v div base) base else [])"

definition emit_num :: "nat \<Rightarrow> u64 \<Rightarrow> nat \<Rightarrow> bool \<Rightarrow> fmt_out \<Rightarrow> fmt_out ub" where
  "emit_num sz v base neg out = do {
     out \<leftarrow> (if neg then emit sz (CHR ''-'') out else Some out);
     if v = 0 then emit sz (CHR ''0'') out
     else emit_str sz (rev (num_digits 24 (unat v) base)) out
   }"

definition is_modifier :: "char \<Rightarrow> bool" where
  "is_modifier c \<longleftrightarrow> c = CHR ''l'' \<or> c = CHR ''h'' \<or> c = CHR ''z'' \<or> is_digit c \<or> c = CHR ''-'' \<or> c = CHR ''.'' \<or>
     c = CHR ''+'' \<or> c = CHR '' ''"

text \<open>One conversion: the arguments left and the output.\<close>

definition convert :: "nat \<Rightarrow> char \<Rightarrow> va list \<Rightarrow> fmt_out \<Rightarrow> (va list \<times> fmt_out) ub" where
  "convert sz c ap out =
    (if c = CHR ''d'' then
       (case ap of VLong v # ap \<Rightarrow> do {
          n \<leftarrow> (if v < 0 then neg64 v else Some v);
          out \<leftarrow> emit_num sz (to_u64 n) 10 (v < 0) out;
          Some (ap, out)
        } | _ \<Rightarrow> None)
     else if c = CHR ''u'' then
       (case ap of VULong v # ap \<Rightarrow> map_option (Pair ap) (emit_num sz v 10 False out) | _ \<Rightarrow> None)
     else if c = CHR ''x'' then
       (case ap of VULong v # ap \<Rightarrow> map_option (Pair ap) (emit_num sz v 16 False out) | _ \<Rightarrow> None)
     else if c = CHR ''p'' then
       (case ap of VPtr v # ap \<Rightarrow> map_option (Pair ap) (emit_str sz ''0x'' out \<bind> emit_num sz v 16 False) | _ \<Rightarrow> None)
     else if c = CHR ''c'' then
       (case ap of VInt v # ap \<Rightarrow> map_option (Pair ap) (emit sz (char_of v) out) | _ \<Rightarrow> None)
     else if c = CHR ''s'' then
       (case ap of VStr s # ap \<Rightarrow> map_option (Pair ap) (emit_str sz s out) | _ \<Rightarrow> None)
     else if c = CHR ''%'' then map_option (Pair ap) (emit sz (CHR ''%'') out)
     else map_option (Pair ap) (emit sz (CHR ''%'') out \<bind> emit sz c))"

function fmt_loop :: "nat \<Rightarrow> string \<Rightarrow> va list \<Rightarrow> fmt_out \<Rightarrow> fmt_out ub" where
  "fmt_loop sz [] ap out = Some out"
| "fmt_loop sz (c # p) ap out =
    (if c \<noteq> CHR ''%'' then emit sz c out \<bind> fmt_loop sz p ap
     else (case dropWhile is_modifier p of
             [] \<Rightarrow> Some out
           | d # p' \<Rightarrow> convert sz d ap out \<bind> (\<lambda>(ap, out). fmt_loop sz p' ap out)))"
  by pat_completeness auto

termination
proof (relation "measure (\<lambda>(_, p, _, _). length p)")
  fix p :: string and d p'
  assume "dropWhile is_modifier p = d # p'"
  then have "length (d # p') \<le> length p" by (metis length_dropWhile_le)
  then show "((sz, p', ap', out'), (sz', c # p, ap, out)) \<in> measure (\<lambda>(_, p, _, _). length p)"
    for sz ap' out' sz' c ap out by simp
qed auto

definition vsnprintf :: "char list \<Rightarrow> nat \<Rightarrow> string \<Rightarrow> va list \<Rightarrow> (int \<times> char list) ub" where
  "vsnprintf b sz fmt ap = do {
     (b, pos) \<leftarrow> fmt_loop sz fmt ap (b, 0);
     b \<leftarrow> (if sz > 0 then set_char (if pos < sz then pos else sz - 1) NUL b else Some b);
     Some (to_i32 (int pos), b)
   }"

definition snprintf :: "char list \<Rightarrow> nat \<Rightarrow> string \<Rightarrow> va list \<Rightarrow> (int \<times> char list) ub" where
  "snprintf b sz fmt ap = vsnprintf b sz fmt ap"

definition sprintf :: "char list \<Rightarrow> string \<Rightarrow> va list \<Rightarrow> (int \<times> char list) ub" where
  "sprintf b fmt ap = vsnprintf b 0x7FFFFFFF fmt ap"

section \<open>What the formatter writes\<close>

text \<open>The text of a conversion and of a format, without any bound.\<close>

definition num_text :: "u64 \<Rightarrow> nat \<Rightarrow> bool \<Rightarrow> string" where
  "num_text v base neg = (if neg then ''-'' else []) @ (if v = 0 then ''0'' else rev (num_digits 24 (unat v) base))"

definition conv_text :: "char \<Rightarrow> va list \<Rightarrow> (va list \<times> string) ub" where
  "conv_text c ap =
    (if c = CHR ''d'' then
       (case ap of VLong v # ap \<Rightarrow> do {
          n \<leftarrow> (if v < 0 then neg64 v else Some v);
          Some (ap, num_text (to_u64 n) 10 (v < 0))
        } | _ \<Rightarrow> None)
     else if c = CHR ''u'' then (case ap of VULong v # ap \<Rightarrow> Some (ap, num_text v 10 False) | _ \<Rightarrow> None)
     else if c = CHR ''x'' then (case ap of VULong v # ap \<Rightarrow> Some (ap, num_text v 16 False) | _ \<Rightarrow> None)
     else if c = CHR ''p'' then (case ap of VPtr v # ap \<Rightarrow> Some (ap, ''0x'' @ num_text v 16 False) | _ \<Rightarrow> None)
     else if c = CHR ''c'' then (case ap of VInt v # ap \<Rightarrow> Some (ap, [char_of v]) | _ \<Rightarrow> None)
     else if c = CHR ''s'' then (case ap of VStr s # ap \<Rightarrow> Some (ap, s) | _ \<Rightarrow> None)
     else if c = CHR ''%'' then Some (ap, ''%'')
     else Some (ap, [CHR ''%'', c]))"

function fmt_text :: "string \<Rightarrow> va list \<Rightarrow> string ub" where
  "fmt_text [] ap = Some []"
| "fmt_text (c # p) ap =
    (if c \<noteq> CHR ''%'' then map_option (Cons c) (fmt_text p ap)
     else (case dropWhile is_modifier p of
             [] \<Rightarrow> Some []
           | d # p' \<Rightarrow> conv_text d ap \<bind> (\<lambda>(ap, t). map_option ((@) t) (fmt_text p' ap))))"
  by pat_completeness auto

termination
proof (relation "measure (\<lambda>(p, _). length p)")
  fix p :: string and d p'
  assume "dropWhile is_modifier p = d # p'"
  then have "length (d # p') \<le> length p" by (metis length_dropWhile_le)
  then show "((p', ap'), (c # p, ap)) \<in> measure (\<lambda>(p, _). length p)" for ap' c ap by simp
qed auto

text \<open>The output array after the text \<^term>\<open>t\<close> has been emitted into \<^term>\<open>b0\<close>.\<close>

definition emitted :: "nat \<Rightarrow> char list \<Rightarrow> string \<Rightarrow> fmt_out \<Rightarrow> bool" where
  "emitted sz b0 t out \<longleftrightarrow> snd out = length t \<and> length (fst out) = length b0 \<and>
     take (min sz (length t)) (fst out) = take sz t \<and> drop sz (fst out) = drop sz b0"

definition emits :: "nat \<Rightarrow> char list \<Rightarrow> string \<Rightarrow> (fmt_out \<Rightarrow> fmt_out ub) \<Rightarrow> bool" where
  "emits sz b0 t f \<longleftrightarrow> (\<forall>t0 out. emitted sz b0 t0 out \<longrightarrow> (\<exists>out'. f out = Some out' \<and> emitted sz b0 (t0 @ t) out'))"

lemma emitsE:
  assumes "emits sz b0 t f" "emitted sz b0 t0 out"
  obtains out' where "f out = Some out'" "emitted sz b0 (t0 @ t) out'"
  using assms unfolding emits_def by blast

lemma emits_the:
  assumes "emits sz b0 t f" "emitted sz b0 t0 out"
  shows "f out = Some (the (f out)) \<and> emitted sz b0 (t0 @ t) (the (f out))"
  by (rule emitsE [OF assms]) simp

lemma emits_bind: "emits sz b0 t f \<Longrightarrow> emits sz b0 u g \<Longrightarrow> emits sz b0 (t @ u) (\<lambda>out. f out \<bind> g)"
  unfolding emits_def by (metis append.assoc bind.bind_lunit)

lemma emits_nil [simp]: "emits sz b0 [] Some"
  by (simp add: emits_def)

lemma emit_emits:
  assumes "sz \<le> length b0"
  shows "emits sz b0 [c] (emit sz c)"
  unfolding emits_def
proof (intro allI impI)
  fix t0 and out :: fmt_out
  assume e: "emitted sz b0 t0 out"
  obtain b pos where o: "out = (b, pos)" by force
  have h: "pos = length t0" "length b = length b0" "take (min sz (length t0)) b = take sz t0" "drop sz b = drop sz b0"
    using e by (auto simp: emitted_def o)
  show "\<exists>out'. emit sz c out = Some out' \<and> emitted sz b0 (t0 @ [c]) out'"
  proof (cases "pos < sz")
    case True
    then have "take (length t0) b = t0" using h(1,3) by (simp add: min_def)
    then have "take (Suc (length t0)) (b[length t0 := c]) = t0 @ [c]"
      using True h(1,2) assms by (simp add: take_Suc_conv_app_nth)
    moreover have "min sz (length (t0 @ [c])) = Suc (length t0)" using True h(1) by simp
    moreover have "take sz (t0 @ [c]) = t0 @ [c]" using True h(1) by simp
    ultimately show ?thesis using True h assms by (simp add: emit_def o set_char_def emitted_def)
  next
    case False
    then show ?thesis using h by (auto simp: emit_def o emitted_def min_def)
  qed
qed

lemma emit_str_emits: "sz \<le> length b0 \<Longrightarrow> emits sz b0 s (emit_str sz s)"
proof (induction s)
  case Nil
  show ?case by (simp add: emits_def)
next
  case (Cons c s)
  then show ?case using emits_bind [OF emit_emits [of sz b0 c]] by fastforce
qed

lemma emit_num_emits:
  assumes "sz \<le> length b0"
  shows "emits sz b0 (num_text v base neg) (emit_num sz v base neg)"
proof -
  have a: "emits sz b0 (if neg then ''-'' else []) (\<lambda>out. if neg then emit sz (CHR ''-'') out else Some out)"
    using emit_emits [OF assms] by (cases neg) (simp_all add: emits_def)
  have b: "emits sz b0 (if v = 0 then ''0'' else rev (num_digits 24 (unat v) base))
     (\<lambda>out. if v = 0 then emit sz (CHR ''0'') out else emit_str sz (rev (num_digits 24 (unat v) base)) out)"
    using emit_emits [OF assms] emit_str_emits [OF assms] by (cases "v = 0") auto
  show ?thesis using emits_bind [OF a b] by (simp add: num_text_def emit_num_def [abs_def])
qed

lemma convert_emits:
  assumes "sz \<le> length b0" "conv_text c ap = Some (ap', t)" "emitted sz b0 t0 out"
  shows "\<exists>out'. convert sz c ap out = Some (ap', out') \<and> emitted sz b0 (t0 @ t) out'"
proof -
  note e = emit_emits [OF assms(1)] emit_str_emits [OF assms(1)] emit_num_emits [OF assms(1)]
  define N S E where "N v b n = the (emit_num sz v b n out)" and "S s = the (emit_str sz s out)"
    and "E d = the (emit sz d out)" for v b n s d
  have N: "emit_num sz v b n out = Some (N v b n)" "emitted sz b0 (t0 @ num_text v b n) (N v b n)" for v b n
    using emits_the [OF e(3) assms(3)] by (simp_all add: N_def)
  have S: "emit_str sz s out = Some (S s)" "emitted sz b0 (t0 @ s) (S s)" for s
    using emits_the [OF e(2) assms(3)] by (simp_all add: S_def)
  have E: "emit sz d out = Some (E d)" "emitted sz b0 (t0 @ [d]) (E d)" for d
    using emits_the [OF e(1) assms(3)] by (simp_all add: E_def)
  define P where "P v = the (emit_num sz v 16 False (S ''0x''))" for v
  have P: "emit_num sz v 16 False (S ''0x'') = Some (P v)" "emitted sz b0 (t0 @ CHR ''0'' # CHR ''x'' # num_text v 16 False) (P v)" for v
    using emits_the [OF e(3) S(2), of v 16 False "''0x''"] by (simp_all add: P_def)
  define Q where "Q = the (emit sz c (E (CHR ''%'')))"
  have Q: "emit sz c (E (CHR ''%'')) = Some Q" "emitted sz b0 (t0 @ [CHR ''%'', c]) Q"
    using emits_the [OF e(1) E(2), of c "CHR ''%''"] by (simp_all add: Q_def)
  note facts = N S E P Q
  consider (d) "c = CHR ''d''" | (s) "c \<noteq> CHR ''d''" "c = CHR ''s''" | (other) "c \<noteq> CHR ''d''" "c \<noteq> CHR ''s''" by blast
  then show ?thesis
  proof cases
    case d
    then obtain v where v: "ap = VLong v # ap'" using assms(2)
      by (auto simp: conv_text_def bind_eq_Some_conv split: list.splits va.splits)
    then obtain n where "(if v < 0 then neg64 v else Some v) = Some n" "t = num_text (to_u64 n) 10 (v < 0)"
      using assms(2) d by (cases "v < 0") (auto simp: conv_text_def bind_eq_Some_conv)
    then show ?thesis using d v facts by (simp add: convert_def)
  next
    case s
    then show ?thesis using assms(2)
      by (auto simp: conv_text_def convert_def facts simp del: split_paired_Ex split: list.splits va.splits)
  next
    case other
    then show ?thesis using assms(2)
      by (auto simp: conv_text_def convert_def facts simp del: emit_str.simps split_paired_Ex split: if_splits list.splits va.splits)
  qed
qed

lemma fmt_loop_emits:
  assumes "sz \<le> length b0"
  shows "emitted sz b0 t0 out \<Longrightarrow> fmt_text p ap = Some t \<Longrightarrow>
    \<exists>out'. fmt_loop sz p ap out = Some out' \<and> emitted sz b0 (t0 @ t) out'"
proof (induction p ap arbitrary: t0 out t rule: fmt_text.induct)
  case (1 ap)
  then show ?case by simp
next
  case (2 c p ap)
  show ?case
  proof (cases "c = CHR ''%''")
    case False
    then obtain u where u: "fmt_text p ap = Some u" "t = c # u" using "2.prems"(2) by auto
    obtain out1 where o1: "emit sz c out = Some out1" "emitted sz b0 (t0 @ [c]) out1"
      by (rule emitsE [OF emit_emits [OF assms] "2.prems"(1)])
    show ?thesis using "2.IH"(1) [OF False o1(2) u(1)] o1(1) u(2) False by simp
  next
    case True
    show ?thesis
    proof (cases "dropWhile is_modifier p")
      case Nil
      then have "fmt_text (c # p) ap = Some []" "fmt_loop sz (c # p) ap out = Some out"
        unfolding fmt_text.simps fmt_loop.simps Nil using True by simp_all
      then show ?thesis using "2.prems" by simp
    next
      case (Cons d p')
      then obtain ap' u v where u: "conv_text d ap = Some (ap', u)" "fmt_text p' ap' = Some v" "t = u @ v"
        using True "2.prems"(2) by (auto simp: bind_eq_Some_conv)
      obtain out1 where o1: "convert sz d ap out = Some (ap', out1)" "emitted sz b0 (t0 @ u) out1"
        using convert_emits [OF assms u(1) "2.prems"(1)] by blast
      have "\<exists>out'. fmt_loop sz p' ap' out1 = Some out' \<and> emitted sz b0 ((t0 @ u) @ v) out'"
        by (rule "2.IH"(2) [OF _ Cons u(1) refl o1(2) u(2)]) (use True in simp)
      then show ?thesis using True Cons o1(1) u(3) by simp
    qed
  qed
qed

text \<open>The digits are read back by \<^const>\<open>strtol\<close>.\<close>

lemma digit_value_digit:
  assumes "d < 16"
  shows "digit_value (''0123456789abcdef'' ! d) = Some (int d)"
proof -
  have "list_all (\<lambda>d. digit_value (''0123456789abcdef'' ! d) = Some (int d)) [0..<16]"
    by code_simp
  then show ?thesis using assms by (simp only: list_all_iff) auto
qed

lemma strtol_loop_append:
  "strtol_loop s base v = Some (w, []) \<Longrightarrow> strtol_loop (s @ t) base v = strtol_loop t base w"
  by (induction s base v rule: strtol_loop.induct) (auto simp: bind_eq_Some_conv split: option.splits if_splits)

lemma strtol_loop_digits:
  assumes "2 \<le> base" "base \<le> 16"
  shows "v < base ^ k \<Longrightarrow> v < 2 ^ 63 \<Longrightarrow> strtol_loop (rev (num_digits k v base)) (int base) 0 = Some (int v, [])"
proof (induction k arbitrary: v)
  case 0
  then show ?case by simp
next
  case (Suc k)
  have d: "v mod base < base" using assms by simp
  have le: "v div base * base \<le> v" by simp
  have "v div base < base ^ k" using Suc.prems by (simp add: less_mult_imp_div_less mult.commute)
  moreover have "v div base < 2 ^ 63" using Suc.prems(2) by (meson div_le_dividend le_less_trans)
  ultimately have ih: "strtol_loop (rev (num_digits k (v div base) base)) (int base) 0 = Some (int (v div base), [])"
    by (rule Suc.IH)
  have m: "mul64 (int (v div base)) (int base) = Some (int (v div base * base))"
  proof -
    have "v div base * base < 2 ^ 63" using le Suc.prems(2) by (rule le_less_trans)
    then have "int (v div base * base) < 2 ^ 63" by (metis of_nat_less_numeral_power_cancel_iff)
    then have "i64_range (int (v div base * base))" unfolding i64_range_def by linarith
    then show ?thesis by (simp only: mul64_def i64_def of_nat_mult [symmetric] if_True)
  qed
  have a: "add64 (int (v div base * base)) (int (v mod base)) = Some (int v)"
  proof -
    have "int v < 2 ^ 63" using Suc.prems(2) by simp
    then have "i64_range (int v)" unfolding i64_range_def by linarith
    then show ?thesis by (simp only: add64_def i64_def of_nat_add [symmetric] div_mult_mod_eq if_True)
  qed
  show ?case
    using d assms(2) m a strtol_loop_append [OF ih, of "[''0123456789abcdef'' ! (v mod base)]"]
    by (auto simp: digit_value_digit)
qed

lemma vsnprintf_text:
  assumes "fmt_text fmt ap = Some t" "0 < sz" "sz \<le> length b"
  shows "\<exists>b'. vsnprintf b sz fmt ap = Some (to_i32 (int (length t)), b') \<and> length b' = length b \<and>
    take (Suc (min (length t) (sz - 1))) b' = take (sz - 1) t @ [NUL] \<and> drop sz b' = drop sz b"
proof -
  have "emitted sz b [] (b, 0)" by (simp add: emitted_def)
  then obtain b1 pos where l: "fmt_loop sz fmt ap (b, 0) = Some (b1, pos)" and e: "emitted sz b t (b1, pos)"
    using fmt_loop_emits [OF assms(3) _ assms(1)] by (metis append_Nil surj_pair)
  have h: "pos = length t" "length b1 = length b" "take (min sz (length t)) b1 = take sz t" "drop sz b1 = drop sz b"
    using e by (simp_all add: emitted_def)
  let ?i = "min (length t) (sz - 1)"
  have i: "(if pos < sz then pos else sz - 1) = ?i" using assms(2) h(1) by auto
  have i2: "?i < sz" "?i < length b1" using assms(2,3) h(2) by auto
  have "take ?i b1 = take ?i (take (min sz (length t)) b1)" by (simp add: min_def)
  also have "\<dots> = take (sz - 1) t" unfolding h(3) by (auto simp: min_def)
  finally have "take (Suc ?i) (b1[?i := NUL]) = take (sz - 1) t @ [NUL]"
    using i2 by (simp add: take_Suc_conv_app_nth)
  moreover have "vsnprintf b sz fmt ap = Some (to_i32 (int (length t)), b1[?i := NUL])"
    unfolding vsnprintf_def l bind.bind_lunit prod.case i using i2 assms(2) h(1) by (simp add: set_char_def)
  ultimately show ?thesis using i2 h by simp
qed

text \<open>
  C15: the bounded formatter (\<^verbatim>\<open>vsnprintf\<close>).  When the arguments fit the format it always returns, with the length
  of the whole text as the standard asks; the array then holds the text cut to \<^term>\<open>sz - 1\<close> characters with
  the terminator right behind, and nothing past \<^term>\<open>sz\<close> is written.
\<close>

theorem vsnprintf_truncates:
  assumes "fmt_text fmt ap = Some t" "0 < sz" "sz \<le> length b"
  shows "\<exists>b'. vsnprintf b sz fmt ap = Some (to_i32 (int (length t)), b') \<and> length b' = length b \<and>
    take (Suc (min (length t) (sz - 1))) b' = take (sz - 1) t @ [NUL] \<and> drop sz b' = drop sz b"
  by (rule vsnprintf_text [OF assms])

theorem vsnprintf_truncates_witness:
  "fmt_text ''v=%d %s'' [VLong (- 42), VStr ''ok''] = Some ''v=-42 ok'' \<and>
   (\<exists>b'. vsnprintf (replicate 8 CHR ''?'') 6 ''v=%d %s'' [VLong (- 42), VStr ''ok''] = Some (to_i32 8, b') \<and>
     length b' = 8 \<and> take 6 b' = ''v=-42'' @ [NUL] \<and> drop 6 b' = ''??'')"
proof
  show t: "fmt_text ''v=%d %s'' [VLong (- 42), VStr ''ok''] = Some ''v=-42 ok''" by code_simp
  show "\<exists>b'. vsnprintf (replicate 8 CHR ''?'') 6 ''v=%d %s'' [VLong (- 42), VStr ''ok''] = Some (to_i32 8, b') \<and>
     length b' = 8 \<and> take 6 b' = ''v=-42'' @ [NUL] \<and> drop 6 b' = ''??''"
    using vsnprintf_truncates [OF t, of 6 "replicate 8 CHR ''?''"] by (simp add: numeral_eq_Suc)
qed

text \<open>The digits of a number: how many there are, and that none is a terminator or a sign.\<close>

lemma length_num_digits: "0 < base \<Longrightarrow> v < base ^ m \<Longrightarrow> length (num_digits k v base) \<le> m"
proof (induction k arbitrary: v m)
  case 0
  then show ?case by simp
next
  case (Suc k)
  show ?case
  proof (cases "v = 0")
    case False
    then obtain j where m: "m = Suc j" using Suc.prems by (cases m) auto
    then have "v div base < base ^ j" using Suc.prems by (simp add: less_mult_imp_div_less mult.commute)
    then show ?thesis using Suc.IH [OF Suc.prems(1)] False m by simp
  qed simp
qed

lemma num_digits_in:
  assumes "0 < base" "base \<le> 16" "\<And>d. d < 16 \<Longrightarrow> ''0123456789abcdef'' ! d \<in> X"
  shows "set (num_digits k v base) \<subseteq> X"
proof (induction k arbitrary: v)
  case (Suc k)
  have "v mod base < 16" using assms(1,2) mod_less_divisor [of base v] by linarith
  then show ?case using assms(3) Suc by (cases "v = 0") simp_all
qed simp

lemma num_digits_chars:
  assumes "0 < base" "base \<le> 16"
  shows "set (num_digits k v base) \<subseteq> set ''0123456789abcdef''"
proof (rule num_digits_in [OF assms])
  fix d :: nat assume "d < 16"
  then have "d < length ''0123456789abcdef''" by simp
  then show "''0123456789abcdef'' ! d \<in> set ''0123456789abcdef''" by (rule nth_mem)
qed

definition d_text :: "int \<Rightarrow> string" where
  "d_text v = num_text (to_u64 \<bar>v\<bar>) 10 (v < 0)"

lemma fmt_text_d: "- (2 ^ 63) < v \<Longrightarrow> v < 2 ^ 63 \<Longrightarrow> fmt_text ''%d'' [VLong v] = Some (d_text v)"
  by (auto simp: is_modifier_def is_digit_def chr_def conv_text_def d_text_def neg64_def i64_def i64_range_def)

lemma strtol_d_text:
  assumes "- (2 ^ 63) < v" "v < 2 ^ 63"
  shows "strtol (d_text v) 10 = Some (v, [])" "length (d_text v) \<le> 20" "NUL \<notin> set (d_text v)"
proof -
  define n where "n = nat \<bar>v\<bar>"
  define ds where "ds = (if n = 0 then ''0'' else rev (num_digits 24 n 10))"
  have n: "n < 2 ^ 63" "n < 10 ^ 19" "n < 10 ^ 24" using assms by (auto simp: n_def)
  have u: "unat (to_u64 \<bar>v\<bar>) = n"
    using assms by (simp add: to_u64_def n_def unat_eq_nat_uint uint_word_of_int take_bit_int_eq_self)
  then have z: "to_u64 \<bar>v\<bar> = 0 \<longleftrightarrow> n = 0" by (auto simp: unat_eq_zero)
  have t: "d_text v = (if v < 0 then ''-'' else []) @ ds"
    by (simp add: d_text_def num_text_def z u ds_def)
  have l: "strtol_loop ds 10 0 = Some (int n, [])"
  proof (cases "n = 0")
    case True
    then show ?thesis by (simp add: ds_def) code_simp
  next
    case False
    then show ?thesis using strtol_loop_digits [of 10 n 24] n by (simp add: ds_def)
  qed
  have s: "set ds \<subseteq> set ''0123456789abcdef''" using num_digits_chars [of 10 24 n] by (auto simp: ds_def)
  have len: "length ds \<le> 19" using length_num_digits [of 10 n 19 24] n(2) by (simp add: ds_def)
  show "length (d_text v) \<le> 20" using len by (simp add: t)
  show "NUL \<notin> set (d_text v)" using s by (auto simp: t)
  have "ds \<noteq> []" using l by (auto simp: ds_def) 
  then obtain c r where c: "ds = c # r" "c \<noteq> CHR ''-''" using s by (cases ds) auto
  have x: "strip_0x 10 ds = ds" by (simp add: strip_0x_def split: list.splits)
  have "mul64 (int n) (if v < 0 then - 1 else 1) = Some v"
    using assms by (auto simp: n_def mul64_def i64_def i64_range_def)
  then show "strtol (d_text v) 10 = Some (v, [])" using l x c by (auto simp: strtol_def t split: if_splits)
qed

text \<open>
  C40: formatting and parsing agree.  A \<^verbatim>\<open>long\<close> other than the least one, printed by \<^verbatim>\<open>snprintf\<close> with
  \<^verbatim>\<open>%d\<close> into an array of at least 21 characters, is read back by \<^verbatim>\<open>strtol\<close> in base 10, which
  consumes the whole string.
\<close>

theorem snprintf_strtol_roundtrip:
  assumes "- (2 ^ 63) < v" "v < 2 ^ 63" "21 \<le> sz" "sz \<le> length b"
  shows "\<exists>r b'. snprintf b sz ''%d'' [VLong v] = Some (r, b') \<and> strtol (cstr b') 10 = Some (v, [])"
proof -
  note d = strtol_d_text [OF assms(1,2)]
  have m: "min (length (d_text v)) (sz - 1) = length (d_text v)" "take (sz - 1) (d_text v) = d_text v"
    using d(2) assms(3) by simp_all
  obtain b' where b: "vsnprintf b sz ''%d'' [VLong v] = Some (to_i32 (int (length (d_text v))), b')"
    "length b' = length b" "take (Suc (length (d_text v))) b' = d_text v @ [NUL]"
    using vsnprintf_text [OF fmt_text_d [OF assms(1,2)], of sz b] m assms(3,4) by auto
  define r where "r = drop (Suc (length (d_text v))) b'"
  have "b' = (d_text v @ [NUL]) @ r"
    unfolding r_def b(3) [symmetric] by (simp only: append_take_drop_id)
  then have "cstr b' = d_text v"
    using d(3) by (auto simp: cstr_def takeWhile_append)
  then show ?thesis using b(1) d(1) by (simp add: snprintf_def)
qed

theorem snprintf_strtol_roundtrip_witness:
  "\<exists>r b'. snprintf (replicate 24 CHR ''?'') 24 ''%d'' [VLong (- 1234)] = Some (r, b') \<and>
     strtol (cstr b') 10 = Some (- 1234, [])"
  by (rule snprintf_strtol_roundtrip) simp_all

end
