(* ===== verification/Spec2Isabelle.thy ===== *)
theory Spec2Isabelle
  imports Flint_Prelude Flint_Types Msgtag Cap Prio_Bitmap List_Mgmt Heap_Api Heap_4 Heap_1 Ptp_Time Ptp_Msg Ptp_Clock
    Ptp_Servo Ptp_Core Ptp_Props Mqtt_Props Flint_Libc Port Tasks Sched_Props Irq Queue Jsonw Mqtt Genet_Props Mailbox Transport_Raw
    Lwip_Libc
begin

text \<open>
  This development verifies FlintRTOS, a small real-time kernel for the Raspberry Pi 4 with a network
  stack port, an MQTT device application and a PTP clock slave.  Sources are under \<^verbatim>\<open>src/\<close>.

  \<^bold>\<open>The program.\<close>  The kernel (\<^verbatim>\<open>kernel/\<close>) has two halves.  The capability half holds message tags, capability
  nodes and a priority bitmap; it shares only basic types with the rest.  The scheduling half is
  built bottom up: intrusive lists, a heap, the port layer with critical sections, the scheduler on
  the lists and the heap, and queues, semaphores and mutexes on the scheduler.  Around it are the
  drivers (\<^verbatim>\<open>bsp/rpi4/\<close>), the MQTT application with its JSON writer and transport (\<^verbatim>\<open>port/mqtt/\<close>), the PTP slave
  (\<^verbatim>\<open>port/ptp/\<close>) and the C library support for the vendored lwIP stack (\<^verbatim>\<open>port/lwip/\<close>).

  \<^bold>\<open>Conventions.\<close>  A C function is a function of the same name on explicit state.  Undefined behaviour
  (signed overflow, an access outside an object, a null dereference) is the value \<^const>\<open>None\<close> of
  \<^typ>\<open>'a ub\<close>; unsigned arithmetic is on words of its width and wraps.  A loop without a structural
  argument is a \<^theory_text>\<open>partial_function (option)\<close>, for which not returning is \<^const>\<open>None\<close> as well, so a theorem that
  gives \<^const>\<open>Some\<close> shows both that the call returns and that it is defined.  Hardware, the vendored
  libraries and the platform are parameters: records of functions with a state of their own.

  \<^bold>\<open>Theories, with the sources they model and what they show.\<close>

  \<^item> \<^verbatim>\<open>Flint_Prelude\<close>, \<^verbatim>\<open>Flint_Types\<close>: undefined behaviour, checked 32- and 64-bit arithmetic, reachability and
    invariants of step systems (locale \<^verbatim>\<open>safe_system\<close>); \<^verbatim>\<open>include/flint/{types,status,config}.h\<close>.
  \<^item> \<^verbatim>\<open>Msgtag\<close> (\<^verbatim>\<open>kernel/msgtag.c\<close>): packing and unpacking are inverse, and which arguments are rejected.
  \<^item> \<^verbatim>\<open>Cap\<close> (\<^verbatim>\<open>kernel/cap.c\<close>): over a space of capability nodes, no sequence of copy, mint, move and delete
    creates authority; well-formedness is kept; failing calls change nothing; moves are reversible.
  \<^item> \<^verbatim>\<open>Prio_Bitmap\<close> (\<^verbatim>\<open>kernel/prio_bitmap.c\<close>): the two-level bitmap implements a set and its search the maximum.
  \<^item> \<^verbatim>\<open>List_Mgmt\<close> (\<^verbatim>\<open>kernel/list.c\<close>, \<^verbatim>\<open>list.h\<close>): a store of linked items; each list is a ring that represents a
    sequence, ordered insertion ends and sorts, removal keeps the round-robin order, and the
    owner-of-next macro visits every item once per round.
  \<^item> \<^verbatim>\<open>Heap_Api\<close>: the contract of an allocator (locale \<^verbatim>\<open>heap_api\<close>); \<^verbatim>\<open>Heap_4\<close> (\<^verbatim>\<open>portable/MemMang/heap_4.c\<close>) and \<^verbatim>\<open>Heap_1\<close>
    (\<^verbatim>\<open>heap_1.c\<close>, \<^verbatim>\<open>heap_3.c\<close>) implement it: live regions are disjoint and inside the pool, released
    memory is merged; the size check of the allocate-only heap wraps near the word size.
  \<^item> \<^verbatim>\<open>Port\<close>, \<^verbatim>\<open>Irq\<close> (\<^verbatim>\<open>portable/LLVM_AArch64/port.c\<close>, \<^verbatim>\<open>portmacro.h\<close>): critical sections, the initial context frame, the
    timer, the interrupt controller and the interrupt handler.
  \<^item> \<^verbatim>\<open>Tasks\<close> (\<^verbatim>\<open>kernel/tasks.c\<close>): task creation, ready, delayed and suspended lists, event lists, tick,
    context switch, priority inheritance.
  \<^item> \<^verbatim>\<open>Sched_Inv\<close>, \<^verbatim>\<open>Sched_Props\<close>: the invariant of the scheduler's lists, which creation and every operation keep;
    the context switch takes the next task in turn at the highest ready priority, the tick wakes
    exactly the expired tasks, an event wakes the waiter of the highest base priority, and priority
    inheritance raises a mutex holder and restores it.
  \<^item> \<^verbatim>\<open>Queue\<close> (\<^verbatim>\<open>kernel/queue.c\<close>, \<^verbatim>\<open>semphr.h\<close>): queues with their ring buffer in a byte memory, blocking sends and receives
    cut where the task gives up the processor, semaphores and mutexes.
  \<^item> \<^verbatim>\<open>Flint_Libc\<close> (\<^verbatim>\<open>kernel/flint_libc.c\<close>): memory functions; \<^verbatim>\<open>memmove\<close> copies right for every overlap.
  \<^item> \<^verbatim>\<open>Jsonw\<close> (\<^verbatim>\<open>port/mqtt/jsonw.c\<close>): the writer stays inside its buffer and holds the JSON text cut to its capacity.
  \<^item> \<^verbatim>\<open>Mqtt\<close>, \<^verbatim>\<open>Mqtt_Props\<close> (\<^verbatim>\<open>port/mqtt/flint_mqtt.c\<close>): the service loop is defined whatever the broker and the
    platform answer, keeps its strings terminated and its back-off bounded; commands are answered.
  \<^item> \<^verbatim>\<open>Transport_Raw\<close> (\<^verbatim>\<open>port/mqtt/transport_raw.c\<close>): the receive ring implements a byte queue.
  \<^item> \<^verbatim>\<open>Lwip_Libc\<close> (\<^verbatim>\<open>port/lwip/lwip_libc.c\<close>): the formatter truncates as specified and numbers survive
    printing and parsing.
  \<^item> \<^verbatim>\<open>Genet_Regs\<close>, \<^verbatim>\<open>Genet\<close>, \<^verbatim>\<open>Genet_Props\<close> (\<^verbatim>\<open>bsp/rpi4/genet.c\<close>): reception ends and returns the first good frame.
  \<^item> \<^verbatim>\<open>Mailbox\<close> (\<^verbatim>\<open>bsp/rpi4/mailbox.c\<close>): a reported hardware address is a usable unicast address.
  \<^item> \<^verbatim>\<open>Ptp_Time\<close>, \<^verbatim>\<open>Ptp_Msg\<close>, \<^verbatim>\<open>Ptp_Clock\<close>, \<^verbatim>\<open>Ptp_Servo\<close>, \<^verbatim>\<open>Ptp_Core\<close>, \<^verbatim>\<open>Ptp_Props\<close> (\<^verbatim>\<open>port/ptp/\<close>): time arithmetic and
    wire format, the disciplined clock is exact and monotone, the servo keeps its limits, and the
    slave engine keeps its invariant, follows the best master and filters delays by a median.

  \<^bold>\<open>Bounds.\<close>  No property is bounded by fuel.  The counts in the models are those of the code: 24 digits
  in the formatter, 256 descriptors in a stamping pass, 100000 polls of a busy register.  Sizes are
  limited only where the code relies on it: heap requests below 2 to the 63, stacks and lists shorter
  than their counters, servo samples within the range stated in each theorem.

  \<^bold>\<open>Not modelled.\<close>  Assembly (boot, vectors, context switch) apart from its effect on the control block;
  console output and the functions that only print; the thin bindings to lwIP (\<^verbatim>\<open>sys_arch.c\<close>,
  \<^verbatim>\<open>flint_netif.c\<close>, \<^verbatim>\<open>transport_lwip.c\<close>, \<^verbatim>\<open>ptp_slave.c\<close>, \<^verbatim>\<open>ptp_lwip_raw.c\<close>), whose work is done by modelled functions or by
  the vendored stack; the demonstration program; kernel features that are empty skeletons in this
  revision (event groups, timers, stream buffers, co-routines, heap 2 and 5); the vendored libraries
  under \<^verbatim>\<open>third_party/\<close>; the tests.  Interrupts are modelled as operations between those of the tasks,
  which is sound inside critical sections; memory barriers and caches have no counterpart.
\<close>

end
